(* ===== verification/Prelude.thy ===== *)
theory Prelude
  imports Main "HOL-Library.Word"
begin

text \<open>
  Prelude of the development: the C integer types the sources use, the outcome type of
  operations that can fault, the errno values, the collections of proof hints, and the
  lemmas on words and lists that the components share.

  An operation that can run into behaviour the C language leaves undefined, or into an
  assertion that aborts the process, returns \<open>fault + 'a\<close>: \<open>Inl\<close> names what went wrong
  and \<open>Inr\<close> carries the result.  Operations without such a path return their result
  directly.
\<close>

unbundle bit_operations_syntax

named_theorems word_of_c \<open>conversions between the widths of C integers\<close>
named_theorems res_simps \<open>evaluation of outcomes\<close>

type_synonym uint8 = "8 word"
type_synonym uint16 = "16 word"
type_synonym uint32 = "32 word"
type_synonym uint64 = "64 word"
type_synonym addr_t = "32 word"
type_synonym size_t = "64 word"

text \<open>What can go wrong inside a call: \<open>DEV_PANIC\<close>/\<open>DEV_ASSERT\<close> abort the process, a
  \<open>NULL\<close> result pointer is dereferenced, an array is indexed out of range, or the language
  leaves the operation undefined in another way (signed overflow, a variadic argument of the
  wrong type).  \<open>Halt\<close> is the end of the simulated machine's run with an exit code.\<close>

datatype fault = Panic | NullDeref | OutOfBounds | Undefined | Halt uint32

text \<open>The errno values the setup functions return negated; \<open>None\<close> stands for 0.\<close>

datatype errno = EIO | ENOMEM | EFAULT | EEXIST | EINVAL | ENOTSUP

type_synonym rc = "errno option"

fun bind_res :: "fault + 'a \<Rightarrow> ('a \<Rightarrow> fault + 'b) \<Rightarrow> fault + 'b" where
  "bind_res (Inl e) f = Inl e"
| "bind_res (Inr x) f = f x"

fun ok_res :: "fault + 'a \<Rightarrow> bool" where
  "ok_res (Inl e) \<longleftrightarrow> False"
| "ok_res (Inr x) \<longleftrightarrow> True"

lemma bind_res_Inr [res_simps]: "bind_res m f = Inr y \<longleftrightarrow> (\<exists>x. m = Inr x \<and> f x = Inr y)"
  by (cases m) auto

lemma ok_res_iff [res_simps]: "ok_res m \<longleftrightarrow> (\<exists>x. m = Inr x)"
  by (cases m) auto

text \<open>Out-parameters: a result pointer is \<open>None\<close> when it is \<open>NULL\<close>, and otherwise the
  content of the cell it points to.\<close>

type_synonym out32 = "uint32 option"

definition zero_out :: "out32 \<Rightarrow> out32" where
  "zero_out p = map_option (\<lambda>_. 0) p"

definition store_out :: "out32 \<Rightarrow> uint32 \<Rightarrow> fault + out32" where
  "store_out p v = (case p of None \<Rightarrow> Inl NullDeref | Some _ \<Rightarrow> Inr (Some v))"

lemma zero_out_simps [simp]: "zero_out None = None" "zero_out (Some v) = Some 0"
  by (simp_all add: zero_out_def)

lemma store_out_simps [simp]: "store_out None v = Inl NullDeref" "store_out (Some w) v = Inr (Some v)"
  by (simp_all add: store_out_def)

lemma unat32_lt: "unat (w :: uint32) < 4294967296"
  using unsigned_less [where 'b = 32 and 'a = nat, of w] by simp

lemma unat64_lt: "unat (w :: uint64) < 18446744073709551616"
  using unsigned_less [where 'b = 64 and 'a = nat, of w] by simp

lemma unat_ucast_32_64 [word_of_c]: "unat (ucast (w :: uint32) :: uint64) = unat w"
  using unat32_lt [of w] by (simp add: unsigned_ucast_eq take_bit_nat_eq_self)

text \<open>The alignment tests \<open>x & (2^n - 1)\<close> as remainders.\<close>

lemma and_mask_0_iff: "(w :: 'a::len word) AND mask n = 0 \<longleftrightarrow> unat w mod 2 ^ n = 0"
proof -
  have "w AND mask n = 0 \<longleftrightarrow> unat (take_bit n w) = 0"
    by (simp add: take_bit_eq_mask unat_eq_0)
  also have "\<dots> \<longleftrightarrow> unat w mod 2 ^ n = 0"
    by (simp only: unsigned_take_bit_eq) (simp add: take_bit_eq_mod)
  finally show ?thesis .
qed

lemma and_1_0_iff [word_of_c]: "(w :: 'a::len word) AND 1 = 0 \<longleftrightarrow> unat w mod 2 = 0"
  using and_mask_0_iff [of w 1] by (simp add: mask_eq_exp_minus_1)

lemma and_3_0_iff [word_of_c]: "(w :: 'a::len word) AND 3 = 0 \<longleftrightarrow> unat w mod 4 = 0"
  using and_mask_0_iff [of w 2] by (simp add: mask_eq_exp_minus_1)

text \<open>The low bytes of a word and a word from its four bytes (little endian).\<close>

definition le_byte :: "uint32 \<Rightarrow> nat \<Rightarrow> uint8" where
  "le_byte v i = ucast (drop_bit (8 * i) v)"

definition le_word :: "uint8 \<Rightarrow> uint8 \<Rightarrow> uint8 \<Rightarrow> uint8 \<Rightarrow> uint32" where
  "le_word b0 b1 b2 b3 =
     ucast b0 OR push_bit 8 (ucast b1) OR push_bit 16 (ucast b2) OR push_bit 24 (ucast b3)"

lemma bit_word_low: "bit (w :: 'a::len word) i \<Longrightarrow> i < LENGTH('a)"
  by (rule bit_imp_le_length)

lemma le_word_le_byte [simp]:
  "le_word (le_byte v 0) (le_byte v 1) (le_byte v 2) (le_byte v 3) = v"
proof (rule bit_eqI)
  fix n assume "possible_bit TYPE(uint32) n"
  then have n: "n < 32" by simp
  show "bit (le_word (le_byte v 0) (le_byte v 1) (le_byte v 2) (le_byte v 3)) n = bit v n"
  proof (cases "n < 8 \<or> (8 \<le> n \<and> n < 16) \<or> (16 \<le> n \<and> n < 24)")
    case True
    then show ?thesis using n
      by (auto simp: le_word_def le_byte_def bit_simps)
  next
    case False
    then have "24 \<le> n" by auto
    then show ?thesis using n
      by (auto simp: le_word_def le_byte_def bit_simps)
  qed
qed

end
