(* ===== verification/HostEnv.thy ===== *)
theory HostEnv
  imports Prelude
begin

text \<open>
  The part of the host's C library the sources call: the heap allocator, the standard
  streams, the terminal's input and the files.  What the environment decides is kept as a
  script consumed call by call (which allocations succeed, what each non-blocking
  \<open>read(2)\<close> of standard input returns, which \<open>fputc\<close> fails), so that every behaviour of
  the library is an initial state.  An exhausted script means: the allocation succeeds,
  there is no input, the character is written.  \<open>h_live\<close> counts the heap blocks and
  \<open>h_open\<close> the open files, for the statements about leaks.
\<close>

datatype stream = Stdout | Stderr | UserFile nat

text \<open>A file opened for reading: its content, whether it can be positioned (a pipe cannot)
  and the position.\<close>

record cfile =
  f_data :: "uint8 list"
  f_seekable :: bool
  f_pos :: nat

definition host_fseek :: "cfile \<Rightarrow> nat \<Rightarrow> cfile option" where
  \<comment> \<open>\<open>fseek(f, off, SEEK_SET)\<close>; a position past the end is allowed\<close>
  "host_fseek f off = (if f_seekable f then Some (f\<lparr>f_pos := off\<rparr>) else None)"

definition host_fread :: "cfile \<Rightarrow> nat \<Rightarrow> (uint8 list \<times> cfile) option" where
  \<comment> \<open>\<open>n\<close> bytes from the position, \<open>None\<close> when fewer are left\<close>
  "host_fread f n =
     (if f_pos f + n \<le> length (f_data f)
      then Some (take n (drop (f_pos f) (f_data f)), f\<lparr>f_pos := f_pos f + n\<rparr>) else None)"

record host =
  h_alloc :: "bool list"
  h_live :: nat
  h_stdin :: "uint8 option list"
  h_out :: "stream \<Rightarrow> uint8 list"
  h_putfail :: "bool list"
  h_fs :: "string \<Rightarrow> cfile option"
  h_open :: nat

definition host0 :: host where
  "host0 = \<lparr>h_alloc = [], h_live = 0, h_stdin = [], h_out = (\<lambda>_. []), h_putfail = [],
            h_fs = (\<lambda>_. None), h_open = 0\<rparr>"

text \<open>The allocator.  A request above \<open>PTRDIFF_MAX\<close> is always refused.\<close>

definition heap_grant :: "size_t \<Rightarrow> host \<Rightarrow> bool" where
  "heap_grant n h \<longleftrightarrow> unat n < 2 ^ 63 \<and> (case h_alloc h of [] \<Rightarrow> True | b # _ \<Rightarrow> b)"

definition heap_calloc :: "size_t \<Rightarrow> host \<Rightarrow> bool \<times> host" where
  "heap_calloc n h =
     (heap_grant n h,
      h\<lparr>h_alloc := tl (h_alloc h), h_live := h_live h + (if heap_grant n h then 1 else 0)\<rparr>)"

definition heap_realloc :: "bool \<Rightarrow> size_t \<Rightarrow> host \<Rightarrow> bool \<times> host" where
  \<comment> \<open>the first argument says whether the old pointer is \<open>NULL\<close>\<close>
  "heap_realloc was_null n h =
     (heap_grant n h,
      h\<lparr>h_alloc := tl (h_alloc h),
        h_live := h_live h + (if heap_grant n h \<and> was_null then 1 else 0)\<rparr>)"

definition heap_free :: "bool \<Rightarrow> host \<Rightarrow> host" where
  \<comment> \<open>the first argument says whether the pointer is \<open>NULL\<close>; \<open>free(NULL)\<close> does nothing\<close>
  "heap_free is_null h = (if is_null then h else h\<lparr>h_live := h_live h - 1\<rparr>)"

text \<open>\<open>fputc(c, f)\<close>: \<open>True\<close> when the call returned \<open>EOF\<close>.\<close>

definition host_fputc :: "uint8 \<Rightarrow> stream \<Rightarrow> host \<Rightarrow> bool \<times> host" where
  "host_fputc c f h =
     (case h_putfail h of
        True # fs \<Rightarrow> (True, h\<lparr>h_putfail := fs\<rparr>)
      | fs \<Rightarrow> (False, h\<lparr>h_putfail := tl fs, h_out := (h_out h)(f := h_out h f @ [c])\<rparr>))"

text \<open>\<open>read(STDIN_FILENO, &byte, 1)\<close> on the non-blocking descriptor: the byte when the call
  returned 1, \<open>None\<close> when it returned 0 or -1 (end of file, \<open>EAGAIN\<close>).\<close>

definition host_read1 :: "host \<Rightarrow> uint8 option \<times> host" where
  "host_read1 h =
     (case h_stdin h of [] \<Rightarrow> (None, h) | b # bs \<Rightarrow> (b, h\<lparr>h_stdin := bs\<rparr>))"

text \<open>\<open>fopen(path, "rb")\<close> and \<open>fclose\<close>.\<close>

definition host_fopen :: "string \<Rightarrow> host \<Rightarrow> cfile option \<times> host" where
  "host_fopen path h =
     (case h_fs h path of
        None \<Rightarrow> (None, h)
      | Some f \<Rightarrow> (Some (f\<lparr>f_pos := 0\<rparr>), h\<lparr>h_open := h_open h + 1\<rparr>))"

definition host_fclose :: "host \<Rightarrow> host" where
  "host_fclose h = h\<lparr>h_open := h_open h - 1\<rparr>"

text \<open>The growth step shared by the two registries (\<open>MemoryMap_add_device\<close>, \<open>Ticker_add\<close>):
  when the array of \<open>n\<close> elements is full its capacity becomes 4 or twice the old one and
  the array is reallocated.  The result is the new capacity, or \<open>None\<close> when \<open>realloc\<close>
  returned \<open>NULL\<close>.\<close>

definition grow_if_full :: "nat \<Rightarrow> size_t \<Rightarrow> size_t \<Rightarrow> host \<Rightarrow> size_t option \<times> host" where
  "grow_if_full n cap elem h =
     (if of_nat n = cap
      then let new_cap = (if cap = 0 then 4 else cap * 2);
               (ok, h') = heap_realloc (cap = 0) (new_cap * elem) h
           in (if ok then Some new_cap else None, h')
      else (Some cap, h))"

text \<open>The invariant of a growable array: no more elements than the capacity, and a capacity
  whose size in bytes the allocator once granted, which rules out overflow of
  \<open>new_cap * sizeof(element)\<close>.\<close>

definition cap_ok :: "nat \<Rightarrow> size_t \<Rightarrow> nat \<Rightarrow> bool" where
  "cap_ok n cap elem \<longleftrightarrow> n \<le> unat cap \<and> unat cap * elem < 2 ^ 63"

lemma heap_free_null [simp]: "heap_free True h = h"
  by (simp add: heap_free_def)

lemma host0_sel [simp]: "h_alloc host0 = []" "h_live host0 = 0" "h_stdin host0 = []"
  "h_putfail host0 = []" "h_open host0 = 0" "h_out host0 f = []"
  by (simp_all add: host0_def)

lemma calloc_refused: "h_alloc h = False # bs \<Longrightarrow> \<exists>h1. heap_calloc n h = (False, h1)"
  by (simp add: heap_calloc_def heap_grant_def)

lemma grow_if_full_ok:
  assumes cap: "cap_ok n cap e" and e: "0 < e" "e \<le> 2 ^ 32"
    and g: "grow_if_full n cap (of_nat e) h = (Some cap', h')"
  shows "cap_ok (Suc n) cap' e"
proof (cases "of_nat n = cap")
  case False
  with g have c: "cap' = cap" by (simp add: grow_if_full_def)
  have "n \<noteq> unat cap" using False by auto
  with cap c show ?thesis by (simp add: cap_ok_def)
next
  case True
  let ?c = "(if cap = 0 then 4 else cap * 2) :: size_t"
  have c: "cap' = ?c" and gr: "heap_grant (?c * of_nat e) h"
    using g True by (auto simp: grow_if_full_def heap_realloc_def Let_def split: if_splits)
  have capb: "unat cap < 2 ^ 63"
  proof -
    have "unat cap * 1 \<le> unat cap * e" using e by (intro mult_le_mono2) simp
    then show ?thesis using cap unfolding cap_ok_def by linarith
  qed
  have uc: "unat ?c = (if cap = 0 then 4 else 2 * unat cap)"
    using capb by (auto simp: unat_word_ariths unat_gt_0 mult.commute)
  have ue: "unat (of_nat e :: size_t) = e"
    using e by (simp add: unat_of_nat)
  have small: "unat ?c * e < 2 ^ 64"
    using cap e uc by (auto simp: cap_ok_def mult.commute)
  have "unat (?c * of_nat e) = unat ?c * e"
    using small by (simp add: unat_word_ariths(2) ue)
  then have lim: "unat ?c * e < 2 ^ 63" using gr by (simp add: heap_grant_def)
  have "Suc n \<le> unat ?c"
    using cap uc unat_gt_0 [of cap] by (auto simp: cap_ok_def split: if_splits)
  with lim c show ?thesis by (simp only: cap_ok_def)
qed

end
