(* ===== verification/MmioDevice.thy ===== *)
theory MmioDevice
  imports HostEnv
begin

text \<open>
  The \<open>MmioDevice\<close> trait (\<open>devices/common/include/mmio_device.h\<close>, \<open>axi_resp.h\<close> and
  \<open>mmio_device.c\<close>).  A vtable is a pair of functions over the store \<open>'s\<close> the object lives
  in; the trait pointer is a reference \<open>'d\<close>, and a map gives the vtable the object's
  \<open>vtbl\<close> field points to (\<open>None\<close> is a \<open>NULL\<close> field).  The locale \<open>mmio_device\<close> is the
  contract written in the header's comments.
\<close>

datatype axi_resp_e = AXI_RESP_OKAY | AXI_RESP_EXOKAY | AXI_RESP_SLVERR | AXI_RESP_DECERR

fun axi_resp_code :: "axi_resp_e \<Rightarrow> nat" where
  "axi_resp_code AXI_RESP_OKAY = 0"
| "axi_resp_code AXI_RESP_EXOKAY = 1"
| "axi_resp_code AXI_RESP_SLVERR = 2"
| "axi_resp_code AXI_RESP_DECERR = 3"

fun axi_resp_name :: "axi_resp_e \<Rightarrow> string" where
  "axi_resp_name AXI_RESP_OKAY = ''OKAY''"
| "axi_resp_name AXI_RESP_EXOKAY = ''EXOKAY''"
| "axi_resp_name AXI_RESP_SLVERR = ''SLVERR''"
| "axi_resp_name AXI_RESP_DECERR = ''DECERR''"

text \<open>The enumeration is ordered by its wire encoding.\<close>

instantiation axi_resp_e :: linorder
begin

definition less_eq_axi_resp_e :: "axi_resp_e \<Rightarrow> axi_resp_e \<Rightarrow> bool" where
  "less_eq_axi_resp_e a b \<longleftrightarrow> axi_resp_code a \<le> axi_resp_code b"

definition less_axi_resp_e :: "axi_resp_e \<Rightarrow> axi_resp_e \<Rightarrow> bool" where
  "less_axi_resp_e a b \<longleftrightarrow> axi_resp_code a < axi_resp_code b"

instance
proof
  fix a b c :: axi_resp_e
  show "(a < b) = (a \<le> b \<and> \<not> b \<le> a)"
    by (auto simp: less_eq_axi_resp_e_def less_axi_resp_e_def)
  show "a \<le> a" by (simp add: less_eq_axi_resp_e_def)
  show "a \<le> b \<Longrightarrow> b \<le> c \<Longrightarrow> a \<le> c" by (simp add: less_eq_axi_resp_e_def)
  show "a \<le> b \<Longrightarrow> b \<le> a \<Longrightarrow> a = b"
    by (cases a; cases b) (simp_all add: less_eq_axi_resp_e_def)
  show "a \<le> b \<or> b \<le> a" by (auto simp: less_eq_axi_resp_e_def)
qed

end

lemma axi_resp_code_inj: "axi_resp_code a = axi_resp_code b \<longleftrightarrow> a = b"
  by (cases a; cases b) simp_all

type_synonym 's mmio_read =
  "'s \<Rightarrow> addr_t \<Rightarrow> size_t \<Rightarrow> out32 \<Rightarrow> fault + (axi_resp_e \<times> out32 \<times> 's)"

type_synonym 's mmio_write =
  "'s \<Rightarrow> addr_t \<Rightarrow> size_t \<Rightarrow> uint32 \<Rightarrow> uint8 \<Rightarrow> fault + (axi_resp_e \<times> 's)"

record 's MmioDeviceVtbl =
  vt_read :: "'s mmio_read"
  vt_write :: "'s mmio_write"

text \<open>The stubs \<open>MmioDevice_ctor\<close> installs: they panic.\<close>

definition default_read :: "'s mmio_read" where
  "default_read s offset width value_out = Inl Panic"

definition default_write :: "'s mmio_write" where
  "default_write s offset width value strb = Inl Panic"

definition default_vtbl :: "'s MmioDeviceVtbl" where
  "default_vtbl = \<lparr>vt_read = default_read, vt_write = default_write\<rparr>"

text \<open>The dispatchers assert a non-\<open>NULL\<close> vtable and call through it.\<close>

definition MmioDevice_read :: "('d \<Rightarrow> 's MmioDeviceVtbl option) \<Rightarrow> 'd \<Rightarrow> 's mmio_read" where
  "MmioDevice_read vtbl self s offset width value_out =
     (case vtbl self of None \<Rightarrow> Inl Panic | Some vt \<Rightarrow> vt_read vt s offset width value_out)"

definition MmioDevice_write :: "('d \<Rightarrow> 's MmioDeviceVtbl option) \<Rightarrow> 'd \<Rightarrow> 's mmio_write" where
  "MmioDevice_write vtbl self s offset width value strb =
     (case vtbl self of None \<Rightarrow> Inl Panic | Some vt \<Rightarrow> vt_write vt s offset width value strb)"

text \<open>\<open>width \<in> {1, 2, 4}\<close>, as the devices test it.\<close>

definition axi_width :: "size_t \<Rightarrow> bool" where
  "axi_width w \<longleftrightarrow> w = 1 \<or> w = 2 \<or> w = 4"

lemma axi_width_cases: "axi_width w \<Longrightarrow> (w = 1 \<Longrightarrow> P) \<Longrightarrow> (w = 2 \<Longrightarrow> P) \<Longrightarrow> (w = 4 \<Longrightarrow> P) \<Longrightarrow> P"
  by (auto simp: axi_width_def)

text \<open>\<open>offset + width\<close> is computed at the width of \<open>size_t\<close> and does not wrap for a
  32-bit offset and a valid width.\<close>

lemma offset_sum:
  "w = 1 \<or> w = 2 \<or> w = 4 \<Longrightarrow> unat (ucast (off :: addr_t) + (w :: size_t)) = unat off + unat w"
  using unat32_lt [of off] by (auto simp: unat_word_ariths unat_ucast_32_64)

lemma axi_width_unat: "axi_width w \<Longrightarrow> unat w \<in> {1, 2, 4}"
  by (auto simp: axi_width_def)

text \<open>
  The contract of a subordinate.  \<open>inv\<close> is what its operations keep; \<open>regs\<close> is its
  software-visible state.  A call with a non-\<open>NULL\<close> result pointer returns normally; the
  response is \<open>OKAY\<close> or \<open>SLVERR\<close> (\<open>DECERR\<close> belongs to the fabric); an error zeroes the
  result and changes no register; a width other than 1, 2 or 4 and a 4-byte write whose
  strobe is not \<open>0xF\<close> are errors; a read changes no register.
\<close>

locale mmio_device =
  fixes inv :: "'s \<Rightarrow> bool"
    and regs :: "'s \<Rightarrow> 'r"
    and rd :: "'s mmio_read"
    and wr :: "'s mmio_write"
  assumes rd_total: "inv s \<Longrightarrow> \<exists>r v' s'. rd s off w (Some v) = Inr (r, Some v', s')"
    and rd_inv: "inv s \<Longrightarrow> rd s off w p = Inr (r, q, s') \<Longrightarrow> inv s' \<and> regs s' = regs s"
    and rd_resp: "inv s \<Longrightarrow> rd s off w p = Inr (r, q, s') \<Longrightarrow> r \<in> {AXI_RESP_OKAY, AXI_RESP_SLVERR}"
    and rd_err: "inv s \<Longrightarrow> rd s off w p = Inr (AXI_RESP_SLVERR, q, s') \<Longrightarrow> q = zero_out p"
    and rd_width: "inv s \<Longrightarrow> rd s off w p = Inr (AXI_RESP_OKAY, q, s') \<Longrightarrow> axi_width w"
    and wr_total: "inv s \<Longrightarrow> \<exists>r s'. wr s off w val strb = Inr (r, s')"
    and wr_inv: "inv s \<Longrightarrow> wr s off w val strb = Inr (r, s') \<Longrightarrow> inv s'"
    and wr_resp: "inv s \<Longrightarrow> wr s off w val strb = Inr (r, s') \<Longrightarrow> r \<in> {AXI_RESP_OKAY, AXI_RESP_SLVERR}"
    and wr_err: "inv s \<Longrightarrow> wr s off w val strb = Inr (AXI_RESP_SLVERR, s') \<Longrightarrow> regs s' = regs s"
    and wr_width: "inv s \<Longrightarrow> wr s off w val strb = Inr (AXI_RESP_OKAY, s') \<Longrightarrow> axi_width w"
    and wr_strb: "inv s \<Longrightarrow> wr s off 4 val strb = Inr (AXI_RESP_OKAY, s') \<Longrightarrow> strb = 0xF"
begin

lemma rd_not_DECERR: "inv s \<Longrightarrow> rd s off w p \<noteq> Inr (AXI_RESP_DECERR, q, s')"
  using rd_resp [of s off w p AXI_RESP_DECERR q s'] by auto

lemma wr_not_DECERR: "inv s \<Longrightarrow> wr s off w val strb \<noteq> Inr (AXI_RESP_DECERR, s')"
  using wr_resp [of s off w val strb AXI_RESP_DECERR s'] by auto

lemma rd_cases:
  assumes "inv s"
  obtains (okay) v' s' where "rd s off w (Some v) = Inr (AXI_RESP_OKAY, Some v', s')" "axi_width w" "inv s'"
  | (slverr) s' where "rd s off w (Some v) = Inr (AXI_RESP_SLVERR, Some 0, s')" "inv s'"
proof -
  obtain r v' s' where e: "rd s off w (Some v) = Inr (r, Some v', s')"
    using rd_total [OF assms] by blast
  then have i: "inv s'" using rd_inv [OF assms] by blast
  from e have "r = AXI_RESP_OKAY \<or> r = AXI_RESP_SLVERR" using rd_resp [OF assms] by blast
  then show thesis
  proof
    assume "r = AXI_RESP_OKAY"
    with e i show thesis using okay rd_width [OF assms] by blast
  next
    assume r: "r = AXI_RESP_SLVERR"
    with e have "Some v' = zero_out (Some v)" using rd_err [OF assms] by blast
    with e i r show thesis using slverr by simp
  qed
qed

text \<open>Observing less of the registers, and a stronger invariant that both callbacks keep, give
  the same contract.\<close>

lemma coarser: "mmio_device inv (\<lambda>s. g (regs s)) rd wr"
  by (unfold_locales; blast intro: rd_total wr_total wr_inv
      dest: rd_inv rd_resp rd_err rd_width wr_resp wr_err wr_width wr_strb intro!: arg_cong [where f = g])

lemma strengthen:
  assumes J: "\<And>s. J s \<Longrightarrow> inv s"
    and rJ: "\<And>s off w p r q s'. J s \<Longrightarrow> rd s off w p = Inr (r, q, s') \<Longrightarrow> J s'"
    and wJ: "\<And>s off w val strb r s'. J s \<Longrightarrow> wr s off w val strb = Inr (r, s') \<Longrightarrow> J s'"
  shows "mmio_device J regs rd wr"
proof (unfold_locales, goal_cases)
  case (2 s off w p r q s')
  then show ?case using rJ rd_inv J by blast
next
  case (7 s off w val strb r s')
  then show ?case by (rule wJ)
qed (blast intro: J rd_total wr_total dest: J rd_resp rd_err rd_width wr_resp wr_err wr_width wr_strb)+

end

text \<open>A device that is a part of a larger store: \<open>get\<close>/\<open>put\<close> are \<open>container_of\<close> and the
  update through the recovered pointer.\<close>

definition lift_read :: "('s \<Rightarrow> 't) \<Rightarrow> ('t \<Rightarrow> 's \<Rightarrow> 's) \<Rightarrow> 't mmio_read \<Rightarrow> 's mmio_read" where
  "lift_read get put rd s off w p =
     bind_res (rd (get s) off w p) (\<lambda>(r, q, t). Inr (r, q, put t s))"

definition lift_write :: "('s \<Rightarrow> 't) \<Rightarrow> ('t \<Rightarrow> 's \<Rightarrow> 's) \<Rightarrow> 't mmio_write \<Rightarrow> 's mmio_write" where
  "lift_write get put wr s off w v strb =
     bind_res (wr (get s) off w v strb) (\<lambda>(r, t). Inr (r, put t s))"

definition lift_vtbl :: "('s \<Rightarrow> 't) \<Rightarrow> ('t \<Rightarrow> 's \<Rightarrow> 's) \<Rightarrow> 't MmioDeviceVtbl \<Rightarrow> 's MmioDeviceVtbl" where
  "lift_vtbl get put vt = \<lparr>vt_read = lift_read get put (vt_read vt), vt_write = lift_write get put (vt_write vt)\<rparr>"

lemma lift_vtbl_sel [simp]:
  "vt_read (lift_vtbl get put vt) = lift_read get put (vt_read vt)"
  "vt_write (lift_vtbl get put vt) = lift_write get put (vt_write vt)"
  by (simp_all add: lift_vtbl_def)

lemma lift_read_Inr:
  "lift_read get put rd s off w p = Inr (r, q, s') \<longleftrightarrow>
   (\<exists>t. rd (get s) off w p = Inr (r, q, t) \<and> s' = put t s)"
  by (auto simp: lift_read_def res_simps)

lemma lift_write_Inr:
  "lift_write get put wr s off w v strb = Inr (r, s') \<longleftrightarrow>
   (\<exists>t. wr (get s) off w v strb = Inr (r, t) \<and> s' = put t s)"
  by (auto simp: lift_write_def res_simps)

text \<open>A device that keeps the contract keeps it as a part of a store whose invariant says so
  of that part and whose registers do not change when the part's do not.\<close>

locale device_part = mmio_device inv regs rd wr
  for inv :: "'t \<Rightarrow> bool" and regs :: "'t \<Rightarrow> 'r" and rd :: "'t mmio_read" and wr :: "'t mmio_write" +
  fixes get :: "'s \<Rightarrow> 't"
    and put :: "'t \<Rightarrow> 's \<Rightarrow> 's"
    and Inv :: "'s \<Rightarrow> bool"
    and Regs :: "'s \<Rightarrow> 'R"
  assumes part_inv: "Inv s \<Longrightarrow> inv (get s)"
    and put_inv: "Inv s \<Longrightarrow> inv t \<Longrightarrow> Inv (put t s)"
    and put_regs: "regs t = regs (get s) \<Longrightarrow> Regs (put t s) = Regs s"

sublocale device_part \<subseteq> whole: mmio_device Inv Regs "lift_read get put rd" "lift_write get put wr"
proof (unfold_locales, goal_cases)
  case (1 s off w v)
  then show ?case using rd_total [OF part_inv [OF 1]] by (fastforce simp: lift_read_Inr)
next
  case (2 s off w p r q s')
  then show ?case using rd_inv [OF part_inv [OF 2(1)]] put_inv put_regs by (auto simp: lift_read_Inr)
next
  case (3 s off w p r q s')
  then show ?case using rd_resp [OF part_inv [OF 3(1)]] unfolding lift_read_Inr by blast
next
  case (4 s off w p q s')
  then show ?case using rd_err [OF part_inv [OF 4(1)]] by (auto simp: lift_read_Inr)
next
  case (5 s off w p q s')
  then show ?case using rd_width [OF part_inv [OF 5(1)]] by (auto simp: lift_read_Inr)
next
  case (6 s off w val strb)
  then show ?case using wr_total [OF part_inv [OF 6]] by (fastforce simp: lift_write_Inr)
next
  case (7 s off w val strb r s')
  then show ?case using wr_inv [OF part_inv [OF 7(1)]] put_inv by (auto simp: lift_write_Inr)
next
  case (8 s off w val strb r s')
  then show ?case using wr_resp [OF part_inv [OF 8(1)]] unfolding lift_write_Inr by blast
next
  case (9 s off w val strb s')
  then show ?case using wr_err [OF part_inv [OF 9(1)]] put_regs by (auto simp: lift_write_Inr)
next
  case (10 s off w val strb s')
  then show ?case using wr_width [OF part_inv [OF 10(1)]] by (auto simp: lift_write_Inr)
next
  case (11 s off val strb s')
  then show ?case using wr_strb [OF part_inv [OF 11(1)]] by (auto simp: lift_write_Inr)
qed

end
