(* ===== verification/CMemory.thy ===== *)
theory CMemory
  imports Prelude
begin

text \<open>
  Byte arrays of the C sources (the ROM image, the DRAM backing store) with the length the
  program allocated, and the little-endian loops the devices run over them.  Reading or
  writing past the end is \<open>OutOfBounds\<close>, so that memory safety is a statement one can
  prove.  The \<open>byte_store\<close> interface collects the laws the devices rely on.
\<close>

record byte_array =
  arr_len :: nat
  arr_at :: "nat \<Rightarrow> uint8"

definition arr_get :: "byte_array \<Rightarrow> nat \<Rightarrow> fault + uint8" where
  "arr_get a i = (if i < arr_len a then Inr (arr_at a i) else Inl OutOfBounds)"

definition arr_put :: "byte_array \<Rightarrow> nat \<Rightarrow> uint8 \<Rightarrow> fault + byte_array" where
  "arr_put a i b =
     (if i < arr_len a then Inr (a\<lparr>arr_at := (arr_at a)(i := b)\<rparr>) else Inl OutOfBounds)"

definition arr_zero :: "nat \<Rightarrow> byte_array" where
  "arr_zero n = \<lparr>arr_len = n, arr_at = (\<lambda>_. 0)\<rparr>"

text \<open>The read loop of \<open>BootROM::read\<close> and \<open>DRAM::read\<close>, over the read access of the
  array: \<^verbatim>\<open>for (i = 0; i < width; i++) v |= (uint32_t)backing[offset + i] << (8u * i);\<close>\<close>

function le_read_loop ::
  "(nat \<Rightarrow> fault + uint8) \<Rightarrow> nat \<Rightarrow> nat \<Rightarrow> nat \<Rightarrow> uint32 \<Rightarrow> fault + uint32" where
  "le_read_loop get off width i v =
     (if i < width
      then bind_res (get (off + i))
             (\<lambda>b. le_read_loop get off width (Suc i) (v OR push_bit (8 * i) (ucast b)))
      else Inr v)"
  by pat_completeness auto
termination
  by (relation "measure (\<lambda>(get, off, width, i, v). width - i)") auto

text \<open>The write loop of \<open>DRAM::write\<close>: byte \<open>i\<close> is stored when bit \<open>i\<close> of \<open>strb\<close> is set.\<close>

function le_write_loop ::
  "('a \<Rightarrow> nat \<Rightarrow> uint8 \<Rightarrow> fault + 'a) \<Rightarrow> 'a \<Rightarrow> nat \<Rightarrow> nat \<Rightarrow> nat \<Rightarrow> uint32 \<Rightarrow> uint8 \<Rightarrow> fault + 'a"
where
  "le_write_loop put a off width i value strb =
     (if i < width
      then if strb AND push_bit i 1 \<noteq> 0
           then bind_res (put a (off + i) (ucast (drop_bit (8 * i) value AND 0xFF)))
                  (\<lambda>a'. le_write_loop put a' off width (Suc i) value strb)
           else le_write_loop put a off width (Suc i) value strb
      else Inr a)"
  by pat_completeness auto
termination
  by (relation "measure (\<lambda>(put, a, off, width, i, value, strb). width - i)") auto

declare le_read_loop.simps [simp del] le_write_loop.simps [simp del]

lemma arr_get_Inr [res_simps]: "arr_get a i = Inr b \<longleftrightarrow> i < arr_len a \<and> b = arr_at a i"
  by (auto simp: arr_get_def)

lemma arr_put_Inr [res_simps]:
  "arr_put a i b = Inr a' \<longleftrightarrow> i < arr_len a \<and> a' = a\<lparr>arr_at := (arr_at a)(i := b)\<rparr>"
  by (auto simp: arr_put_def)

lemma arr_zero_sel [simp]: "arr_len (arr_zero n) = n" "arr_at (arr_zero n) i = 0"
  by (simp_all add: arr_zero_def)

lemma strb_bit: "(s :: uint8) AND push_bit i 1 \<noteq> 0 \<longleftrightarrow> bit s i"
  by (metis and_exp_eq_0_iff_not_bit push_bit_of_1)

lemma le_byte_mask: "ucast (drop_bit (8 * i) v AND 0xFF) = le_byte v i"
proof -
  have m: "(0xFF :: uint32) = mask 8" by (simp add: mask_eq_exp_minus_1)
  show ?thesis unfolding m by (rule bit_eqI) (auto simp: le_byte_def bit_simps)
qed

text \<open>The value of \<open>n\<close> bytes from a position on, little endian.\<close>

definition le_value :: "(nat \<Rightarrow> uint8) \<Rightarrow> nat \<Rightarrow> nat \<Rightarrow> uint32" where
  "le_value at off n = foldl (OR) 0 (map (\<lambda>i. push_bit (8 * i) (ucast (at (off + i)))) [0..<n])"

lemma le_value_widths:
  "le_value at off 1 = ucast (at off)"
  "le_value at off 2 = ucast (at off) OR push_bit 8 (ucast (at (off + 1)))"
  "le_value at off 4 = le_word (at off) (at (off + 1)) (at (off + 2)) (at (off + 3))"
  by (simp_all add: le_value_def le_word_def upt_rec or.assoc numeral_3_eq_3)

lemma le_value_cong: "(\<And>i. i < n \<Longrightarrow> at (off + i) = at' (off' + i)) \<Longrightarrow> le_value at off n = le_value at' off' n"
  unfolding le_value_def by (intro arg_cong [where f = "foldl (OR) 0"] map_cong) auto

text \<open>Reading back the bytes of a word gives the word, cut to the width.\<close>

lemma le_value_bytes:
  assumes "n \<in> {1, 2, 4}" "\<And>i. i < n \<Longrightarrow> at (off + i) = le_byte v i"
  shows "le_value at off n = take_bit (8 * n) v"
proof -
  have b: "i < n \<Longrightarrow> at (off + i) = le_byte v i" for i using assms(2) .
  consider "n = 1" | "n = 2" | "n = 4" using assms(1) by blast
  then show ?thesis
  proof cases
    case 1
    then show ?thesis using b [of 0] unfolding 1 le_value_widths
      by (intro bit_eqI) (auto simp: le_byte_def bit_simps)
  next
    case 2
    then show ?thesis using b [of 0] b [of 1] unfolding 2 le_value_widths
      by (intro bit_eqI) (auto simp: le_byte_def bit_simps)
  next
    case 3
    then show ?thesis using b [of 0] b [of 1] b [of 2] b [of 3] unfolding 3 le_value_widths
      using le_word_le_byte [of v] by (simp add: take_bit_word_eq_self)
  qed
qed

text \<open>The bytes after a strobed write of \<open>n\<close> bytes at a position.\<close>

definition strobed :: "(nat \<Rightarrow> uint8) \<Rightarrow> nat \<Rightarrow> nat \<Rightarrow> uint32 \<Rightarrow> uint8 \<Rightarrow> nat \<Rightarrow> uint8" where
  "strobed at off n v s j =
     (if off \<le> j \<and> j < off + n \<and> bit s (j - off) then le_byte v (j - off) else at j)"

lemma le_value_strobed:
  assumes "n \<in> {1, 2, 4}" "\<And>i. i < n \<Longrightarrow> bit s i"
  shows "le_value (strobed at off n v s) off n = take_bit (8 * n) v"
  using assms by (intro le_value_bytes) (auto simp: strobed_def)

lemma le_value_strobed_other:
  "off' + n' \<le> off \<or> off + n \<le> off' \<Longrightarrow> le_value (strobed at off n v s) off' n' = le_value at off' n'"
  by (intro le_value_cong) (auto simp: strobed_def)

text \<open>The interface: a store of bytes of a fixed size, read and written one byte at a
  time.  Both loops are then determined by the bytes in range.\<close>

locale byte_store =
  fixes get :: "'a \<Rightarrow> nat \<Rightarrow> fault + uint8"
    and put :: "'a \<Rightarrow> nat \<Rightarrow> uint8 \<Rightarrow> fault + 'a"
    and len :: "'a \<Rightarrow> nat"
    and at :: "'a \<Rightarrow> nat \<Rightarrow> uint8"
  assumes get_in: "i < len a \<Longrightarrow> get a i = Inr (at a i)"
    and get_out: "\<not> i < len a \<Longrightarrow> get a i = Inl OutOfBounds"
    and put_in: "i < len a \<Longrightarrow> \<exists>a'. put a i b = Inr a'"
    and put_out: "\<not> i < len a \<Longrightarrow> put a i b = Inl OutOfBounds"
    and put_at: "put a i b = Inr a' \<Longrightarrow> at a' j = (if j = i then b else at a j)"
    and put_len: "put a i b = Inr a' \<Longrightarrow> len a' = len a"
begin

lemma get_put_same: "put a i b = Inr a' \<Longrightarrow> get a' i = Inr b"
  by (metis get_in put_at put_len put_out sum.distinct(1))

lemma get_put_other: "put a i b = Inr a' \<Longrightarrow> j \<noteq> i \<Longrightarrow> get a' j = get a j"
  by (metis get_in get_out put_at put_len)

lemma put_fault_iff: "(\<exists>e. put a i b = Inl e) \<longleftrightarrow> \<not> i < len a"
  by (metis put_in put_out sum.distinct(1))

text \<open>The loops in closed form, for any store that obeys the laws.\<close>

lemma read_loop_in:
  "off + n \<le> len a \<Longrightarrow>
   le_read_loop (get a) off n i v =
     Inr (foldl (OR) v (map (\<lambda>k. push_bit (8 * k) (ucast (at a (off + k)))) [i..<n]))"
proof (induction "get a" off n i v rule: le_read_loop.induct)
  case (1 off n i v)
  then show ?case
    by (cases "i < n") (auto simp: le_read_loop.simps [of "get a" off n i] get_in upt_conv_Cons)
qed

lemma read_loop_value: "off + n \<le> len a \<Longrightarrow> le_read_loop (get a) off n 0 0 = Inr (le_value (at a) off n)"
  by (simp add: read_loop_in le_value_def)

lemma write_loop_step:
  assumes "off + n \<le> len a"
  shows "\<exists>a'. le_write_loop put a off n i v s = Inr a' \<and> len a' = len a \<and>
     (\<forall>j. at a' j =
        (if off + i \<le> j \<and> j < off + n \<and> bit s (j - off) then le_byte v (j - off) else at a j))"
  using assms
proof (induction "n - i" arbitrary: a i)
  case 0
  then show ?case by (auto simp: le_write_loop.simps [of put a off n i])
next
  case (Suc d)
  then have i: "i < n" and d: "d = n - Suc i" by auto
  have range: "off + i \<le> j \<and> j < off + n \<and> P \<longleftrightarrow>
      j = off + i \<and> P \<or> off + Suc i \<le> j \<and> j < off + n \<and> P" for j P
    using i by auto
  have unf: "le_write_loop put a off n i v s =
      (if bit s i then bind_res (put a (off + i) (le_byte v i)) (\<lambda>a'. le_write_loop put a' off n (Suc i) v s)
       else le_write_loop put a off n (Suc i) v s)"
    using i by (subst le_write_loop.simps) (simp only: strb_bit le_byte_mask if_True)
  show ?case
  proof (cases "bit s i")
    case False
    obtain a' where a': "le_write_loop put a off n (Suc i) v s = Inr a'" "len a' = len a"
      "\<forall>j. at a' j = (if off + Suc i \<le> j \<and> j < off + n \<and> bit s (j - off)
                     then le_byte v (j - off) else at a j)"
      using Suc.hyps(1) [OF d Suc.prems] by blast
    show ?thesis
      using a' False unfolding unf range by (intro exI [of _ a']) auto
  next
    case True
    obtain a1 where a1: "put a (off + i) (le_byte v i) = Inr a1"
      using put_in [of "off + i" a] Suc.prems i by fastforce
    with Suc.prems have "off + n \<le> len a1" by (simp add: put_len)
    from Suc.hyps(1) [OF d this] obtain a' where a': "le_write_loop put a1 off n (Suc i) v s = Inr a'"
      "len a' = len a1"
      "\<forall>j. at a' j = (if off + Suc i \<le> j \<and> j < off + n \<and> bit s (j - off)
                     then le_byte v (j - off) else at a1 j)"
      by blast
    show ?thesis
      using a' a1 True put_at [OF a1] put_len [OF a1] unfolding unf range
      by (intro exI [of _ a']) auto
  qed
qed

lemma write_loop_strobed:
  assumes "off + n \<le> len a"
  shows "\<exists>a'. le_write_loop put a off n 0 v s = Inr a' \<and> len a' = len a \<and> at a' = strobed (at a) off n v s"
  using write_loop_step [OF assms, of 0 v s] by (auto simp: strobed_def fun_eq_iff)

end

interpretation arr: byte_store arr_get arr_put arr_len arr_at
  by unfold_locales (auto simp: arr_get_def arr_put_def split: if_splits)

end
