(* ===== verification/Dev_BootROM.thy ===== *)
theory Dev_BootROM
  imports MmioDevice CMemory
begin

text \<open>
  The boot ROM (\<open>devices/boot_rom\<close>): a 4 KiB read-only byte array whose first eight bytes
  hold the two instructions that jump to DRAM.
\<close>

definition BOOT_ROM_SIZE :: uint32 where "BOOT_ROM_SIZE = 0x1000"
definition BOOT_ROM_STUB_W0 :: uint32 where "BOOT_ROM_STUB_W0 = 0x800000B7"
definition BOOT_ROM_STUB_W1 :: uint32 where "BOOT_ROM_STUB_W1 = 0x00008067"

record BootROM =
  rom :: byte_array

text \<open>\<open>store_le32\<close>: the four bytes at \<open>dst\<close>, each masked, in little-endian order.\<close>

definition store_le32 :: "byte_array \<Rightarrow> nat \<Rightarrow> uint32 \<Rightarrow> fault + byte_array" where
  "store_le32 a dst value =
     bind_res (arr_put a (dst + 0) (ucast (drop_bit 0 value AND 0xFF))) (\<lambda>a.
     bind_res (arr_put a (dst + 1) (ucast (drop_bit 8 value AND 0xFF))) (\<lambda>a.
     bind_res (arr_put a (dst + 2) (ucast (drop_bit 16 value AND 0xFF))) (\<lambda>a.
     arr_put a (dst + 3) (ucast (drop_bit 24 value AND 0xFF)))))"

definition BootROM_MmioDevice_read :: "BootROM mmio_read" where
  "BootROM_MmioDevice_read self offset width value_out =
     (if width \<noteq> 1 \<and> width \<noteq> 2 \<and> width \<noteq> 4 then Inr (AXI_RESP_SLVERR, zero_out value_out, self)
      else if ucast offset + width > ucast BOOT_ROM_SIZE
      then Inr (AXI_RESP_SLVERR, zero_out value_out, self)
      else bind_res (le_read_loop (arr_get (rom self)) (unat offset) (unat width) 0 0) (\<lambda>v.
           bind_res (store_out value_out v) (\<lambda>q.
           Inr (AXI_RESP_OKAY, q, self))))"

definition BootROM_MmioDevice_write :: "BootROM mmio_write" where
  "BootROM_MmioDevice_write self offset width value strb = Inr (AXI_RESP_SLVERR, self)"

definition BootROM_ctor :: "fault + BootROM" where
  "BootROM_ctor =
     bind_res (store_le32 (arr_zero (unat BOOT_ROM_SIZE)) 0 BOOT_ROM_STUB_W0) (\<lambda>a.
     bind_res (store_le32 a 4 BOOT_ROM_STUB_W1) (\<lambda>a.
     Inr \<lparr>rom = a\<rparr>))"

definition BootROM_vtbl :: "BootROM MmioDeviceVtbl" where
  "BootROM_vtbl = \<lparr>vt_read = BootROM_MmioDevice_read, vt_write = BootROM_MmioDevice_write\<rparr>"

text \<open>The content after construction, byte by byte.\<close>

definition boot_image :: "nat \<Rightarrow> uint8" where
  "boot_image i =
     (if i < 4 then le_byte BOOT_ROM_STUB_W0 i
      else if i < 8 then le_byte BOOT_ROM_STUB_W1 (i - 4) else 0)"

definition rom_inv :: "BootROM \<Rightarrow> bool" where
  "rom_inv r \<longleftrightarrow> arr_len (rom r) = 4096"

lemma store_le32_in:
  "dst + 4 \<le> arr_len a \<Longrightarrow>
   store_le32 a dst v = Inr (a\<lparr>arr_at := \<lambda>j. if dst \<le> j \<and> j < dst + 4 then le_byte v (j - dst) else arr_at a j\<rparr>)"
  using le_byte_mask [of 0 v] le_byte_mask [of 1 v] le_byte_mask [of 2 v] le_byte_mask [of 3 v]
  by (auto simp: store_le32_def arr_put_def fun_eq_iff numeral_2_eq_2 numeral_3_eq_3 less_Suc_eq_le
      intro!: arg_cong [where f = "\<lambda>x. arr_at_update x a"])

lemma BootROM_ctor_image:
  "BootROM_ctor = Inr \<lparr>rom = \<lparr>arr_len = 4096, arr_at = boot_image\<rparr>\<rparr>"
  by (simp add: BootROM_ctor_def store_le32_in BOOT_ROM_SIZE_def arr_zero_def)
    (auto simp: boot_image_def fun_eq_iff)

lemma rom_read_okay:
  assumes "rom_inv r" "axi_width w" "unat off + unat w \<le> 4096"
  shows "BootROM_MmioDevice_read r off w (Some v) =
           Inr (AXI_RESP_OKAY, Some (le_value (arr_at (rom r)) (unat off) (unat w)), r)"
  using assms offset_sum [of w off]
  by (auto simp: BootROM_MmioDevice_read_def axi_width_def rom_inv_def BOOT_ROM_SIZE_def
      word_less_nat_alt arr.read_loop_value)

lemma rom_read_slverr:
  assumes "\<not> (axi_width w \<and> unat off + unat w \<le> 4096)"
  shows "BootROM_MmioDevice_read r off w p = Inr (AXI_RESP_SLVERR, zero_out p, r)"
  using assms offset_sum [of w off]
  by (auto simp: BootROM_MmioDevice_read_def axi_width_def BOOT_ROM_SIZE_def word_less_nat_alt)

lemma rom_read_null:
  assumes "rom_inv r" "axi_width w" "unat off + unat w \<le> 4096"
  shows "BootROM_MmioDevice_read r off w None = Inl NullDeref"
  using assms offset_sum [of w off]
  by (auto simp: BootROM_MmioDevice_read_def axi_width_def rom_inv_def BOOT_ROM_SIZE_def
      word_less_nat_alt arr.read_loop_value)

lemma rom_read_cases:
  assumes "rom_inv s" "BootROM_MmioDevice_read s off w p = Inr (r, q, s')"
  shows "s' = s \<and> (r = AXI_RESP_OKAY \<and> axi_width w \<or> r = AXI_RESP_SLVERR \<and> q = zero_out p)"
  using assms rom_read_okay [of s w off] rom_read_slverr [of w off s p] rom_read_null [of s w off]
  by (cases p; cases "axi_width w \<and> unat off + unat w \<le> 4096") auto

lemma rom_read_total:
  "rom_inv s \<Longrightarrow> \<exists>r v' s'. BootROM_MmioDevice_read s off w (Some v) = Inr (r, Some v', s')"
  by (cases "axi_width w \<and> unat off + unat w \<le> 4096") (auto simp: rom_read_okay rom_read_slverr)

interpretation rom_dev: mmio_device rom_inv "\<lambda>r. r" BootROM_MmioDevice_read BootROM_MmioDevice_write
  by unfold_locales (auto simp: BootROM_MmioDevice_write_def rom_read_total dest: rom_read_cases)

end
