(* ===== verification/Dev_Clint.thy ===== *)
theory Dev_Clint
  imports MmioDevice
begin

text \<open>
  The core-local interruptor (\<open>devices/clint\<close>): the software-interrupt bit, the free-running
  64-bit counter and the 64-bit compare register, each half accessible as a 32-bit word.
  \<open>mtime\<close> and \<open>mtimecmp\<close> are kept as 64-bit words; the abstract view of a pair of registers
  is their concatenation.
\<close>

definition CLINT_SIZE :: uint32 where "CLINT_SIZE = 0x10000"
definition CLINT_OFFSET_MSIP :: uint32 where "CLINT_OFFSET_MSIP = 0x0000"
definition CLINT_OFFSET_MTIMECMP_LO :: uint32 where "CLINT_OFFSET_MTIMECMP_LO = 0x4000"
definition CLINT_OFFSET_MTIMECMP_HI :: uint32 where "CLINT_OFFSET_MTIMECMP_HI = 0x4004"
definition CLINT_OFFSET_MTIME_LO :: uint32 where "CLINT_OFFSET_MTIME_LO = 0xBFF8"
definition CLINT_OFFSET_MTIME_HI :: uint32 where "CLINT_OFFSET_MTIME_HI = 0xBFFC"
definition CLINT_MSIP_MASK :: uint32 where "CLINT_MSIP_MASK = 0x1"

lemmas clint_offsets = CLINT_OFFSET_MSIP_def CLINT_OFFSET_MTIMECMP_LO_def
  CLINT_OFFSET_MTIMECMP_HI_def CLINT_OFFSET_MTIME_LO_def CLINT_OFFSET_MTIME_HI_def

record Clint =
  msip :: uint32
  mtime :: uint64
  mtimecmp :: uint64

definition mtime_lo :: "Clint \<Rightarrow> uint32" where
  "mtime_lo self = ucast (mtime self AND 0xFFFFFFFF)"
definition mtime_hi :: "Clint \<Rightarrow> uint32" where
  "mtime_hi self = ucast (drop_bit 32 (mtime self))"
definition mtimecmp_lo :: "Clint \<Rightarrow> uint32" where
  "mtimecmp_lo self = ucast (mtimecmp self AND 0xFFFFFFFF)"
definition mtimecmp_hi :: "Clint \<Rightarrow> uint32" where
  "mtimecmp_hi self = ucast (drop_bit 32 (mtimecmp self))"

definition set_mtime_lo :: "Clint \<Rightarrow> uint32 \<Rightarrow> Clint" where
  "set_mtime_lo self v = self\<lparr>mtime := (mtime self AND 0xFFFFFFFF00000000) OR ucast v\<rparr>"
definition set_mtime_hi :: "Clint \<Rightarrow> uint32 \<Rightarrow> Clint" where
  "set_mtime_hi self v =
     self\<lparr>mtime := (mtime self AND 0x00000000FFFFFFFF) OR push_bit 32 (ucast v)\<rparr>"
definition set_mtimecmp_lo :: "Clint \<Rightarrow> uint32 \<Rightarrow> Clint" where
  "set_mtimecmp_lo self v = self\<lparr>mtimecmp := (mtimecmp self AND 0xFFFFFFFF00000000) OR ucast v\<rparr>"
definition set_mtimecmp_hi :: "Clint \<Rightarrow> uint32 \<Rightarrow> Clint" where
  "set_mtimecmp_hi self v =
     self\<lparr>mtimecmp := (mtimecmp self AND 0x00000000FFFFFFFF) OR push_bit 32 (ucast v)\<rparr>"

definition Clint_MmioDevice_read :: "Clint mmio_read" where
  "Clint_MmioDevice_read self offset width value_out =
     (let okay = (\<lambda>v. bind_res (store_out value_out v) (\<lambda>q. Inr (AXI_RESP_OKAY, q, self)))
      in if width \<noteq> 4 \<or> offset AND 3 \<noteq> 0 then Inr (AXI_RESP_SLVERR, zero_out value_out, self)
         else if offset = CLINT_OFFSET_MSIP then okay (msip self AND CLINT_MSIP_MASK)
         else if offset = CLINT_OFFSET_MTIMECMP_LO then okay (mtimecmp_lo self)
         else if offset = CLINT_OFFSET_MTIMECMP_HI then okay (mtimecmp_hi self)
         else if offset = CLINT_OFFSET_MTIME_LO then okay (mtime_lo self)
         else if offset = CLINT_OFFSET_MTIME_HI then okay (mtime_hi self)
         else Inr (AXI_RESP_SLVERR, zero_out value_out, self))"

definition Clint_MmioDevice_write :: "Clint mmio_write" where
  "Clint_MmioDevice_write self offset width value strb =
     (if width \<noteq> 4 \<or> strb \<noteq> 0xF \<or> offset AND 3 \<noteq> 0 then Inr (AXI_RESP_SLVERR, self)
      else if offset = CLINT_OFFSET_MSIP
        then Inr (AXI_RESP_OKAY, self\<lparr>msip := value AND CLINT_MSIP_MASK\<rparr>)
      else if offset = CLINT_OFFSET_MTIMECMP_LO then Inr (AXI_RESP_OKAY, set_mtimecmp_lo self value)
      else if offset = CLINT_OFFSET_MTIMECMP_HI then Inr (AXI_RESP_OKAY, set_mtimecmp_hi self value)
      else if offset = CLINT_OFFSET_MTIME_LO then Inr (AXI_RESP_OKAY, set_mtime_lo self value)
      else if offset = CLINT_OFFSET_MTIME_HI then Inr (AXI_RESP_OKAY, set_mtime_hi self value)
      else Inr (AXI_RESP_SLVERR, self))"

definition Clint_vtbl :: "Clint MmioDeviceVtbl" where
  "Clint_vtbl = \<lparr>vt_read = Clint_MmioDevice_read, vt_write = Clint_MmioDevice_write\<rparr>"

definition Clint_Tickable_tick :: "Clint \<Rightarrow> Clint" where
  "Clint_Tickable_tick self = self\<lparr>mtime := mtime self + 1\<rparr>"

definition Clint_ctor :: Clint where
  "Clint_ctor = \<lparr>msip = 0, mtime = 0, mtimecmp = 0xFFFFFFFFFFFFFFFF\<rparr>"

definition Clint_msip :: "Clint \<Rightarrow> bool" where
  "Clint_msip self \<longleftrightarrow> msip self AND CLINT_MSIP_MASK \<noteq> 0"

definition Clint_mtip :: "Clint \<Rightarrow> bool" where
  "Clint_mtip self \<longleftrightarrow> mtime self \<ge> mtimecmp self"

text \<open>Only bit 0 of \<open>msip\<close> can be set.\<close>

definition clint_inv :: "Clint \<Rightarrow> bool" where
  "clint_inv c \<longleftrightarrow> msip c AND CLINT_MSIP_MASK = msip c"

text \<open>A 64-bit word from its halves.\<close>

definition word64 :: "uint32 \<Rightarrow> uint32 \<Rightarrow> uint64" where
  "word64 hi lo = push_bit 32 (ucast hi) OR ucast lo"

lemma mask32_lo: "(0xFFFFFFFF :: uint64) = mask 32"
  by (simp add: mask_eq_exp_minus_1)

lemma mask32_hi: "(0xFFFFFFFF00000000 :: uint64) = push_bit 32 (mask 32)"
  by (simp add: mask_eq_exp_minus_1 push_bit_eq_mult)

lemma halves [simp]:
  "ucast (word64 h l AND 0xFFFFFFFF) = l" "ucast (drop_bit 32 (word64 h l)) = h"
  unfolding mask32_lo
  by (rule bit_eqI; auto simp: word64_def bit_simps dest: bit_imp_le_length)+

lemma low_half: "(ucast (w AND 0xFFFFFFFF :: uint64) :: uint32) = ucast w"
  unfolding mask32_lo by (rule bit_eqI) (auto simp: bit_simps)

lemma set_halves:
  "(word64 h l AND 0xFFFFFFFF00000000) OR ucast v = word64 h v"
  "(word64 h l AND 0x00000000FFFFFFFF) OR push_bit 32 (ucast v) = word64 v l"
  unfolding mask32_lo mask32_hi
  by (rule bit_eqI; auto simp: word64_def bit_simps dest: bit_imp_le_length)+

lemma word64_surj: "\<exists>h l. w = word64 h l"
proof (intro exI)
  show "w = word64 (ucast (drop_bit 32 w)) (ucast w)"
    by (rule bit_eqI) (auto simp: word64_def bit_simps)
qed

text \<open>The register file software sees: the value at each live offset.\<close>

definition clint_reg :: "Clint \<Rightarrow> addr_t \<Rightarrow> uint32 option" where
  "clint_reg c off =
     (if off = CLINT_OFFSET_MSIP then Some (msip c AND CLINT_MSIP_MASK)
      else if off = CLINT_OFFSET_MTIMECMP_LO then Some (mtimecmp_lo c)
      else if off = CLINT_OFFSET_MTIMECMP_HI then Some (mtimecmp_hi c)
      else if off = CLINT_OFFSET_MTIME_LO then Some (mtime_lo c)
      else if off = CLINT_OFFSET_MTIME_HI then Some (mtime_hi c)
      else None)"

lemma clint_read_reg:
  "Clint_MmioDevice_read c off w (Some v) =
     (case (if w = 4 then clint_reg c off else None) of
        Some x \<Rightarrow> Inr (AXI_RESP_OKAY, Some x, c)
      | None \<Rightarrow> Inr (AXI_RESP_SLVERR, Some 0, c))"
  by (auto simp: Clint_MmioDevice_read_def clint_reg_def clint_offsets)

lemma clint_read_cases:
  "Clint_MmioDevice_read s off w p = Inr (r, q, s') \<Longrightarrow>
   s' = s \<and> (r = AXI_RESP_OKAY \<and> axi_width w \<or> r = AXI_RESP_SLVERR \<and> q = zero_out p)"
  by (cases p) (auto simp: Clint_MmioDevice_read_def axi_width_def Let_def split: if_splits)

lemma clint_write_cases:
  obtains (okay) c' where "Clint_MmioDevice_write c off w v strb = Inr (AXI_RESP_OKAY, c')"
    "w = 4" "strb = 0xF" "clint_reg c off \<noteq> None"
    "\<And>o'. clint_reg c' o' =
       (if o' = off then Some (if off = CLINT_OFFSET_MSIP then v AND CLINT_MSIP_MASK else v) else clint_reg c o')"
    "clint_inv c \<Longrightarrow> clint_inv c'"
  | (slverr) "Clint_MmioDevice_write c off w v strb = Inr (AXI_RESP_SLVERR, c)"
    "w \<noteq> 4 \<or> strb \<noteq> 0xF \<or> clint_reg c off = None"
proof (cases "w = 4 \<and> strb = 0xF \<and> clint_reg c off \<noteq> None")
  case False
  then show thesis
    by (intro slverr) (auto simp: Clint_MmioDevice_write_def clint_reg_def clint_offsets split: if_splits)
next
  case True
  obtain th tl where t: "mtime c = word64 th tl" using word64_surj by blast
  obtain ch cl where m: "mtimecmp c = word64 ch cl" using word64_surj by blast
  obtain c' where c': "Clint_MmioDevice_write c off w v strb = Inr (AXI_RESP_OKAY, c')"
    using True by (auto simp: Clint_MmioDevice_write_def clint_reg_def clint_offsets split: if_splits)
  show thesis
  proof (rule okay [OF c'])
    show "clint_reg c' o' =
       (if o' = off then Some (if off = CLINT_OFFSET_MSIP then v AND CLINT_MSIP_MASK else v) else clint_reg c o')" for o'
      using c' True t m
      by (auto simp: Clint_MmioDevice_write_def clint_reg_def clint_offsets set_mtime_lo_def set_mtime_hi_def
          set_mtimecmp_lo_def set_mtimecmp_hi_def mtime_lo_def mtime_hi_def mtimecmp_lo_def mtimecmp_hi_def
          set_halves and.assoc split: if_splits)
    show "clint_inv c'" if "clint_inv c"
      using c' that
      by (auto simp: Clint_MmioDevice_write_def clint_inv_def set_mtime_lo_def set_mtime_hi_def
          set_mtimecmp_lo_def set_mtimecmp_hi_def and.assoc split: if_splits)
  qed (use True in auto)
qed

lemma clint_write_tuple:
  assumes "Clint_MmioDevice_write c off w v strb = Inr (r, c')"
  shows "r = AXI_RESP_OKAY \<and> w = 4 \<and> strb = 0xF \<and> (clint_inv c \<longrightarrow> clint_inv c') \<or>
    r = AXI_RESP_SLVERR \<and> c' = c"
  using assms by (cases rule: clint_write_cases [of c off w v strb]) auto

interpretation clint_dev: mmio_device clint_inv "\<lambda>c. c" Clint_MmioDevice_read Clint_MmioDevice_write
proof (unfold_locales, goal_cases)
  case (1 s off w v)
  then show ?case by (auto simp: clint_read_reg split: option.splits)
next
  case (6 s off w val strb)
  then show ?case by (cases rule: clint_write_cases [of s off w val strb]) auto
qed (auto dest: clint_read_cases clint_write_tuple simp: axi_width_def)

subsection \<open>Time\<close>

lemma clint_ticks:
  "(Clint_Tickable_tick ^^ n) c = c\<lparr>mtime := mtime c + of_nat n\<rparr>"
  by (induction n) (simp_all add: Clint_Tickable_tick_def algebra_simps)

lemma clint_inv_ctor: "clint_inv Clint_ctor"
  by (simp add: clint_inv_def Clint_ctor_def)

lemma clint_inv_tick [simp]: "clint_inv (Clint_Tickable_tick c) = clint_inv c"
  by (simp add: clint_inv_def Clint_Tickable_tick_def)

lemma clint_mtip_after:
  assumes "unat (mtime c) + n < 2 ^ 64"
  shows "Clint_mtip ((Clint_Tickable_tick ^^ n) c) \<longleftrightarrow> unat (mtimecmp c) \<le> unat (mtime c) + n"
proof -
  have "unat (of_nat n :: uint64) = n"
    using assms by (simp add: unat_of_nat)
  then have "unat (mtime c + of_nat n) = unat (mtime c) + n"
    using assms by (simp add: unat_word_ariths)
  then show ?thesis by (simp add: Clint_mtip_def clint_ticks word_le_nat_alt)
qed

end
