(* ===== verification/Dev_IrqAgg.thy ===== *)
theory Dev_IrqAgg
  imports MmioDevice
begin

text \<open>
  The interrupt aggregator (\<open>devices/irq_agg\<close>): an edge input latched into a sticky pending
  bit at each tick, cleared by writing one to it, masked by an enable register.  The
  invariant says that reserved bits are never stored.
\<close>

definition IRQ_AGG_SIZE :: uint32 where "IRQ_AGG_SIZE = 0x1000"
definition IRQ_AGG_OFFSET_PENDING :: uint32 where "IRQ_AGG_OFFSET_PENDING = 0x0"
definition IRQ_AGG_OFFSET_ENABLE :: uint32 where "IRQ_AGG_OFFSET_ENABLE = 0x4"
definition IRQ_AGG_BIT_UART_RX :: nat where "IRQ_AGG_BIT_UART_RX = 0"
definition IRQ_AGG_VALID_MASK :: uint32 where "IRQ_AGG_VALID_MASK = 0x1"

lemmas irq_consts = IRQ_AGG_OFFSET_PENDING_def IRQ_AGG_OFFSET_ENABLE_def
  IRQ_AGG_BIT_UART_RX_def IRQ_AGG_VALID_MASK_def

record IrqAgg =
  pending :: uint32
  enable :: uint32
  uart_rx_edge :: bool

definition IrqAgg_MmioDevice_read :: "IrqAgg mmio_read" where
  "IrqAgg_MmioDevice_read self offset width value_out =
     (if width \<noteq> 4 \<or> offset AND 3 \<noteq> 0 then Inr (AXI_RESP_SLVERR, zero_out value_out, self)
      else if offset = IRQ_AGG_OFFSET_PENDING
        then bind_res (store_out value_out (pending self AND IRQ_AGG_VALID_MASK))
               (\<lambda>q. Inr (AXI_RESP_OKAY, q, self))
      else if offset = IRQ_AGG_OFFSET_ENABLE
        then bind_res (store_out value_out (enable self AND IRQ_AGG_VALID_MASK))
               (\<lambda>q. Inr (AXI_RESP_OKAY, q, self))
      else Inr (AXI_RESP_SLVERR, zero_out value_out, self))"

definition IrqAgg_MmioDevice_write :: "IrqAgg mmio_write" where
  "IrqAgg_MmioDevice_write self offset width value strb =
     (if width \<noteq> 4 \<or> strb \<noteq> 0xF \<or> offset AND 3 \<noteq> 0 then Inr (AXI_RESP_SLVERR, self)
      else if offset = IRQ_AGG_OFFSET_PENDING
        then Inr (AXI_RESP_OKAY,
               self\<lparr>pending := pending self AND NOT (value AND IRQ_AGG_VALID_MASK)\<rparr>)
      else if offset = IRQ_AGG_OFFSET_ENABLE
        then Inr (AXI_RESP_OKAY, self\<lparr>enable := value AND IRQ_AGG_VALID_MASK\<rparr>)
      else Inr (AXI_RESP_SLVERR, self))"

definition IrqAgg_vtbl :: "IrqAgg MmioDeviceVtbl" where
  "IrqAgg_vtbl = \<lparr>vt_read = IrqAgg_MmioDevice_read, vt_write = IrqAgg_MmioDevice_write\<rparr>"

definition IrqAgg_Tickable_tick :: "IrqAgg \<Rightarrow> IrqAgg" where
  "IrqAgg_Tickable_tick self =
     (let self = (if uart_rx_edge self
                  then self\<lparr>pending := pending self OR push_bit IRQ_AGG_BIT_UART_RX 1\<rparr> else self)
      in self\<lparr>uart_rx_edge := False\<rparr>)"

definition IrqAgg_ctor :: IrqAgg where
  "IrqAgg_ctor = \<lparr>pending = 0, enable = 0, uart_rx_edge = False\<rparr>"

definition IrqAgg_meip :: "IrqAgg \<Rightarrow> bool" where
  "IrqAgg_meip self \<longleftrightarrow> pending self AND enable self AND IRQ_AGG_VALID_MASK \<noteq> 0"

definition IrqAgg_set_uart_rx_edge :: "IrqAgg \<Rightarrow> bool \<Rightarrow> IrqAgg" where
  "IrqAgg_set_uart_rx_edge self e = self\<lparr>uart_rx_edge := e\<rparr>"

definition irq_inv :: "IrqAgg \<Rightarrow> bool" where
  "irq_inv a \<longleftrightarrow> pending a \<in> {0, 1} \<and> enable a \<in> {0, 1}"

lemma and_1_cases: "(w :: uint32) AND 1 = 0 \<or> w AND 1 = 1"
  by (simp add: and_one_eq mod_2_eq_odd)

text \<open>Write-1-to-clear of a one-bit field.\<close>

lemma w1c:
  "p \<in> {0, 1} \<Longrightarrow> p AND NOT (v AND 1 :: uint32) = (if v AND 1 = 0 then p else 0)"
  using and_1_cases [of v] by (auto simp del: bit.de_Morgan_conj)

lemma irq_inv_ctor: "irq_inv IrqAgg_ctor"
  by (simp add: irq_inv_def IrqAgg_ctor_def)

lemma irq_inv_tick: "irq_inv a \<Longrightarrow> irq_inv (IrqAgg_Tickable_tick a)"
  by (auto simp: irq_inv_def IrqAgg_Tickable_tick_def irq_consts)

lemma irq_inv_edge [simp]: "irq_inv (IrqAgg_set_uart_rx_edge a e) = irq_inv a"
  by (simp add: irq_inv_def IrqAgg_set_uart_rx_edge_def)

lemma irq_read_cases:
  "IrqAgg_MmioDevice_read s off w p = Inr (r, q, s') \<Longrightarrow>
   s' = s \<and> (r = AXI_RESP_OKAY \<and> axi_width w \<or> r = AXI_RESP_SLVERR \<and> q = zero_out p)"
  by (cases p) (auto simp: IrqAgg_MmioDevice_read_def axi_width_def split: if_splits)

lemma irq_write_tuple:
  assumes "IrqAgg_MmioDevice_write a off w v strb = Inr (r, a')"
  shows "(r = AXI_RESP_OKAY \<and> w = 4 \<and> strb = 0xF \<or> r = AXI_RESP_SLVERR \<and> a' = a) \<and> (irq_inv a \<longrightarrow> irq_inv a')"
  using assms and_1_cases [of v] w1c [of "pending a" v]
  by (auto simp: IrqAgg_MmioDevice_write_def irq_inv_def irq_consts simp del: bit.de_Morgan_conj
      split: if_splits)

interpretation irq_dev: mmio_device irq_inv "\<lambda>a. a"
  IrqAgg_MmioDevice_read IrqAgg_MmioDevice_write
proof (unfold_locales, goal_cases)
  case (1 s off w v)
  then show ?case by (auto simp: IrqAgg_MmioDevice_read_def)
next
  case (6 s off w val strb)
  then show ?case by (auto simp: IrqAgg_MmioDevice_write_def)
qed (auto dest: irq_read_cases irq_write_tuple simp: axi_width_def)

end
