(* ===== verification/Dev_Terminal.thy ===== *)
theory Dev_Terminal
  imports HostEnv
begin

text \<open>
  The terminal backend (\<open>devices/common/src/terminal_backend.c\<close>): the singleton that puts the
  host terminal into raw, non-blocking mode on first use and restores it at exit.  The
  terminal's settings are an arbitrary type \<open>'t\<close>; \<open>make_raw\<close> stands for \<open>cfmakeraw\<close> followed
  by the two assignments to \<open>c_cc\<close>.  The outcome of the POSIX calls is part of the state:
  whether descriptor 0 is a terminal, whether \<open>tcgetattr\<close>, the calls of \<open>tcsetattr\<close> (in order; an
  exhausted script means success), \<open>fcntl(F_SETFL)\<close> and \<open>atexit\<close> succeed, and the descriptor's
  flags (\<open>None\<close> when \<open>fcntl(F_GETFL)\<close> fails).  \<open>tty_atexit\<close> counts the registered handlers.  A read
  assumes the descriptor does not block.
\<close>

record 't tty =
  tty_isatty :: bool
  tty_getattr_ok :: bool
  tty_setattr_ok :: "bool list"
  tty_attr :: 't
  tty_setfl_ok :: bool
  tty_flags :: "uint32 option"
  tty_atexit_ok :: bool
  tty_atexit :: nat

record 't TerminalBackend =
  initialized :: bool
  is_tty :: bool
  termios_saved :: bool
  saved_termios :: 't

definition O_NONBLOCK :: uint32 where "O_NONBLOCK = 0x800"

text \<open>\<open>tcsetattr(STDIN_FILENO, TCSANOW, a)\<close>, whose result the code ignores.\<close>

definition host_tcsetattr :: "'t \<Rightarrow> 't tty \<Rightarrow> 't tty" where
  "host_tcsetattr a t =
     (case tty_setattr_ok t of
        False # oks \<Rightarrow> t\<lparr>tty_setattr_ok := oks\<rparr>
      | oks \<Rightarrow> t\<lparr>tty_setattr_ok := tl oks, tty_attr := a\<rparr>)"

text \<open>\<open>g_backend\<close> before the first call; its saved settings are not looked at.\<close>

definition g_backend0 :: "'t \<Rightarrow> 't TerminalBackend" where
  "g_backend0 a = \<lparr>initialized = False, is_tty = False, termios_saved = False, saved_termios = a\<rparr>"

definition terminal_backend_destroy ::
  "'t TerminalBackend \<Rightarrow> 't tty \<Rightarrow> 't TerminalBackend \<times> 't tty" where
  "terminal_backend_destroy g t =
     (if termios_saved g
      then (let t = host_tcsetattr (saved_termios g) t in (g\<lparr>termios_saved := False\<rparr>, t))
      else (g, t))"

definition terminal_backend_init ::
  "('t \<Rightarrow> 't) \<Rightarrow> 't TerminalBackend \<Rightarrow> 't tty \<Rightarrow> 't TerminalBackend \<times> 't tty" where
  "terminal_backend_init make_raw g t =
     (if initialized g then (g, t)
      else let g = g\<lparr>initialized := True\<rparr>;
               g = g\<lparr>is_tty := tty_isatty t\<rparr>;
               (g, t) = (if is_tty g \<and> tty_getattr_ok t
                         then (let g = g\<lparr>saved_termios := tty_attr t, termios_saved := True\<rparr>
                               in (g, host_tcsetattr (make_raw (saved_termios g)) t))
                         else (g, t));
               t = (case tty_flags t of
                      None \<Rightarrow> t
                    | Some flags \<Rightarrow> if tty_setfl_ok t then t\<lparr>tty_flags := Some (flags OR O_NONBLOCK)\<rparr> else t)
           in (g, if tty_atexit_ok t then t\<lparr>tty_atexit := Suc (tty_atexit t)\<rparr> else t))"

definition terminal_backend_get_singleton ::
  "('t \<Rightarrow> 't) \<Rightarrow> 't TerminalBackend \<Rightarrow> 't tty \<Rightarrow> 't TerminalBackend \<times> 't tty" where
  "terminal_backend_get_singleton make_raw g t = terminal_backend_init make_raw g t"

definition terminal_backend_try_read :: "host \<Rightarrow> uint8 option \<times> host" where
  "terminal_backend_try_read h =
     (let (n, h) = host_read1 h in (case n of Some b \<Rightarrow> (Some b, h) | None \<Rightarrow> (None, h)))"

text \<open>The bytes the environment still holds back, and what a read takes from them.\<close>

definition stdin_bytes :: "host \<Rightarrow> uint8 list" where
  "stdin_bytes h = List.map_filter id (h_stdin h)"

lemma try_read_bytes:
  "terminal_backend_try_read h = (Some b, h') \<Longrightarrow> stdin_bytes h = b # stdin_bytes h'"
  "terminal_backend_try_read h = (None, h') \<Longrightarrow> stdin_bytes h = stdin_bytes h'"
  by (auto simp: terminal_backend_try_read_def host_read1_def stdin_bytes_def map_filter_simps
      split: list.splits option.splits)

lemma try_read_frame:
  "terminal_backend_try_read h = (b, h') \<Longrightarrow> \<exists>xs. h' = h\<lparr>h_stdin := xs\<rparr>"
  by (auto simp: terminal_backend_try_read_def host_read1_def split: list.splits option.splits)
    (metis host.surjective host.update_convs(3))+

subsection \<open>The life cycle\<close>

text \<open>\<open>n\<close> users of the singleton (every constructed SoC is one), and the exit of the process, which
  runs the registered handlers.\<close>

definition terminal_users :: "('t \<Rightarrow> 't) \<Rightarrow> nat \<Rightarrow> 't \<Rightarrow> 't tty \<Rightarrow> 't TerminalBackend \<times> 't tty" where
  "terminal_users make_raw n a t = ((\<lambda>(g, t). terminal_backend_get_singleton make_raw g t) ^^ n) (g_backend0 a, t)"

definition terminal_exit :: "'t TerminalBackend \<times> 't tty \<Rightarrow> 't TerminalBackend \<times> 't tty" where
  "terminal_exit gt = ((\<lambda>(g, t). terminal_backend_destroy g t) ^^ tty_atexit (snd gt)) gt"

lemma init_once: "initialized g \<Longrightarrow> terminal_backend_get_singleton make_raw g t = (g, t)"
  by (simp add: terminal_backend_get_singleton_def terminal_backend_init_def)

lemma init_initialized: "initialized (fst (terminal_backend_get_singleton make_raw g t))"
  by (simp add: terminal_backend_get_singleton_def terminal_backend_init_def Let_def split: prod.splits if_splits)

lemma users_once:
  "terminal_users make_raw (Suc n) a t = terminal_backend_get_singleton make_raw (g_backend0 a) t"
proof (induction n)
  case (Suc n)
  let ?gt = "terminal_backend_get_singleton make_raw (g_backend0 a) t"
  have "terminal_users make_raw (Suc (Suc n)) a t = (\<lambda>(g, t). terminal_backend_get_singleton make_raw g t) ?gt"
    using Suc by (simp add: terminal_users_def)
  also have "\<dots> = ?gt" using init_initialized [of make_raw "g_backend0 a" t]
    by (cases ?gt) (simp add: init_once)
  finally show ?case .
qed (simp add: terminal_users_def)

text \<open>Whether the \<open>i\<close>th call of \<open>tcsetattr\<close> will succeed.\<close>

definition setattr_ok :: "nat \<Rightarrow> 't tty \<Rightarrow> bool" where
  "setattr_ok i t \<longleftrightarrow> (length (tty_setattr_ok t) \<le> i \<or> tty_setattr_ok t ! i)"

lemma tcsetattr_eq:
  "host_tcsetattr a t = t\<lparr>tty_setattr_ok := tl (tty_setattr_ok t), tty_attr := if setattr_ok 0 t then a else tty_attr t\<rparr>"
proof (cases "tty_setattr_ok t")
  case (Cons b bs)
  then show ?thesis by (cases b) (simp_all add: host_tcsetattr_def setattr_ok_def)
qed (simp add: host_tcsetattr_def setattr_ok_def)

text \<open>Raw mode is entered at most once, however many users there are.\<close>

definition goes_raw :: "'t tty \<Rightarrow> bool" where
  "goes_raw t \<longleftrightarrow> tty_isatty t \<and> tty_getattr_ok t \<and> setattr_ok 0 t"

lemma terminal_in_use:
  "snd (terminal_users make_raw (Suc n) a t) =
     t\<lparr>tty_setattr_ok := (if tty_isatty t \<and> tty_getattr_ok t then tl (tty_setattr_ok t) else tty_setattr_ok t),
       tty_attr := (if goes_raw t then make_raw (tty_attr t) else tty_attr t),
       tty_flags := (if tty_setfl_ok t then map_option (\<lambda>f. f OR O_NONBLOCK) (tty_flags t) else tty_flags t),
       tty_atexit := tty_atexit t + of_bool (tty_atexit_ok t)\<rparr>"
    "termios_saved (fst (terminal_users make_raw (Suc n) a t)) \<longleftrightarrow> tty_isatty t \<and> tty_getattr_ok t"
    "termios_saved (fst (terminal_users make_raw (Suc n) a t)) \<Longrightarrow> saved_termios (fst (terminal_users make_raw (Suc n) a t)) = tty_attr t"
  unfolding users_once terminal_backend_get_singleton_def terminal_backend_init_def g_backend0_def goes_raw_def
  by (auto simp: tcsetattr_eq Let_def split: option.splits)

lemma terminal_left:
  assumes "tty_atexit t = 0" "tty_atexit_ok t" "gt = terminal_users make_raw (Suc n) a t"
  shows "tty_atexit (snd gt) = 1" "tty_flags (snd (terminal_exit gt)) = tty_flags (snd gt)"
    "tty_attr (snd (terminal_exit gt)) = (if goes_raw t \<and> \<not> setattr_ok 1 t then make_raw (tty_attr t) else tty_attr t)"
proof -
  note u = terminal_in_use [where make_raw = make_raw and n = n and a = a and t = t, folded assms(3)]
  show one: "tty_atexit (snd gt) = 1" using assms(1,2) by (simp add: u(1))
  then have e: "terminal_exit gt = terminal_backend_destroy (fst gt) (snd gt)"
    by (cases gt) (simp add: terminal_exit_def)
  show "tty_flags (snd (terminal_exit gt)) = tty_flags (snd gt)"
    by (simp add: e terminal_backend_destroy_def tcsetattr_eq Let_def)
  show "tty_attr (snd (terminal_exit gt)) = (if goes_raw t \<and> \<not> setattr_ok 1 t then make_raw (tty_attr t) else tty_attr t)"
  proof (cases "tty_isatty t \<and> tty_getattr_ok t")
    case False
    then have "\<not> goes_raw t" "\<not> termios_saved (fst gt)" using u(2) by (auto simp: goes_raw_def)
    moreover from this have "tty_attr (snd gt) = tty_attr t" by (simp add: u(1))
    ultimately show ?thesis by (simp add: e terminal_backend_destroy_def)
  next
    case True
    have ok: "setattr_ok 0 (snd gt) = setattr_ok 1 t"
      using True by (cases "tty_setattr_ok t") (auto simp: u(1) setattr_ok_def)
    have now: "tty_attr (snd gt) = (if setattr_ok 0 t then make_raw (tty_attr t) else tty_attr t)"
      using True by (simp add: u(1) goes_raw_def)
    have saved: "termios_saved (fst gt)" "saved_termios (fst gt) = tty_attr t" using True u(2,3) by simp_all
    have "tty_attr (snd (terminal_exit gt)) = (if setattr_ok 0 (snd gt) then tty_attr t else tty_attr (snd gt))"
      by (simp add: e terminal_backend_destroy_def saved tcsetattr_eq Let_def)
    then show ?thesis using True by (simp add: ok now goes_raw_def)
  qed
qed

end
