(* ===== verification/Dev_UART.thy ===== *)
theory Dev_UART
  imports MmioDevice Dev_IrqAgg Dev_Terminal
begin

text \<open>
  The UART (\<open>devices/uart\<close>): transmit through \<open>fputc\<close>, receive through a one-byte buffer that
  the tick fills from the terminal and software pops by writing one to a status bit.  The
  device's operations act on the struct and the host's streams; the tick also drives the
  edge wire of the interrupt aggregator it is connected to.
\<close>

definition UART_TX_DATA :: uint32 where "UART_TX_DATA = 0x0"
definition UART_STATUS :: uint32 where "UART_STATUS = 0x4"
definition UART_RX_DATA :: uint32 where "UART_RX_DATA = 0x8"
definition STATUS_TX_BUSY_BIT :: uint32 where "STATUS_TX_BUSY_BIT = push_bit 0 1"
definition STATUS_RX_VALID_BIT :: uint32 where "STATUS_RX_VALID_BIT = push_bit 1 1"

lemmas uart_consts = UART_TX_DATA_def UART_STATUS_def UART_RX_DATA_def STATUS_RX_VALID_BIT_def

text \<open>\<open>uart_out\<close> and the two Booleans are the pointers of the struct: the stream (\<open>None\<close> is
  \<open>NULL\<close>), whether \<open>terminal\<close> and \<open>irq\<close> are non-\<open>NULL\<close>.\<close>

record UART =
  uart_out :: "stream option"
  terminal :: bool
  uart_irq :: bool
  rx_byte :: uint8
  rx_valid :: bool

definition UART_MmioDevice_read :: "(UART \<times> host) mmio_read" where
  "UART_MmioDevice_read s offset width value_out =
     (let (self, h) = s;
          slverr = Inr (AXI_RESP_SLVERR, zero_out value_out, s);
          okay = (\<lambda>v. bind_res (store_out value_out v) (\<lambda>q. Inr (AXI_RESP_OKAY, q, s)))
      in if width \<noteq> 1 \<and> width \<noteq> 2 \<and> width \<noteq> 4 then slverr
         else if offset = UART_TX_DATA then slverr
         else if offset = UART_STATUS then okay (if rx_valid self then STATUS_RX_VALID_BIT else 0)
         else if offset = UART_RX_DATA then okay (if rx_valid self then ucast (rx_byte self) else 0)
         else slverr)"

definition UART_MmioDevice_write :: "(UART \<times> host) mmio_write" where
  "UART_MmioDevice_write s offset width value strb =
     (let (self, h) = s
      in if width \<noteq> 1 \<and> width \<noteq> 2 \<and> width \<noteq> 4 then Inr (AXI_RESP_SLVERR, s)
         else if width = 4 \<and> strb \<noteq> 0xF then Inr (AXI_RESP_SLVERR, s)
         else if offset = UART_TX_DATA
         then let sink = (case uart_out self of Some f \<Rightarrow> f | None \<Rightarrow> Stdout);
                  (eof, h) = host_fputc (ucast (value AND 0xFF)) sink h
              in if eof then Inr (AXI_RESP_SLVERR, self, h) else Inr (AXI_RESP_OKAY, self, h)
         else if offset = UART_STATUS
         then Inr (AXI_RESP_OKAY,
                (if value AND STATUS_RX_VALID_BIT \<noteq> 0 then self\<lparr>rx_valid := False, rx_byte := 0\<rparr>
                 else self), h)
         else if offset = UART_RX_DATA then Inr (AXI_RESP_SLVERR, s)
         else Inr (AXI_RESP_SLVERR, s))"

definition UART_vtbl :: "(UART \<times> host) MmioDeviceVtbl" where
  "UART_vtbl = \<lparr>vt_read = UART_MmioDevice_read, vt_write = UART_MmioDevice_write\<rparr>"

definition UART_Tickable_tick :: "UART \<Rightarrow> IrqAgg \<Rightarrow> host \<Rightarrow> UART \<times> IrqAgg \<times> host" where
  "UART_Tickable_tick self agg h =
     (if \<not> rx_valid self \<and> terminal self
      then let (byte, h) = terminal_backend_try_read h
           in (case byte of
                 Some b \<Rightarrow> (self\<lparr>rx_byte := b, rx_valid := True\<rparr>,
                            (if uart_irq self then IrqAgg_set_uart_rx_edge agg True else agg), h)
               | None \<Rightarrow> (self, agg, h))
      else (self, agg, h))"

definition UART_ctor :: "stream option \<Rightarrow> bool \<Rightarrow> UART" where
  "UART_ctor f term =
     \<lparr>uart_out = f, terminal = term, uart_irq = False, rx_byte = 0, rx_valid = False\<rparr>"

definition UART_set_irq_agg :: "UART \<Rightarrow> bool \<Rightarrow> UART" where
  "UART_set_irq_agg self connected = self\<lparr>uart_irq := connected\<rparr>"

definition UART_rx_valid :: "UART \<Rightarrow> bool" where
  "UART_rx_valid self = rx_valid self"

definition UART_inject_rx_byte_for_testing :: "UART \<Rightarrow> IrqAgg \<Rightarrow> uint8 \<Rightarrow> UART \<times> IrqAgg" where
  "UART_inject_rx_byte_for_testing self agg byte =
     (let was_valid = rx_valid self;
          self = self\<lparr>rx_byte := byte\<rparr>;
          self = self\<lparr>rx_valid := True\<rparr>
      in (self, if \<not> was_valid \<and> uart_irq self then IrqAgg_set_uart_rx_edge agg True else agg))"

text \<open>An empty buffer holds 0 (so that the peek of \<open>RX_DATA\<close> needs no test).\<close>

definition uart_inv :: "UART \<Rightarrow> bool" where
  "uart_inv u \<longleftrightarrow> (\<not> rx_valid u \<longrightarrow> rx_byte u = 0)"

text \<open>The received bytes not yet popped, followed by those not yet read from the terminal.\<close>

definition rx_stream :: "UART \<Rightarrow> host \<Rightarrow> uint8 list" where
  "rx_stream u h = (if rx_valid u then [rx_byte u] else []) @ stdin_bytes h"

lemma uart_read_cases:
  "UART_MmioDevice_read s off w p = Inr (r, q, s') \<Longrightarrow>
   s' = s \<and> (r = AXI_RESP_OKAY \<and> axi_width w \<or> r = AXI_RESP_SLVERR \<and> q = zero_out p)"
  by (cases p; cases s) (auto simp: UART_MmioDevice_read_def axi_width_def Let_def split: if_splits)

lemma uart_read_total: "\<exists>r v' s'. UART_MmioDevice_read s off w (Some v) = Inr (r, Some v', s')"
  by (cases s) (simp add: UART_MmioDevice_read_def Let_def)

lemma uart_write_total: "\<exists>r s'. UART_MmioDevice_write s off w v strb = Inr (r, s')"
  by (cases s) (auto simp: UART_MmioDevice_write_def Let_def split: prod.splits)

lemma uart_write_cases:
  assumes "UART_MmioDevice_write (u, h) off w v strb = Inr (r, u', h')"
  shows "(r = AXI_RESP_OKAY \<and> axi_width w \<and> (w = 4 \<longrightarrow> strb = 0xF) \<and> (off = UART_TX_DATA \<or> off = UART_STATUS)
       \<or> r = AXI_RESP_SLVERR \<and> u' = u \<and> h_out h' = h_out h)
     \<and> (uart_inv u \<longrightarrow> uart_inv u')"
  using assms
  by (auto simp: UART_MmioDevice_write_def axi_width_def uart_inv_def host_fputc_def Let_def
      split: if_splits option.splits list.splits bool.splits)

interpretation uart_dev: mmio_device "\<lambda>(u, h). uart_inv u" "\<lambda>(u, h). (u, h_out h)"
  UART_MmioDevice_read UART_MmioDevice_write
proof (unfold_locales, goal_cases)
  case (1 s off w v)
  show ?case by (rule uart_read_total)
next
  case (6 s off w val strb)
  show ?case by (rule uart_write_total)
qed (auto dest: uart_read_cases uart_write_cases split: prod.splits)

end
