(* ===== verification/Dev_DRAM.thy ===== *)
theory Dev_DRAM
  imports MmioDevice CMemory
begin

text \<open>
  Main memory (\<open>devices/dram\<close>), ideal-latency model: a heap-allocated byte array behind the
  bus.  The invariant ties the length of the array to \<open>size_bytes\<close>, which is what makes the
  bounds check of the callbacks sufficient.  The functional contract is the pair of a read
  and a strobed write of 1, 2 or 4 naturally aligned bytes.
\<close>

definition DRAM_DEFAULT_SIZE :: uint32 where "DRAM_DEFAULT_SIZE = 64 * 1024 * 1024"

datatype dram_model_e = DRAM_MODEL_IDEAL | DRAM_MODEL_ABSTRACT

record DRAM =
  model :: dram_model_e
  backing :: byte_array
  size_bytes :: size_t

definition DRAM_MmioDevice_read :: "DRAM mmio_read" where
  "DRAM_MmioDevice_read self offset width value_out =
     (if width \<noteq> 1 \<and> width \<noteq> 2 \<and> width \<noteq> 4 then Inr (AXI_RESP_SLVERR, zero_out value_out, self)
      else if ucast offset AND (width - 1) \<noteq> 0 then Inr (AXI_RESP_SLVERR, zero_out value_out, self)
      else if ucast offset + width > size_bytes self
      then Inr (AXI_RESP_SLVERR, zero_out value_out, self)
      else bind_res (le_read_loop (arr_get (backing self)) (unat offset) (unat width) 0 0) (\<lambda>v.
           bind_res (store_out value_out v) (\<lambda>q.
           Inr (AXI_RESP_OKAY, q, self))))"

definition DRAM_MmioDevice_write :: "DRAM mmio_write" where
  "DRAM_MmioDevice_write self offset width value strb =
     (if width \<noteq> 1 \<and> width \<noteq> 2 \<and> width \<noteq> 4 then Inr (AXI_RESP_SLVERR, self)
      else if width = 4 \<and> strb \<noteq> 0xF then Inr (AXI_RESP_SLVERR, self)
      else if ucast offset AND (width - 1) \<noteq> 0 then Inr (AXI_RESP_SLVERR, self)
      else if ucast offset + width > size_bytes self then Inr (AXI_RESP_SLVERR, self)
      else bind_res (le_write_loop arr_put (backing self) (unat offset) (unat width) 0 value strb) (\<lambda>a.
           Inr (AXI_RESP_OKAY, self\<lparr>backing := a\<rparr>)))"

definition DRAM_vtbl :: "DRAM MmioDeviceVtbl" where
  "DRAM_vtbl = \<lparr>vt_read = DRAM_MmioDevice_read, vt_write = DRAM_MmioDevice_write\<rparr>"

text \<open>The ideal model has no internal time.\<close>

definition DRAM_Tickable_tick :: "DRAM \<Rightarrow> DRAM" where
  "DRAM_Tickable_tick self = self"

definition DRAM_ctor :: "size_t \<Rightarrow> dram_model_e \<Rightarrow> host \<Rightarrow> fault + (rc \<times> DRAM option \<times> host)" where
  "DRAM_ctor sz m h =
     (if sz = 0 then Inl Panic
      else if m = DRAM_MODEL_ABSTRACT then Inr (Some ENOTSUP, None, h)
      else let (ok, h) = heap_calloc 1 h in
           if \<not> ok then Inr (Some ENOMEM, None, h)
           else let (ok, h) = heap_calloc sz h in
                if \<not> ok then Inr (Some ENOMEM, None, heap_free False h)
                else Inr (None,
                       Some \<lparr>model = m, backing = arr_zero (unat sz), size_bytes = sz\<rparr>, h))"

definition DRAM_dtor :: "DRAM option \<Rightarrow> host \<Rightarrow> DRAM option \<times> host" where
  "DRAM_dtor self h =
     (case self of None \<Rightarrow> (None, h) | Some d \<Rightarrow> (None, heap_free False (heap_free False h)))"

definition DRAM_get_backing :: "DRAM \<Rightarrow> byte_array" where
  "DRAM_get_backing self = backing self"

definition DRAM_size_bytes :: "DRAM \<Rightarrow> size_t" where
  "DRAM_size_bytes self = size_bytes self"

definition dram_inv :: "DRAM \<Rightarrow> bool" where
  "dram_inv d \<longleftrightarrow> arr_len (backing d) = unat (size_bytes d) \<and> size_bytes d \<noteq> 0"

text \<open>The accesses the device accepts: a valid width, natural alignment, in range.\<close>

definition dram_access_ok :: "DRAM \<Rightarrow> addr_t \<Rightarrow> size_t \<Rightarrow> bool" where
  "dram_access_ok d off w \<longleftrightarrow>
     axi_width w \<and> unat off mod unat w = 0 \<and> unat off + unat w \<le> unat (size_bytes d)"

lemma dram_align:
  "w = 1 \<or> w = 2 \<or> w = 4 \<Longrightarrow>
   ucast (off :: addr_t) AND ((w :: size_t) - 1) = 0 \<longleftrightarrow> unat off mod unat w = 0"
  by (auto simp: word_of_c)

lemma dram_read_okay:
  assumes "dram_inv d" "dram_access_ok d off w"
  shows "DRAM_MmioDevice_read d off w (Some v) =
           Inr (AXI_RESP_OKAY, Some (le_value (arr_at (backing d)) (unat off) (unat w)), d)"
    and "DRAM_MmioDevice_read d off w None = Inl NullDeref"
  using assms offset_sum [of w off] dram_align [of w off]
  by (auto simp: DRAM_MmioDevice_read_def axi_width_def dram_inv_def dram_access_ok_def
      word_less_nat_alt arr.read_loop_value)

lemma dram_read_slverr:
  assumes "\<not> dram_access_ok d off w"
  shows "DRAM_MmioDevice_read d off w p = Inr (AXI_RESP_SLVERR, zero_out p, d)"
  using assms offset_sum [of w off] dram_align [of w off]
  by (auto simp: DRAM_MmioDevice_read_def axi_width_def dram_access_ok_def word_less_nat_alt)

definition dram_store :: "DRAM \<Rightarrow> addr_t \<Rightarrow> size_t \<Rightarrow> uint32 \<Rightarrow> uint8 \<Rightarrow> DRAM" where
  "dram_store d off w v s =
     d\<lparr>backing := (backing d)\<lparr>arr_at := strobed (arr_at (backing d)) (unat off) (unat w) v s\<rparr>\<rparr>"

lemma dram_store_sel [simp]:
  "size_bytes (dram_store d off w v s) = size_bytes d"
  "model (dram_store d off w v s) = model d"
  "arr_len (backing (dram_store d off w v s)) = arr_len (backing d)"
  "arr_at (backing (dram_store d off w v s)) = strobed (arr_at (backing d)) (unat off) (unat w) v s"
  by (simp_all add: dram_store_def)

lemma dram_write_okay:
  assumes "dram_inv d" "dram_access_ok d off w" "w = 4 \<longrightarrow> s = 0xF"
  shows "DRAM_MmioDevice_write d off w v s = Inr (AXI_RESP_OKAY, dram_store d off w v s)"
proof -
  have r: "unat off + unat w \<le> arr_len (backing d)"
    using assms by (simp add: dram_inv_def dram_access_ok_def)
  obtain a' where a': "le_write_loop arr_put (backing d) (unat off) (unat w) 0 v s = Inr a'"
    "arr_len a' = arr_len (backing d)"
    "arr_at a' = strobed (arr_at (backing d)) (unat off) (unat w) v s"
    using arr.write_loop_strobed [OF r, of v s] by blast
  then have eq: "a' = (backing d)\<lparr>arr_at := strobed (arr_at (backing d)) (unat off) (unat w) v s\<rparr>"
    by (cases a', cases "backing d") simp
  show ?thesis
    using assms offset_sum [of w off] dram_align [of w off] a'(1) eq
    by (auto simp: DRAM_MmioDevice_write_def axi_width_def dram_access_ok_def word_less_nat_alt dram_store_def)
qed

lemma dram_write_slverr:
  assumes "\<not> (dram_access_ok d off w \<and> (w = 4 \<longrightarrow> s = 0xF))"
  shows "DRAM_MmioDevice_write d off w v s = Inr (AXI_RESP_SLVERR, d)"
  using assms offset_sum [of w off] dram_align [of w off]
  by (auto simp: DRAM_MmioDevice_write_def axi_width_def dram_access_ok_def word_less_nat_alt)

lemma dram_inv_store [simp]: "dram_inv (dram_store d off w v s) = dram_inv d"
  by (simp add: dram_inv_def)

lemma dram_read_cases:
  assumes "dram_inv s" "DRAM_MmioDevice_read s off w p = Inr (r, q, s')"
  shows "s' = s \<and> (r = AXI_RESP_OKAY \<and> axi_width w \<or> r = AXI_RESP_SLVERR \<and> q = zero_out p)"
  using assms dram_read_okay [of s off w] dram_read_slverr [of s off w p]
  by (cases p; cases "dram_access_ok s off w") (auto simp: dram_access_ok_def)

lemma dram_read_total:
  "dram_inv s \<Longrightarrow> \<exists>r v' s'. DRAM_MmioDevice_read s off w (Some v) = Inr (r, Some v', s')"
  by (cases "dram_access_ok s off w") (auto simp: dram_read_okay dram_read_slverr)

lemma dram_write_cases:
  assumes "dram_inv s"
  obtains (okay) "DRAM_MmioDevice_write s off w v strb = Inr (AXI_RESP_OKAY, dram_store s off w v strb)"
    "dram_access_ok s off w" "w = 4 \<longrightarrow> strb = 0xF"
  | (slverr) "DRAM_MmioDevice_write s off w v strb = Inr (AXI_RESP_SLVERR, s)"
    "\<not> (dram_access_ok s off w \<and> (w = 4 \<longrightarrow> strb = 0xF))"
  using assms dram_write_okay dram_write_slverr by metis

interpretation dram_dev: mmio_device dram_inv "\<lambda>d. d" DRAM_MmioDevice_read DRAM_MmioDevice_write
proof (unfold_locales, goal_cases)
  case (6 s off w val strb)
  then show ?case by (rule dram_write_cases) blast+
next
  case (7 s off w val strb r s')
  then show ?case by (metis dram_write_cases dram_inv_store prod.inject sum.inject(2))
next
  case (8 s off w val strb r s')
  then show ?case by (metis dram_write_cases insertCI prod.inject sum.inject(2))
next
  case (9 s off w val strb s')
  then show ?case
    by (metis dram_write_cases axi_resp_e.distinct(3) prod.inject sum.inject(2))
next
  case (10 s off w val strb s')
  then show ?case
    by (metis dram_write_cases dram_access_ok_def axi_resp_e.distinct(3) prod.inject sum.inject(2))
next
  case (11 s off val strb s')
  then show ?case
    by (metis dram_write_cases axi_resp_e.distinct(3) prod.inject sum.inject(2))
qed (auto simp: dram_read_total dest: dram_read_cases)

end
