(* ===== verification/MemMap.thy ===== *)
theory MemMap
  imports MmioDevice
begin

text \<open>
  The address decoder (\<open>devices/common/src/mem_map.c\<close>): a growable array of units, each an
  address range with a device, searched linearly.  \<open>n_units\<close> is the length of the list.  End
  addresses are computed in 32 bits as in the code, so they wrap; the lemmas say exactly for
  which units and accesses that arithmetic means what it should.
\<close>

record 'd mem_map_unit_t =
  u_base :: addr_t
  u_size :: size_t
  u_device :: 'd

record 'd MemoryMap =
  mm_cap :: size_t
  mm_units :: "'d mem_map_unit_t list"

text \<open>\<open>sizeof(mem_map_unit_t)\<close> on the 64-bit host: 4 bytes, padding, two 8-byte fields.\<close>

definition sizeof_unit :: nat where "sizeof_unit = 24"

definition MemoryMap_ctor :: "host \<Rightarrow> rc \<times> 'd MemoryMap option \<times> host" where
  "MemoryMap_ctor h =
     (let (ok, h) = heap_calloc 1 h
      in if \<not> ok then (Some ENOMEM, None, h)
         else (None, Some \<lparr>mm_cap = 0, mm_units = []\<rparr>, h))"

definition MemoryMap_dtor :: "'d MemoryMap option \<Rightarrow> host \<Rightarrow> 'd MemoryMap option \<times> host" where
  "MemoryMap_dtor self h =
     (case self of None \<Rightarrow> (None, h)
      | Some m \<Rightarrow> (None, heap_free False (heap_free (mm_cap m = 0) h)))"

definition ranges_overlap :: "addr_t \<Rightarrow> size_t \<Rightarrow> addr_t \<Rightarrow> size_t \<Rightarrow> bool" where
  "ranges_overlap a_base a_size b_base b_size =
     (let a_end = a_base + ucast a_size; b_end = b_base + ucast b_size
      in a_base < b_end \<and> b_base < a_end)"

definition MemoryMap_add_device ::
  "'d MemoryMap \<Rightarrow> 'd mem_map_unit_t \<Rightarrow> host \<Rightarrow> fault + (rc \<times> 'd MemoryMap \<times> host)" where
  "MemoryMap_add_device self u h =
     (if u_size u = 0 then Inl Panic
      else if list_ex (\<lambda>v. ranges_overlap (u_base u) (u_size u) (u_base v) (u_size v)) (mm_units self)
      then Inr (Some EEXIST, self, h)
      else (case grow_if_full (length (mm_units self)) (mm_cap self) (of_nat sizeof_unit) h of
              (None, h) \<Rightarrow> Inr (Some ENOMEM, self, h)
            | (Some cap, h) \<Rightarrow>
                if length (mm_units self) < unat cap
                then Inr (None, self\<lparr>mm_cap := cap, mm_units := mm_units self @ [u]\<rparr>, h)
                else Inl OutOfBounds))"

fun find_unit_from :: "'d mem_map_unit_t list \<Rightarrow> addr_t \<Rightarrow> size_t \<Rightarrow> 'd mem_map_unit_t option" where
  "find_unit_from [] addr width = None"
| "find_unit_from (u # us) addr width =
     (let u_end = u_base u + ucast (u_size u)
      in if addr \<ge> u_base u \<and> addr + ucast width \<le> u_end then Some u
         else find_unit_from us addr width)"

definition find_unit :: "'d MemoryMap \<Rightarrow> addr_t \<Rightarrow> size_t \<Rightarrow> 'd mem_map_unit_t option" where
  "find_unit self addr width = find_unit_from (mm_units self) addr width"

definition MemoryMap_read ::
  "('d \<Rightarrow> 's MmioDeviceVtbl option) \<Rightarrow> 'd MemoryMap \<Rightarrow> 's mmio_read" where
  "MemoryMap_read vtbl self s addr width value_out =
     (case find_unit self addr width of
        None \<Rightarrow> Inr (AXI_RESP_DECERR, zero_out value_out, s)
      | Some u \<Rightarrow> MmioDevice_read vtbl (u_device u) s (addr - u_base u) width value_out)"

definition MemoryMap_write ::
  "('d \<Rightarrow> 's MmioDeviceVtbl option) \<Rightarrow> 'd MemoryMap \<Rightarrow> 's mmio_write" where
  "MemoryMap_write vtbl self s addr width value strb =
     (case find_unit self addr width of
        None \<Rightarrow> Inr (AXI_RESP_DECERR, s)
      | Some u \<Rightarrow> MmioDevice_write vtbl (u_device u) s (addr - u_base u) width value strb)"

subsection \<open>Ranges as sets of addresses\<close>

text \<open>A unit whose end address does not wrap, and the addresses it covers.\<close>

definition unit_ok :: "'d mem_map_unit_t \<Rightarrow> bool" where
  "unit_ok u \<longleftrightarrow> u_size u \<noteq> 0 \<and> unat (u_base u) + unat (u_size u) < 2 ^ 32"

definition unit_range :: "'d mem_map_unit_t \<Rightarrow> nat set" where
  "unit_range u = {unat (u_base u) ..< unat (u_base u) + unat (u_size u)}"

definition access_range :: "addr_t \<Rightarrow> size_t \<Rightarrow> nat set" where
  "access_range addr w = {unat addr ..< unat addr + unat w}"

text \<open>An access that does not run past the top of the address space.\<close>

definition access_ok :: "addr_t \<Rightarrow> size_t \<Rightarrow> bool" where
  "access_ok addr w \<longleftrightarrow> w \<noteq> 0 \<and> unat addr + unat w < 2 ^ 32"

definition disjoint_units :: "'d mem_map_unit_t list \<Rightarrow> bool" where
  "disjoint_units us \<longleftrightarrow> sorted_wrt (\<lambda>u v. unit_range u \<inter> unit_range v = {}) us"

definition map_ok :: "'d MemoryMap \<Rightarrow> bool" where
  "map_ok m \<longleftrightarrow> list_all unit_ok (mm_units m) \<and> disjoint_units (mm_units m) \<and>
     cap_ok (length (mm_units m)) (mm_cap m) sizeof_unit"

lemma add_no_wrap:
  fixes a :: addr_t and n :: size_t
  assumes "unat a + unat n < 2 ^ 32"
  shows "unat (a + ucast n) = unat a + unat n"
proof -
  have n: "unat (ucast n :: addr_t) = unat n"
    using assms by (simp add: unsigned_ucast_eq take_bit_nat_eq_self)
  show ?thesis using assms by (simp add: unat_word_ariths n)
qed

lemma find_covers:
  assumes "unit_ok u" "access_ok addr w"
  shows "addr \<ge> u_base u \<and> addr + ucast w \<le> u_base u + ucast (u_size u) \<longleftrightarrow>
         access_range addr w \<subseteq> unit_range u"
  using assms
  by (auto simp: unit_ok_def access_ok_def access_range_def unit_range_def word_le_nat_alt
      add_no_wrap unat_gt_0 unat_eq_0)

lemma overlap_iff:
  assumes "unit_ok u" "unit_ok v"
  shows "ranges_overlap (u_base u) (u_size u) (u_base v) (u_size v) \<longleftrightarrow> unit_range u \<inter> unit_range v \<noteq> {}"
proof -
  have "0 < unat (u_size u)" "0 < unat (u_size v)"
    using assms by (simp_all add: unit_ok_def unat_gt_0)
  then show ?thesis
    using assms
    by (auto simp: unit_ok_def ranges_overlap_def unit_range_def word_less_nat_alt add_no_wrap
        Let_def ivl_disj_un_singleton dest: le_less_trans)
qed

lemma find_unit_from_Some:
  assumes "list_all unit_ok us" "access_ok addr w" "find_unit_from us addr w = Some u"
  shows "u \<in> set us \<and> unit_ok u \<and> access_range addr w \<subseteq> unit_range u"
  using assms
  by (induction us) (auto simp: Let_def find_covers split: if_splits)

lemma find_unit_from_None:
  assumes "list_all unit_ok us" "access_ok addr w"
  shows "find_unit_from us addr w = None \<longleftrightarrow> (\<forall>u \<in> set us. \<not> access_range addr w \<subseteq> unit_range u)"
  using assms
  by (induction us) (auto simp: Let_def find_covers)

text \<open>The unit that is found contains the (wrapped) end of the access.\<close>

lemma find_unit_from_end:
  "find_unit_from us addr w = Some u \<Longrightarrow>
   u \<in> set us \<and> u_base u \<le> addr \<and> addr + ucast w \<le> u_base u + ucast (u_size u)"
  by (induction us) (auto simp: Let_def split: if_splits)

lemma disjoint_units_mem:
  "disjoint_units us \<Longrightarrow> u \<in> set us \<Longrightarrow> v \<in> set us \<Longrightarrow> u \<noteq> v \<Longrightarrow> unit_range u \<inter> unit_range v = {}"
proof (induction us)
  case (Cons a us)
  then have "disjoint_units us" "\<forall>v \<in> set us. unit_range a \<inter> unit_range v = {}"
    by (auto simp: disjoint_units_def)
  with Cons show ?case by (metis Int_commute set_ConsD)
qed simp

lemma access_range_nonempty: "access_ok addr w \<Longrightarrow> unat addr \<in> access_range addr w"
  by (auto simp: access_ok_def access_range_def unat_gt_0)

text \<open>In a well-formed map the unit found is the only one that covers the access, so the
  result depends on the set of units alone.\<close>

definition apart :: "'d mem_map_unit_t set \<Rightarrow> bool" where
  "apart U \<longleftrightarrow> (\<forall>u \<in> U. \<forall>v \<in> U. u \<noteq> v \<longrightarrow> unit_range u \<inter> unit_range v = {})"

lemma disjoint_units_apart: "disjoint_units us \<Longrightarrow> apart (set us)"
  using disjoint_units_mem unfolding apart_def by blast

lemma find_unit_from_iff:
  assumes "list_all unit_ok us" "apart (set us)" "access_ok addr w"
  shows "find_unit_from us addr w = Some u \<longleftrightarrow> u \<in> set us \<and> access_range addr w \<subseteq> unit_range u"
proof
  assume "find_unit_from us addr w = Some u"
  then show "u \<in> set us \<and> access_range addr w \<subseteq> unit_range u"
    using find_unit_from_Some [OF assms(1,3)] by blast
next
  assume u: "u \<in> set us \<and> access_range addr w \<subseteq> unit_range u"
  then obtain v where v: "find_unit_from us addr w = Some v"
    using find_unit_from_None [OF assms(1,3)] by (cases "find_unit_from us addr w") auto
  then have "v \<in> set us" "access_range addr w \<subseteq> unit_range v"
    using find_unit_from_Some [OF assms(1,3)] by auto
  then have "u = v"
    using u assms(2) access_range_nonempty [OF assms(3)] unfolding apart_def by blast
  with v show "find_unit_from us addr w = Some u" by simp
qed

lemma find_unit_iff:
  "map_ok m \<Longrightarrow> access_ok addr w \<Longrightarrow>
   find_unit m addr w = Some u \<longleftrightarrow> u \<in> set (mm_units m) \<and> access_range addr w \<subseteq> unit_range u"
  unfolding find_unit_def map_ok_def
  using find_unit_from_iff [OF _ disjoint_units_apart, of "mm_units m" addr w u] by blast

lemma find_unit_from_perm:
  assumes "list_all unit_ok us" "apart (set us)" "access_ok addr w" "set vs = set us"
  shows "find_unit_from vs addr w = find_unit_from us addr w"
proof -
  have "list_all unit_ok vs" "apart (set vs)" using assms by (simp_all add: list_all_iff)
  then have "find_unit_from vs addr w = Some u \<longleftrightarrow> find_unit_from us addr w = Some u" for u
    using assms find_unit_from_iff by metis
  then show ?thesis by (cases "find_unit_from us addr w"; cases "find_unit_from vs addr w") auto
qed

lemma disjoint_units_snoc:
  "disjoint_units (us @ [u]) \<longleftrightarrow> disjoint_units us \<and> (\<forall>v \<in> set us. unit_range v \<inter> unit_range u = {})"
  by (auto simp: disjoint_units_def sorted_wrt_append)

lemma no_overlap_iff:
  assumes "list_all unit_ok us" "unit_ok u"
  shows "list_ex (\<lambda>v. ranges_overlap (u_base u) (u_size u) (u_base v) (u_size v)) us \<longleftrightarrow>
         (\<exists>v \<in> set us. unit_range v \<inter> unit_range u \<noteq> {})"
  using assms by (auto simp: list_ex_iff list_all_iff overlap_iff Int_commute)

lemma grow_unit_room:
  assumes "map_ok m" "grow_if_full (length (mm_units m)) (mm_cap m) (of_nat sizeof_unit) h = (Some cap, h')"
  shows "cap_ok (Suc (length (mm_units m))) cap sizeof_unit"
  using assms grow_if_full_ok [of "length (mm_units m)" "mm_cap m" sizeof_unit h cap h']
  by (simp add: map_ok_def sizeof_unit_def)

text \<open>Registration keeps the map well-formed.\<close>

lemma add_device_spec:
  assumes "map_ok m" "unit_ok u"
  obtains (overlap) "MemoryMap_add_device m u h = Inr (Some EEXIST, m, h)"
      "\<exists>v \<in> set (mm_units m). unit_range v \<inter> unit_range u \<noteq> {}"
  | (full) h' where "MemoryMap_add_device m u h = Inr (Some ENOMEM, m, h')"
      "\<forall>v \<in> set (mm_units m). unit_range v \<inter> unit_range u = {}"
  | (added) cap h' where "MemoryMap_add_device m u h =
        Inr (None, m\<lparr>mm_cap := cap, mm_units := mm_units m @ [u]\<rparr>, h')"
      "\<forall>v \<in> set (mm_units m). unit_range v \<inter> unit_range u = {}"
      "map_ok (m\<lparr>mm_cap := cap, mm_units := mm_units m @ [u]\<rparr>)"
proof (cases "\<exists>v \<in> set (mm_units m). unit_range v \<inter> unit_range u \<noteq> {}")
  case True
  then have "list_ex (\<lambda>v. ranges_overlap (u_base u) (u_size u) (u_base v) (u_size v)) (mm_units m)"
    using no_overlap_iff [OF _ assms(2)] assms(1) unfolding map_ok_def by blast
  with True assms(2) show thesis
    by (intro overlap) (simp_all add: MemoryMap_add_device_def unit_ok_def)
next
  case False
  then have no: "\<not> list_ex (\<lambda>v. ranges_overlap (u_base u) (u_size u) (u_base v) (u_size v)) (mm_units m)"
    using no_overlap_iff [OF _ assms(2)] assms(1) unfolding map_ok_def by blast
  obtain r h' where g: "grow_if_full (length (mm_units m)) (mm_cap m) (of_nat sizeof_unit) h = (r, h')"
    by fastforce
  show thesis
  proof (cases r)
    case None
    with g no False assms(2) show thesis
      by (intro full [of h']) (auto simp: MemoryMap_add_device_def unit_ok_def)
  next
    case (Some cap)
    have c: "cap_ok (Suc (length (mm_units m))) cap sizeof_unit"
      using grow_unit_room [OF assms(1)] g Some by blast
    then have "length (mm_units m) < unat cap" by (simp add: cap_ok_def)
    with g no Some assms(2) have "MemoryMap_add_device m u h =
        Inr (None, m\<lparr>mm_cap := cap, mm_units := mm_units m @ [u]\<rparr>, h')"
      by (simp add: MemoryMap_add_device_def unit_ok_def)
    moreover have "map_ok (m\<lparr>mm_cap := cap, mm_units := mm_units m @ [u]\<rparr>)"
      using assms False c by (auto simp: map_ok_def disjoint_units_snoc)
    ultimately show thesis using added False by blast
  qed
qed

subsection \<open>The bus over devices that keep the contract\<close>

text \<open>
  The registry's client view: a family of references whose vtables obey the device contract
  over one store.  The dispatchers then never fault, keep the store's invariant, and are the
  only place a decode error comes from.
\<close>

locale mmio_bus =
  fixes vtbl :: "'d \<Rightarrow> 's MmioDeviceVtbl option"
    and inv :: "'s \<Rightarrow> bool"
    and regs :: "'s \<Rightarrow> 'r"
  assumes device: "\<exists>vt. vtbl d = Some vt \<and> mmio_device inv regs (vt_read vt) (vt_write vt)"
begin

lemma dispatch:
  obtains vt where "vtbl d = Some vt" "MmioDevice_read vtbl d = vt_read vt"
    "MmioDevice_write vtbl d = vt_write vt" "mmio_device inv regs (vt_read vt) (vt_write vt)"
proof -
  obtain vt where vt: "vtbl d = Some vt" "mmio_device inv regs (vt_read vt) (vt_write vt)"
    using device by blast
  moreover from vt have "MmioDevice_read vtbl d = vt_read vt" "MmioDevice_write vtbl d = vt_write vt"
    by (auto simp: fun_eq_iff MmioDevice_read_def MmioDevice_write_def)
  ultimately show thesis using that by blast
qed

lemma bus_device: "mmio_device inv regs (MmioDevice_read vtbl d) (MmioDevice_write vtbl d)"
  by (rule dispatch [of d]) simp

lemma bus_read_total:
  "inv s \<Longrightarrow> \<exists>r v' s'. MemoryMap_read vtbl m s addr w (Some v) = Inr (r, Some v', s')"
  using mmio_device.rd_total [OF bus_device]
  by (auto simp: MemoryMap_read_def split: option.splits)

lemma bus_read_inv:
  "inv s \<Longrightarrow> MemoryMap_read vtbl m s addr w p = Inr (r, q, s') \<Longrightarrow> inv s' \<and> regs s' = regs s"
  using mmio_device.rd_inv [OF bus_device]
  by (auto simp: MemoryMap_read_def split: option.splits)

lemma bus_read_resp:
  assumes "inv s" "MemoryMap_read vtbl m s addr w p = Inr (r, q, s')"
  shows "(r = AXI_RESP_DECERR \<longleftrightarrow> find_unit m addr w = None) \<and> r \<noteq> AXI_RESP_EXOKAY \<and>
    (r \<noteq> AXI_RESP_OKAY \<longrightarrow> q = zero_out p)"
proof (cases "find_unit m addr w")
  case None
  with assms show ?thesis by (auto simp: MemoryMap_read_def)
next
  case (Some u)
  with assms have "MmioDevice_read vtbl (u_device u) s (addr - u_base u) w p = Inr (r, q, s')"
    by (simp add: MemoryMap_read_def)
  with Some show ?thesis
    using mmio_device.rd_resp [OF bus_device assms(1)] mmio_device.rd_err [OF bus_device assms(1)]
    by fastforce
qed

lemma bus_read_width:
  "inv s \<Longrightarrow> MemoryMap_read vtbl m s addr w p = Inr (AXI_RESP_OKAY, q, s') \<Longrightarrow> axi_width w"
  using mmio_device.rd_width [OF bus_device]
  by (auto simp: MemoryMap_read_def split: option.splits)

lemma bus_write_total:
  "inv s \<Longrightarrow> \<exists>r s'. MemoryMap_write vtbl m s addr w v strb = Inr (r, s')"
  using mmio_device.wr_total [OF bus_device]
  by (auto simp: MemoryMap_write_def split: option.splits)

lemma bus_write_inv:
  "inv s \<Longrightarrow> MemoryMap_write vtbl m s addr w v strb = Inr (r, s') \<Longrightarrow> inv s'"
  using mmio_device.wr_inv [OF bus_device]
  by (auto simp: MemoryMap_write_def split: option.splits)

lemma bus_write_resp:
  assumes "inv s" "MemoryMap_write vtbl m s addr w v strb = Inr (r, s')"
  shows "(r = AXI_RESP_DECERR \<longleftrightarrow> find_unit m addr w = None) \<and> r \<noteq> AXI_RESP_EXOKAY \<and>
    (r \<noteq> AXI_RESP_OKAY \<longrightarrow> regs s' = regs s)"
proof (cases "find_unit m addr w")
  case None
  with assms show ?thesis by (auto simp: MemoryMap_write_def)
next
  case (Some u)
  with assms have "MmioDevice_write vtbl (u_device u) s (addr - u_base u) w v strb = Inr (r, s')"
    by (simp add: MemoryMap_write_def)
  with Some show ?thesis
    using mmio_device.wr_resp [OF bus_device assms(1)] mmio_device.wr_err [OF bus_device assms(1)]
    by fastforce
qed

lemma bus_write_width:
  "inv s \<Longrightarrow> MemoryMap_write vtbl m s addr w v strb = Inr (AXI_RESP_OKAY, s') \<Longrightarrow>
   axi_width w \<and> (w = 4 \<longrightarrow> strb = 0xF)"
  using mmio_device.wr_width [OF bus_device] mmio_device.wr_strb [OF bus_device]
  by (auto simp: MemoryMap_write_def split: option.splits)

end

end
