(* ===== verification/TickerReg.thy ===== *)
theory TickerReg
  imports HostEnv
begin

text \<open>
  The registry of tickables (\<open>devices/common/src/ticker.c\<close>, \<open>tickable.c\<close>): references in
  registration order, each ticked once per round.  A reference's tick function is its
  vtable's entry over the store; \<open>None\<close> is a \<open>NULL\<close> vtable.
\<close>

type_synonym 's tick_fn = "'s \<Rightarrow> fault + 's"

record 't Ticker =
  tk_cap :: size_t
  tickables :: "'t list"

definition default_tick :: "'s tick_fn" where
  "default_tick s = Inl Panic"

text \<open>What \<open>Tickable_ctor\<close> installs: the tick that panics until the concrete constructor replaces it.\<close>

definition Tickable_ctor :: "'s tick_fn option" where
  "Tickable_ctor = Some default_tick"

definition Tickable_tick :: "('t \<Rightarrow> 's tick_fn option) \<Rightarrow> 't \<Rightarrow> 's tick_fn" where
  "Tickable_tick vtbl self s = (case vtbl self of None \<Rightarrow> Inl Panic | Some f \<Rightarrow> f s)"

lemma tick_before_override: "vtbl self = Tickable_ctor \<Longrightarrow> Tickable_tick vtbl self s = Inl Panic"
  by (simp add: Tickable_tick_def Tickable_ctor_def default_tick_def)

definition sizeof_ptr :: nat where "sizeof_ptr = 8"

definition Ticker_ctor :: "host \<Rightarrow> rc \<times> 't Ticker option \<times> host" where
  "Ticker_ctor h =
     (let (ok, h) = heap_calloc 1 h
      in if \<not> ok then (Some ENOMEM, None, h)
         else (None, Some \<lparr>tk_cap = 0, tickables = []\<rparr>, h))"

definition Ticker_dtor :: "'t Ticker option \<Rightarrow> host \<Rightarrow> 't Ticker option \<times> host" where
  "Ticker_dtor self h =
     (case self of None \<Rightarrow> (None, h)
      | Some t \<Rightarrow> (None, heap_free False (heap_free (tk_cap t = 0) h)))"

definition Ticker_add :: "'t Ticker \<Rightarrow> 't \<Rightarrow> host \<Rightarrow> fault + (rc \<times> 't Ticker \<times> host)" where
  "Ticker_add self t h =
     (case grow_if_full (length (tickables self)) (tk_cap self) (of_nat sizeof_ptr) h of
        (None, h) \<Rightarrow> Inr (Some ENOMEM, self, h)
      | (Some cap, h) \<Rightarrow>
          if length (tickables self) < unat cap
          then Inr (None, self\<lparr>tk_cap := cap, tickables := tickables self @ [t]\<rparr>, h)
          else Inl OutOfBounds)"

fun tick_from :: "('t \<Rightarrow> 's tick_fn option) \<Rightarrow> 't list \<Rightarrow> 's tick_fn" where
  "tick_from vtbl [] s = Inr s"
| "tick_from vtbl (t # ts) s = bind_res (Tickable_tick vtbl t s) (tick_from vtbl ts)"

definition Ticker_tick_all :: "('t \<Rightarrow> 's tick_fn option) \<Rightarrow> 't Ticker \<Rightarrow> 's tick_fn" where
  "Ticker_tick_all vtbl self s = tick_from vtbl (tickables self) s"

definition ticker_ok :: "'t Ticker \<Rightarrow> bool" where
  "ticker_ok t \<longleftrightarrow> cap_ok (length (tickables t)) (tk_cap t) sizeof_ptr"

lemma grow_ticker_room:
  assumes "ticker_ok t" "grow_if_full (length (tickables t)) (tk_cap t) (of_nat sizeof_ptr) h = (Some cap, h')"
  shows "cap_ok (Suc (length (tickables t))) cap sizeof_ptr"
  using assms grow_if_full_ok [of "length (tickables t)" "tk_cap t" sizeof_ptr h cap h']
  by (simp add: ticker_ok_def sizeof_ptr_def)

lemma tick_from_append:
  "tick_from vtbl (ts @ us) s = bind_res (tick_from vtbl ts s) (tick_from vtbl us)"
proof (induction ts arbitrary: s)
  case (Cons t ts)
  then show ?case by (cases "Tickable_tick vtbl t s") auto
qed simp

text \<open>The contract of the registered objects: every tick returns and keeps the invariant.\<close>

locale tick_bus =
  fixes vtbl :: "'t \<Rightarrow> 's tick_fn option"
    and inv :: "'s \<Rightarrow> bool"
  assumes tick_total: "inv s \<Longrightarrow> \<exists>f s'. vtbl t = Some f \<and> f s = Inr s' \<and> inv s'"
begin

lemma tick_one: "inv s \<Longrightarrow> \<exists>s'. Tickable_tick vtbl t s = Inr s' \<and> inv s'"
  using tick_total [of s t] by (auto simp: Tickable_tick_def)

lemma tick_from_ok: "inv s \<Longrightarrow> \<exists>s'. tick_from vtbl ts s = Inr s' \<and> inv s'"
proof (induction ts arbitrary: s)
  case (Cons t ts)
  obtain s1 where "Tickable_tick vtbl t s = Inr s1" "inv s1"
    using tick_one [OF Cons.prems] by blast
  with Cons.IH show ?case by simp
qed simp

lemma tick_all_ok: "inv s \<Longrightarrow> \<exists>s'. Ticker_tick_all vtbl tk s = Inr s' \<and> inv s'"
  using tick_from_ok by (simp add: Ticker_tick_all_def)

end

end
