(* ===== verification/SnakeSoC.thy ===== *)
theory SnakeSoC
  imports Dev_BootROM Dev_Clint Dev_UART Dev_DRAM MemMap TickerReg
begin

text \<open>
  The composition (\<open>snake_soc/src/snake_soc.c\<close>): five devices, the address decoder over them
  and the ticker over three of them.  The store of a bus operation is the SoC and the host
  environment; the vtables of the embedded trait structs are the device operations lifted to
  that store.  The constructor and destructor are modelled with every allocation and every
  early exit.
\<close>

definition ADDR_BOOT_ROM :: uint32 where "ADDR_BOOT_ROM = 0x00000000"
definition SIZE_BOOT_ROM :: uint32 where "SIZE_BOOT_ROM = 0x00001000"
definition ADDR_CLINT :: uint32 where "ADDR_CLINT = 0x02000000"
definition ADDR_UART :: uint32 where "ADDR_UART = 0x10001000"
definition SIZE_UART :: uint32 where "SIZE_UART = 0x0000000C"
definition ADDR_IRQ_AGG :: uint32 where "ADDR_IRQ_AGG = 0x10004000"
definition ADDR_DRAM :: uint32 where "ADDR_DRAM = 0x80000000"

lemmas soc_addrs = ADDR_BOOT_ROM_def SIZE_BOOT_ROM_def ADDR_CLINT_def CLINT_SIZE_def ADDR_UART_def
  SIZE_UART_def ADDR_IRQ_AGG_def IRQ_AGG_SIZE_def ADDR_DRAM_def DRAM_DEFAULT_SIZE_def

text \<open>References to the trait structs embedded in the SoC.\<close>

datatype dev_ref = Ref_BootROM | Ref_Clint | Ref_UART | Ref_IrqAgg | Ref_DRAM
datatype tick_ref = Tick_Clint | Tick_UART | Tick_IrqAgg

text \<open>\<open>&self->mmio_super\<close> and \<open>&self->tick_super\<close>; the devices are embedded, so \<open>self\<close> is not
  \<open>NULL\<close> and the assertions on it hold.\<close>

definition Clint_as_mmio :: dev_ref where "Clint_as_mmio = Ref_Clint"
definition Clint_as_tickable :: tick_ref where "Clint_as_tickable = Tick_Clint"
definition UART_as_mmio :: dev_ref where "UART_as_mmio = Ref_UART"
definition UART_as_tickable :: tick_ref where "UART_as_tickable = Tick_UART"
definition IrqAgg_as_mmio :: dev_ref where "IrqAgg_as_mmio = Ref_IrqAgg"
definition IrqAgg_as_tickable :: tick_ref where "IrqAgg_as_tickable = Tick_IrqAgg"
definition DRAM_as_mmio :: dev_ref where "DRAM_as_mmio = Ref_DRAM"

lemmas trait_defs = Clint_as_mmio_def Clint_as_tickable_def UART_as_mmio_def UART_as_tickable_def
  IrqAgg_as_mmio_def IrqAgg_as_tickable_def DRAM_as_mmio_def

record SnakeSoC =
  boot_rom :: BootROM
  clint :: Clint
  uart :: UART
  irq_agg :: IrqAgg
  dram :: DRAM
  memmap :: "dev_ref MemoryMap"
  ticker :: "tick_ref Ticker"

type_synonym store = "SnakeSoC \<times> host"

text \<open>\<open>container_of\<close> and the update through it, per embedded struct.\<close>

definition get_rom :: "store \<Rightarrow> BootROM" where "get_rom s = boot_rom (fst s)"
definition put_rom :: "BootROM \<Rightarrow> store \<Rightarrow> store" where
  "put_rom r s = ((fst s)\<lparr>boot_rom := r\<rparr>, snd s)"
definition get_clint :: "store \<Rightarrow> Clint" where "get_clint s = clint (fst s)"
definition put_clint :: "Clint \<Rightarrow> store \<Rightarrow> store" where
  "put_clint c s = ((fst s)\<lparr>clint := c\<rparr>, snd s)"
definition get_uart :: "store \<Rightarrow> UART \<times> host" where "get_uart s = (uart (fst s), snd s)"
definition put_uart :: "UART \<times> host \<Rightarrow> store \<Rightarrow> store" where
  "put_uart u s = ((fst s)\<lparr>uart := fst u\<rparr>, snd u)"
definition get_irq :: "store \<Rightarrow> IrqAgg" where "get_irq s = irq_agg (fst s)"
definition put_irq :: "IrqAgg \<Rightarrow> store \<Rightarrow> store" where
  "put_irq a s = ((fst s)\<lparr>irq_agg := a\<rparr>, snd s)"
definition get_dram :: "store \<Rightarrow> DRAM" where "get_dram s = dram (fst s)"
definition put_dram :: "DRAM \<Rightarrow> store \<Rightarrow> store" where
  "put_dram d s = ((fst s)\<lparr>dram := d\<rparr>, snd s)"

lemmas lens_defs = get_rom_def put_rom_def get_clint_def put_clint_def get_uart_def put_uart_def
  get_irq_def put_irq_def get_dram_def put_dram_def

fun soc_vtbl :: "dev_ref \<Rightarrow> store MmioDeviceVtbl option" where
  "soc_vtbl Ref_BootROM = Some (lift_vtbl get_rom put_rom BootROM_vtbl)"
| "soc_vtbl Ref_Clint = Some (lift_vtbl get_clint put_clint Clint_vtbl)"
| "soc_vtbl Ref_UART = Some (lift_vtbl get_uart put_uart UART_vtbl)"
| "soc_vtbl Ref_IrqAgg = Some (lift_vtbl get_irq put_irq IrqAgg_vtbl)"
| "soc_vtbl Ref_DRAM = Some (lift_vtbl get_dram put_dram DRAM_vtbl)"

definition tick_clint :: "store tick_fn" where
  "tick_clint s = Inr (put_clint (Clint_Tickable_tick (get_clint s)) s)"

definition tick_uart :: "store tick_fn" where
  "tick_uart s =
     (let (u, a, h) = UART_Tickable_tick (uart (fst s)) (irq_agg (fst s)) (snd s)
      in Inr ((fst s)\<lparr>uart := u, irq_agg := a\<rparr>, h))"

definition tick_irq :: "store tick_fn" where
  "tick_irq s = Inr (put_irq (IrqAgg_Tickable_tick (get_irq s)) s)"

fun soc_tick_vtbl :: "tick_ref \<Rightarrow> store tick_fn option" where
  "soc_tick_vtbl Tick_Clint = Some tick_clint"
| "soc_tick_vtbl Tick_UART = Some tick_uart"
| "soc_tick_vtbl Tick_IrqAgg = Some tick_irq"

definition register_unit ::
  "dev_ref MemoryMap \<Rightarrow> addr_t \<Rightarrow> size_t \<Rightarrow> dev_ref \<Rightarrow> host \<Rightarrow>
   fault + (rc \<times> dev_ref MemoryMap \<times> host)" where
  "register_unit m base sz dev h =
     MemoryMap_add_device m \<lparr>u_base = base, u_size = sz, u_device = dev\<rparr> h"

text \<open>The chain \<open>(rc = register_unit(..)) != 0 || ...\<close>: it stops at the first failure.\<close>

fun register_units ::
  "(addr_t \<times> size_t \<times> dev_ref) list \<Rightarrow> dev_ref MemoryMap \<Rightarrow> host \<Rightarrow>
   fault + (rc \<times> dev_ref MemoryMap \<times> host)" where
  "register_units [] m h = Inr (None, m, h)"
| "register_units ((base, sz, dev) # us) m h =
     bind_res (register_unit m base sz dev h) (\<lambda>(rc, m, h).
       if rc \<noteq> None then Inr (rc, m, h) else register_units us m h)"

definition soc_unit_list :: "DRAM \<Rightarrow> (addr_t \<times> size_t \<times> dev_ref) list" where
  "soc_unit_list d =
     [(ADDR_BOOT_ROM, ucast SIZE_BOOT_ROM, Ref_BootROM),
      (ADDR_CLINT, ucast CLINT_SIZE, Clint_as_mmio),
      (ADDR_UART, ucast SIZE_UART, UART_as_mmio),
      (ADDR_IRQ_AGG, ucast IRQ_AGG_SIZE, IrqAgg_as_mmio),
      (ADDR_DRAM, DRAM_size_bytes d, DRAM_as_mmio)]"

definition add_tickables :: "tick_ref Ticker \<Rightarrow> host \<Rightarrow> fault + (tick_ref Ticker \<times> host)" where
  \<comment> \<open>the three return codes are not tested\<close>
  "add_tickables t h =
     bind_res (Ticker_add t Clint_as_tickable h) (\<lambda>(_, t, h).
     bind_res (Ticker_add t UART_as_tickable h) (\<lambda>(_, t, h).
     bind_res (Ticker_add t IrqAgg_as_tickable h) (\<lambda>(_, t, h).
     Inr (t, h))))"

text \<open>The two stages after the devices: the memory map with its five registrations, and the
  ticker.  Each failure tears down what was built, newest first.\<close>

definition SnakeSoC_ctor_ticker ::
  "BootROM \<Rightarrow> Clint \<Rightarrow> UART \<Rightarrow> IrqAgg \<Rightarrow> DRAM \<Rightarrow> dev_ref MemoryMap \<Rightarrow> host \<Rightarrow>
   fault + (rc \<times> SnakeSoC option \<times> host)" where
  "SnakeSoC_ctor_ticker br cl ua ag d m h =
     (let (rc, tk, h) = Ticker_ctor h in
      if rc \<noteq> None
      then Inr (rc, None, heap_free False (snd (DRAM_dtor (Some d) (snd (MemoryMap_dtor (Some m) h)))))
      else (case tk of None \<Rightarrow> Inl NullDeref
            | Some t \<Rightarrow> bind_res (add_tickables t h) (\<lambda>(t, h).
                Inr (None, Some \<lparr>boot_rom = br, clint = cl, uart = ua, irq_agg = ag, dram = d,
                                 memmap = m, ticker = t\<rparr>, h))))"

definition SnakeSoC_ctor_map ::
  "BootROM \<Rightarrow> Clint \<Rightarrow> UART \<Rightarrow> IrqAgg \<Rightarrow> DRAM \<Rightarrow> host \<Rightarrow> fault + (rc \<times> SnakeSoC option \<times> host)"
where
  "SnakeSoC_ctor_map br cl ua ag d h =
     (let (rc, m, h) = MemoryMap_ctor h in
      if rc \<noteq> None then Inr (rc, None, heap_free False (snd (DRAM_dtor (Some d) h)))
      else (case m of None \<Rightarrow> Inl NullDeref
            | Some m \<Rightarrow> bind_res (register_units (soc_unit_list d) m h) (\<lambda>(rc, m, h).
                if rc \<noteq> None
                then Inr (rc, None, heap_free False (snd (DRAM_dtor (Some d) (snd (MemoryMap_dtor (Some m) h)))))
                else SnakeSoC_ctor_ticker br cl ua ag d m h)))"

definition SnakeSoC_ctor :: "stream option \<Rightarrow> host \<Rightarrow> fault + (rc \<times> SnakeSoC option \<times> host)" where
  "SnakeSoC_ctor f h =
     (let (ok, h) = heap_calloc 1 h in
      if \<not> ok then Inr (Some ENOMEM, None, h)
      else bind_res BootROM_ctor (\<lambda>br.
        let cl = Clint_ctor;
            ua = UART_ctor f True;
            ag = IrqAgg_ctor;
            ua = UART_set_irq_agg ua True
        in bind_res (DRAM_ctor (ucast DRAM_DEFAULT_SIZE) DRAM_MODEL_IDEAL h) (\<lambda>(rc, d, h).
             if rc \<noteq> None then Inr (rc, None, heap_free False h)
             else (case d of None \<Rightarrow> Inl NullDeref
                   | Some d \<Rightarrow> SnakeSoC_ctor_map br cl ua ag d h))))"

definition SnakeSoC_dtor :: "SnakeSoC option \<Rightarrow> host \<Rightarrow> SnakeSoC option \<times> host" where
  "SnakeSoC_dtor self h =
     (case self of None \<Rightarrow> (None, h)
      | Some soc \<Rightarrow>
          let (_, h) = Ticker_dtor (Some (ticker soc)) h;
              (_, h) = MemoryMap_dtor (Some (memmap soc)) h;
              (_, h) = DRAM_dtor (Some (dram soc)) h
          in (None, heap_free False h))"

definition SnakeSoC_msip_wire :: "SnakeSoC \<Rightarrow> bool" where
  "SnakeSoC_msip_wire self = Clint_msip (clint self)"
definition SnakeSoC_mtip_wire :: "SnakeSoC \<Rightarrow> bool" where
  "SnakeSoC_mtip_wire self = Clint_mtip (clint self)"
definition SnakeSoC_meip_wire :: "SnakeSoC \<Rightarrow> bool" where
  "SnakeSoC_meip_wire self = IrqAgg_meip (irq_agg self)"

text \<open>The SoC's bus and clock, as the testbench drives them through \<open>SnakeSoC_memory_map\<close> and
  \<open>SnakeSoC_ticker\<close>.\<close>

definition soc_read :: "store mmio_read" where
  "soc_read s addr width value_out = MemoryMap_read soc_vtbl (memmap (fst s)) s addr width value_out"

definition soc_write :: "store mmio_write" where
  "soc_write s addr width value strb = MemoryMap_write soc_vtbl (memmap (fst s)) s addr width value strb"

definition soc_tick :: "store tick_fn" where
  "soc_tick s = Ticker_tick_all soc_tick_vtbl (ticker (fst s)) s"

subsection \<open>The constructed SoC\<close>

definition soc_map :: "dev_ref MemoryMap" where
  "soc_map = \<lparr>mm_cap = 8, mm_units =
     [\<lparr>u_base = 0, u_size = 0x1000, u_device = Ref_BootROM\<rparr>,
      \<lparr>u_base = 0x02000000, u_size = 0x10000, u_device = Ref_Clint\<rparr>,
      \<lparr>u_base = 0x10001000, u_size = 12, u_device = Ref_UART\<rparr>,
      \<lparr>u_base = 0x10004000, u_size = 0x1000, u_device = Ref_IrqAgg\<rparr>,
      \<lparr>u_base = 0x80000000, u_size = 0x4000000, u_device = Ref_DRAM\<rparr>]\<rparr>"

definition soc_ticker :: "tick_ref Ticker" where
  "soc_ticker = \<lparr>tk_cap = 4, tickables = [Tick_Clint, Tick_UART, Tick_IrqAgg]\<rparr>"

definition soc0 :: "stream option \<Rightarrow> SnakeSoC" where
  "soc0 f =
     \<lparr>boot_rom = \<lparr>rom = \<lparr>arr_len = 4096, arr_at = boot_image\<rparr>\<rparr>,
      clint = \<lparr>msip = 0, mtime = 0, mtimecmp = 0xFFFFFFFFFFFFFFFF\<rparr>,
      uart = \<lparr>uart_out = f, terminal = True, uart_irq = True, rx_byte = 0, rx_valid = False\<rparr>,
      irq_agg = \<lparr>pending = 0, enable = 0, uart_rx_edge = False\<rparr>,
      dram = \<lparr>model = DRAM_MODEL_IDEAL, backing = arr_zero 0x4000000, size_bytes = 0x4000000\<rparr>,
      memmap = soc_map, ticker = soc_ticker\<rparr>"

end
