(* ===== verification/SocBus.thy ===== *)
theory SocBus
  imports SnakeSoC
begin

text \<open>
  The SoC's invariant, its bus as an instance of \<open>mmio_bus\<close>, its clock as an instance of
  \<open>tick_bus\<close>, the decoding of addresses, and the memory behaviour of DRAM and boot ROM as
  seen from the bus.
\<close>

definition soc_inv :: "store \<Rightarrow> bool" where
  "soc_inv s \<longleftrightarrow>
     rom (boot_rom (fst s)) = \<lparr>arr_len = 4096, arr_at = boot_image\<rparr> \<and>
     clint_inv (clint (fst s)) \<and> uart_inv (uart (fst s)) \<and> irq_inv (irq_agg (fst s)) \<and>
     dram_inv (dram (fst s)) \<and> size_bytes (dram (fst s)) = 0x4000000 \<and>
     memmap (fst s) = soc_map"

text \<open>What software can observe: the SoC and the characters written.\<close>

definition soc_regs :: "store \<Rightarrow> SnakeSoC \<times> (stream \<Rightarrow> uint8 list)" where
  "soc_regs s = (fst s, h_out (snd s))"

lemma rom_fixed: "BootROM_MmioDevice_write r off w v strb = Inr (x, r') \<Longrightarrow> r' = r"
  by (simp add: BootROM_MmioDevice_write_def)

lemma size_fixed:
  "dram_inv d \<Longrightarrow> DRAM_MmioDevice_write d off w v strb = Inr (x, d') \<Longrightarrow> size_bytes d' = size_bytes d"
  using dram_write_cases [of d off w v strb] by (metis dram_store_sel(1) prod.inject sum.inject(2))

text \<open>The ROM's content and DRAM's size are part of what their devices keep.\<close>

lemma rom_image_dev:
  "mmio_device (\<lambda>r. rom r = \<lparr>arr_len = 4096, arr_at = boot_image\<rparr>) (\<lambda>r. r)
     BootROM_MmioDevice_read BootROM_MmioDevice_write"
proof (rule rom_dev.strengthen)
  fix s off w p r q s'
  assume "rom s = \<lparr>arr_len = 4096, arr_at = boot_image\<rparr>" "BootROM_MmioDevice_read s off w p = Inr (r, q, s')"
  then show "rom s' = \<lparr>arr_len = 4096, arr_at = boot_image\<rparr>"
    using rom_read_cases [of s off w p r q s'] by (simp add: rom_inv_def)
qed (auto simp: rom_inv_def dest: rom_fixed)

lemma dram_size_dev:
  "mmio_device (\<lambda>d. dram_inv d \<and> size_bytes d = 0x4000000) (\<lambda>d. d)
     DRAM_MmioDevice_read DRAM_MmioDevice_write"
proof (rule dram_dev.strengthen)
  fix s off w p r q s'
  assume "dram_inv s \<and> size_bytes s = 0x4000000" "DRAM_MmioDevice_read s off w p = Inr (r, q, s')"
  then show "dram_inv s' \<and> size_bytes s' = 0x4000000"
    using dram_read_cases [of s off w p r q s'] by simp
next
  fix s off w val strb r s'
  assume "dram_inv s \<and> size_bytes s = 0x4000000" "DRAM_MmioDevice_write s off w val strb = Inr (r, s')"
  then show "dram_inv s' \<and> size_bytes s' = 0x4000000"
    using dram_dev.wr_inv [of s off w val strb r s'] size_fixed [of s off w val strb r s'] by simp
qed simp

interpretation rom_part: device_part "\<lambda>r. rom r = \<lparr>arr_len = 4096, arr_at = boot_image\<rparr>" "\<lambda>r. r"
  BootROM_MmioDevice_read BootROM_MmioDevice_write get_rom put_rom soc_inv soc_regs
  by (intro device_part.intro rom_image_dev, unfold_locales)
    (auto simp: soc_inv_def soc_regs_def lens_defs)

interpretation clint_part: device_part clint_inv "\<lambda>c. c"
  Clint_MmioDevice_read Clint_MmioDevice_write get_clint put_clint soc_inv soc_regs
  by unfold_locales (auto simp: soc_inv_def soc_regs_def lens_defs)

interpretation uart_part: device_part "\<lambda>(u, h). uart_inv u" "\<lambda>(u, h). (u, h_out h)"
  UART_MmioDevice_read UART_MmioDevice_write get_uart put_uart soc_inv soc_regs
  by unfold_locales (auto simp: soc_inv_def soc_regs_def lens_defs split: prod.splits)

interpretation irq_part: device_part irq_inv "\<lambda>a. a"
  IrqAgg_MmioDevice_read IrqAgg_MmioDevice_write get_irq put_irq soc_inv soc_regs
  by unfold_locales (auto simp: soc_inv_def soc_regs_def lens_defs)

interpretation dram_part: device_part "\<lambda>d. dram_inv d \<and> size_bytes d = 0x4000000" "\<lambda>d. d"
  DRAM_MmioDevice_read DRAM_MmioDevice_write get_dram put_dram soc_inv soc_regs
  by (intro device_part.intro dram_size_dev, unfold_locales)
    (auto simp: soc_inv_def soc_regs_def lens_defs)

lemmas vtbl_defs = BootROM_vtbl_def Clint_vtbl_def UART_vtbl_def IrqAgg_vtbl_def DRAM_vtbl_def

interpretation soc_bus: mmio_bus soc_vtbl soc_inv soc_regs
proof
  fix d
  show "\<exists>vt. soc_vtbl d = Some vt \<and> mmio_device soc_inv soc_regs (vt_read vt) (vt_write vt)"
    using rom_part.whole.mmio_device_axioms clint_part.whole.mmio_device_axioms
      uart_part.whole.mmio_device_axioms irq_part.whole.mmio_device_axioms
      dram_part.whole.mmio_device_axioms
    by (cases d) (simp_all add: vtbl_defs)
qed

lemma uart_tick_inv:
  assumes "UART_Tickable_tick u a h = (u', a', h')" "uart_inv u" "irq_inv a"
  shows "uart_inv u' \<and> irq_inv a'"
  using assms by (auto simp: UART_Tickable_tick_def uart_inv_def split: if_splits prod.splits option.splits)

interpretation soc_clock: tick_bus soc_tick_vtbl soc_inv
proof
  fix s t assume s: "soc_inv s"
  show "\<exists>f s'. soc_tick_vtbl t = Some f \<and> f s = Inr s' \<and> soc_inv s'"
  proof (cases t)
    case Tick_Clint
    with s show ?thesis by (simp add: tick_clint_def soc_inv_def lens_defs)
  next
    case Tick_UART
    with s show ?thesis
      using uart_tick_inv [of "uart (fst s)" "irq_agg (fst s)" "snd s"]
      by (simp add: tick_uart_def soc_inv_def Let_def split: prod.splits)
  next
    case Tick_IrqAgg
    with s show ?thesis by (simp add: tick_irq_def soc_inv_def lens_defs irq_inv_tick)
  qed
qed

lemma soc_inv_soc0: "soc_inv (soc0 f, h)" "soc_inv ((soc0 f)\<lparr>ticker := t\<rparr>, h)"
  by (simp_all add: soc_inv_def soc0_def clint_inv_def uart_inv_def irq_inv_def dram_inv_def)

subsection \<open>Decoding\<close>

lemma soc_map_ok: "map_ok soc_map"
  by (simp add: map_ok_def soc_map_def unit_ok_def disjoint_units_def unit_range_def cap_ok_def sizeof_unit_def)

text \<open>The address map as a table over the naturals: which device an access from \<open>a\<close> to the end
  \<open>e\<close> goes to.  The code computes the end in 32 bits, so the end of an access that runs past the
  top of the address space is a small number.\<close>

definition decode_range :: "nat \<Rightarrow> nat \<Rightarrow> dev_ref option" where
  "decode_range a e =
     (if e \<le> 0x1000 then Some Ref_BootROM
      else if 0x02000000 \<le> a \<and> e \<le> 0x02010000 then Some Ref_Clint
      else if 0x10001000 \<le> a \<and> e \<le> 0x1000100C then Some Ref_UART
      else if 0x10004000 \<le> a \<and> e \<le> 0x10005000 then Some Ref_IrqAgg
      else if 0x80000000 \<le> a \<and> e \<le> 0x84000000 then Some Ref_DRAM
      else None)"

definition decode_spec :: "nat \<Rightarrow> nat \<Rightarrow> dev_ref option" where
  "decode_spec a n = decode_range a (a + n)"

lemmas decode_defs = decode_spec_def decode_range_def

lemma wrapped_end:
  fixes a :: addr_t and w :: size_t
  shows "unat (a + ucast w) = (unat a + unat w) mod 2 ^ 32"
  by (simp add: unat_word_ariths unsigned_ucast_eq take_bit_eq_mod mod_add_right_eq)

lemma find_unit_range:
  "map_option u_device (find_unit soc_map addr w) = decode_range (unat addr) ((unat addr + unat w) mod 2 ^ 32)"
  unfolding wrapped_end [symmetric]
  by (simp add: find_unit_def soc_map_def decode_range_def word_le_nat_alt Let_def)

lemma find_unit_decode:
  assumes "access_ok addr w"
  shows "map_option u_device (find_unit soc_map addr w) = decode_spec (unat addr) (unat w)"
  using assms by (simp add: find_unit_range decode_spec_def access_ok_def)

subsection \<open>Memory as seen from the bus\<close>

text \<open>An aligned access of a valid width inside the DRAM window.\<close>

definition dram_addr :: "addr_t \<Rightarrow> size_t \<Rightarrow> bool" where
  "dram_addr addr w \<longleftrightarrow> axi_width w \<and> unat addr mod unat w = 0 \<and>
     0x80000000 \<le> unat addr \<and> unat addr + unat w \<le> 0x84000000"

definition dram_bytes :: "store \<Rightarrow> nat \<Rightarrow> uint8" where
  "dram_bytes s = arr_at (backing (dram (fst s)))"

lemma dram_addr_facts:
  assumes "dram_addr addr w"
  shows "find_unit soc_map addr w = Some \<lparr>u_base = 0x80000000, u_size = 0x4000000, u_device = Ref_DRAM\<rparr>"
    and "unat (addr - 0x80000000) = unat addr - 0x80000000"
    and "(unat addr - 0x80000000) mod unat w = 0"
proof -
  have w: "unat w \<in> {1, 2, 4}" using assms axi_width_unat by (auto simp: dram_addr_def)
  have "unat (addr + ucast w) = unat addr + unat w"
    using assms by (intro add_no_wrap) (auto simp: dram_addr_def)
  then show "find_unit soc_map addr w = Some \<lparr>u_base = 0x80000000, u_size = 0x4000000, u_device = Ref_DRAM\<rparr>"
    using assms w by (auto simp: find_unit_def soc_map_def word_le_nat_alt Let_def dram_addr_def)
  show "unat (addr - 0x80000000) = unat addr - 0x80000000"
    using assms by (subst unat_sub) (auto simp: dram_addr_def word_le_nat_alt)
  show "(unat addr - 0x80000000) mod unat w = 0"
    using assms w by (auto simp: dram_addr_def mod_eq_0_iff_dvd)
qed

lemma soc_read_dram:
  assumes "soc_inv s" "dram_addr addr w"
  shows "soc_read s addr w (Some v) =
    Inr (AXI_RESP_OKAY, Some (le_value (dram_bytes s) (unat addr - 0x80000000) (unat w)), s)"
proof -
  have ok: "dram_access_ok (dram (fst s)) (addr - 0x80000000) w" and i: "dram_inv (dram (fst s))"
    using assms dram_addr_facts [OF assms(2)]
    by (auto simp: dram_access_ok_def soc_inv_def dram_addr_def)
  have m: "memmap (fst s) = soc_map" using assms by (simp add: soc_inv_def)
  show ?thesis
    using dram_read_okay(1) [OF i ok] dram_addr_facts [OF assms(2)]
    by (simp add: soc_read_def m MemoryMap_read_def MmioDevice_read_def lift_read_def vtbl_defs
        lens_defs dram_bytes_def)
qed

lemma soc_write_dram:
  assumes "soc_inv s" "dram_addr addr w" "w = 4 \<longrightarrow> strb = 0xF"
  shows "soc_write s addr w v strb =
    Inr (AXI_RESP_OKAY, put_dram (dram_store (dram (fst s)) (addr - 0x80000000) w v strb) s)"
proof -
  have ok: "dram_access_ok (dram (fst s)) (addr - 0x80000000) w" and i: "dram_inv (dram (fst s))"
    using assms dram_addr_facts [OF assms(2)]
    by (auto simp: dram_access_ok_def soc_inv_def dram_addr_def)
  have m: "memmap (fst s) = soc_map" using assms by (simp add: soc_inv_def)
  show ?thesis
    using dram_write_okay [OF i ok, of strb v] dram_addr_facts [OF assms(2)] assms(3)
    by (simp add: soc_write_def m MemoryMap_write_def MmioDevice_write_def lift_write_def vtbl_defs lens_defs)
qed

lemma dram_bytes_store:
  "dram_addr addr w \<Longrightarrow> dram_bytes (put_dram (dram_store (dram (fst s)) (addr - 0x80000000) w v strb) s) =
   strobed (dram_bytes s) (unat addr - 0x80000000) (unat w) v strb"
  using dram_addr_facts(2) by (simp add: dram_bytes_def lens_defs)

lemma soc_inv_store [simp]:
  "soc_inv (put_dram (dram_store (dram (fst s)) off w v strb) s) = soc_inv s"
  by (simp add: soc_inv_def lens_defs)

end
