(* ===== verification/SocSystem.thy ===== *)
theory SocSystem
  imports SocBus
begin

text \<open>
  The running SoC as a state machine: bus reads and writes by the processor, clock ticks, and
  input arriving at the terminal, in any order.  The lemmas give the effect of each operation
  on the interrupt path and on the received bytes; the invariants of all reachable states
  follow by rule induction.
\<close>

datatype soc_op =
    OpRead addr_t size_t
  | OpWrite addr_t size_t uint32 uint8
  | OpTick
  | OpInput "uint8 option list"

inductive soc_step :: "store \<Rightarrow> soc_op \<Rightarrow> store \<Rightarrow> bool" where
  do_read: "soc_read s a w (Some v) = Inr (r, q, s') \<Longrightarrow> soc_step s (OpRead a w) s'"
| do_write: "soc_write s a w v strb = Inr (r, s') \<Longrightarrow> soc_step s (OpWrite a w v strb) s'"
| do_tick: "soc_tick s = Inr s' \<Longrightarrow> soc_step s OpTick s'"
| do_input: "soc_step (t, h) (OpInput bs) (t, h\<lparr>h_stdin := h_stdin h @ bs\<rparr>)"

inductive_cases soc_step_readE: "soc_step s (OpRead a w) s'"
inductive_cases soc_step_writeE: "soc_step s (OpWrite a w v strb) s'"
inductive_cases soc_step_tickE: "soc_step s OpTick s'"
inductive_cases soc_step_inputE: "soc_step s (OpInput bs) s'"

lemmas soc_step_cases = soc_step_readE soc_step_writeE soc_step_tickE soc_step_inputE

text \<open>A write that software uses to take a received byte: a 1 to the valid bit of the UART's
  status register.  A run records the bytes taken.\<close>

fun pops :: "soc_op \<Rightarrow> bool" where
  "pops (OpWrite a w v strb) \<longleftrightarrow>
     a = 0x10001004 \<and> axi_width w \<and> (w = 4 \<longrightarrow> strb = 0xF) \<and> v AND 2 \<noteq> 0"
| "pops op \<longleftrightarrow> False"

definition popped :: "store \<Rightarrow> soc_op \<Rightarrow> uint8 list" where
  "popped s op = (if pops op \<and> rx_valid (uart (fst s)) then [rx_byte (uart (fst s))] else [])"

fun fed :: "soc_op \<Rightarrow> uint8 list" where
  "fed (OpInput bs) = List.map_filter id bs"
| "fed op = []"

inductive soc_run :: "store \<Rightarrow> soc_op list \<Rightarrow> uint8 list \<Rightarrow> store \<Rightarrow> bool" where
  stop: "soc_run s [] [] s"
| step: "soc_step s op s1 \<Longrightarrow> soc_run s1 ops bs s' \<Longrightarrow> soc_run s (op # ops) (popped s op @ bs) s'"

subsection \<open>Reads change nothing\<close>

lemma vtbl_read_same:
  assumes "soc_inv s" "MmioDevice_read soc_vtbl d s off w p = Inr (r, q, s')"
  shows "s' = s"
  using assms
  by (cases d)
    (auto simp: MmioDevice_read_def vtbl_defs lift_read_Inr lens_defs soc_inv_def rom_inv_def
      dest!: rom_read_cases [rotated] clint_read_cases uart_read_cases irq_read_cases dram_read_cases [rotated])

lemma soc_read_same: "soc_inv s \<Longrightarrow> soc_read s a w p = Inr (r, q, s') \<Longrightarrow> s' = s"
  by (auto simp: soc_read_def MemoryMap_read_def split: option.splits dest: vtbl_read_same)

subsection \<open>Writes, device by device\<close>

lemma find_unit_from_mem:
  "find_unit_from us a w = Some u \<Longrightarrow> u \<in> set us \<and> u_base u \<le> a"
  by (induction us) (auto simp: Let_def split: if_splits)

lemma soc_unit_base:
  "find_unit soc_map a w = Some u \<Longrightarrow> u_base u \<le> a \<and>
   u_base u = (case u_device u of Ref_BootROM \<Rightarrow> 0 | Ref_Clint \<Rightarrow> 0x02000000 | Ref_UART \<Rightarrow> 0x10001000
     | Ref_IrqAgg \<Rightarrow> 0x10004000 | Ref_DRAM \<Rightarrow> 0x80000000)"
  using find_unit_from_mem [of "mm_units soc_map" a w u]
  by (auto simp: find_unit_def) (auto simp: soc_map_def)

text \<open>A write that is not decoded to a device does not change that device's part.\<close>

lemma vtbl_write_part:
  assumes "MmioDevice_write soc_vtbl d s off w v strb = Inr (r, s')"
  shows "d \<noteq> Ref_UART \<Longrightarrow> uart (fst s') = uart (fst s) \<and> snd s' = snd s"
    and "d \<noteq> Ref_IrqAgg \<Longrightarrow> irq_agg (fst s') = irq_agg (fst s)"
    and "d \<noteq> Ref_Clint \<Longrightarrow> clint (fst s') = clint (fst s)"
    and "d \<noteq> Ref_DRAM \<Longrightarrow> dram (fst s') = dram (fst s)"
    and "boot_rom (fst s') = boot_rom (fst s)" "memmap (fst s') = memmap (fst s)"
      "ticker (fst s') = ticker (fst s)"
  using assms rom_fixed
  by (cases d; auto simp: MmioDevice_write_def vtbl_defs lift_write_Inr lens_defs)+

lemma soc_write_ticker:
  "soc_write s a w v strb = Inr (r, s') \<Longrightarrow> ticker (fst s') = ticker (fst s)"
  by (auto simp: soc_write_def MemoryMap_write_def split: option.splits dest: vtbl_write_part(7))

lemma soc_write_uart:
  assumes "soc_write s a w v strb = Inr (r, s')" "memmap (fst s) = soc_map"
  shows "uart (fst s') = uart (fst s) \<and> snd s' = snd s \<or>
    UART_MmioDevice_write (uart (fst s), snd s) (a - 0x10001000) w v strb = Inr (r, uart (fst s'), snd s')"
proof (cases "find_unit soc_map a w")
  case None
  with assms show ?thesis by (simp add: soc_write_def MemoryMap_write_def)
next
  case (Some u)
  with assms have d: "MmioDevice_write soc_vtbl (u_device u) s (a - u_base u) w v strb = Inr (r, s')"
    by (simp add: soc_write_def MemoryMap_write_def)
  show ?thesis
  proof (cases "u_device u = Ref_UART")
    case False
    with vtbl_write_part(1) [OF d] show ?thesis by simp
  next
    case True
    with d soc_unit_base [OF Some] show ?thesis
      by (auto simp: MmioDevice_write_def vtbl_defs lift_write_Inr lens_defs)
  qed
qed

lemma soc_write_irq:
  assumes "soc_write s a w v strb = Inr (r, s')" "memmap (fst s) = soc_map"
  shows "irq_agg (fst s') = irq_agg (fst s) \<or>
    IrqAgg_MmioDevice_write (irq_agg (fst s)) (a - 0x10004000) w v strb = Inr (r, irq_agg (fst s'))"
proof (cases "find_unit soc_map a w")
  case None
  with assms show ?thesis by (simp add: soc_write_def MemoryMap_write_def)
next
  case (Some u)
  with assms have d: "MmioDevice_write soc_vtbl (u_device u) s (a - u_base u) w v strb = Inr (r, s')"
    by (simp add: soc_write_def MemoryMap_write_def)
  show ?thesis
  proof (cases "u_device u = Ref_IrqAgg")
    case False
    with vtbl_write_part(2) [OF d] show ?thesis by simp
  next
    case True
    with d soc_unit_base [OF Some] show ?thesis
      by (auto simp: MmioDevice_write_def vtbl_defs lift_write_Inr lens_defs)
  qed
qed

lemma irq_write_edge:
  "IrqAgg_MmioDevice_write g off w v strb = Inr (r, g') \<Longrightarrow> uart_rx_edge g' = uart_rx_edge g"
  by (auto simp: IrqAgg_MmioDevice_write_def split: if_splits)

lemma soc_write_irq_edge:
  assumes "soc_write s a w v strb = Inr (r, s')" "memmap (fst s) = soc_map"
  shows "uart_rx_edge (irq_agg (fst s')) = uart_rx_edge (irq_agg (fst s))"
  using soc_write_irq [OF assms] irq_write_edge by metis

subsection \<open>One clock tick\<close>

text \<open>The three tickables in the order of registration.\<close>

definition ticked :: "store \<Rightarrow> store" where
  "ticked s =
     (let (u, a, h) = UART_Tickable_tick (uart (fst s)) (irq_agg (fst s)) (snd s)
      in ((fst s)\<lparr>clint := Clint_Tickable_tick (clint (fst s)), uart := u, irq_agg := IrqAgg_Tickable_tick a\<rparr>, h))"

lemma soc_tick_ticked: "ticker (fst s) = soc_ticker \<Longrightarrow> soc_tick s = Inr (ticked s)"
  by (simp add: soc_tick_def Ticker_tick_all_def soc_ticker_def Tickable_tick_def
      tick_clint_def tick_uart_def tick_irq_def ticked_def lens_defs Let_def split: prod.splits)

lemma ticked_inv: "soc_inv s \<Longrightarrow> soc_inv (ticked s)"
  using uart_tick_inv [of "uart (fst s)" "irq_agg (fst s)" "snd s"]
  by (simp add: ticked_def soc_inv_def irq_inv_tick split: prod.splits)

lemma ticked_ticker: "ticker (fst (ticked s)) = ticker (fst s)"
  by (simp add: ticked_def split: prod.splits)

lemma ticked_edge: "\<not> uart_rx_edge (irq_agg (fst (ticked s)))"
  by (simp add: ticked_def IrqAgg_Tickable_tick_def split: prod.splits)

lemma ticked_clint: "clint (fst (ticked s)) = Clint_Tickable_tick (clint (fst s))"
  by (simp add: ticked_def split: prod.splits)

text \<open>A byte that arrives is latched, signalled and pending within the same tick.\<close>

lemma ticked_receive:
  assumes "\<not> rx_valid (uart (fst s))" "terminal (uart (fst s))" "uart_irq (uart (fst s))"
    and "h_stdin (snd s) = Some b # bs"
  shows "rx_valid (uart (fst (ticked s))) \<and> rx_byte (uart (fst (ticked s))) = b \<and>
    pending (irq_agg (fst (ticked s))) = pending (irq_agg (fst s)) OR 1 \<and>
    enable (irq_agg (fst (ticked s))) = enable (irq_agg (fst s)) \<and> h_stdin (snd (ticked s)) = bs"
  using assms
  by (simp add: ticked_def UART_Tickable_tick_def terminal_backend_try_read_def host_read1_def
      IrqAgg_set_uart_rx_edge_def IrqAgg_Tickable_tick_def irq_consts)

subsection \<open>Steps\<close>

text \<open>What every operation keeps: the SoC's invariant, the wiring, and a low edge wire between
  ticks.\<close>

text \<open>The stream the UART writes to.\<close>

definition out_stream :: "SnakeSoC \<Rightarrow> stream" where
  "out_stream t = (case uart_out (uart t) of Some f \<Rightarrow> f | None \<Rightarrow> Stdout)"

definition sys_inv :: "store \<Rightarrow> bool" where
  "sys_inv s \<longleftrightarrow> soc_inv s \<and> ticker (fst s) = soc_ticker \<and> \<not> uart_rx_edge (irq_agg (fst s)) \<and>
     terminal (uart (fst s)) \<and> uart_irq (uart (fst s))"

lemma sys_inv_soc0: "sys_inv (soc0 f, h)"
  using soc_inv_soc0(1) [of f h] by (simp add: sys_inv_def) (simp add: soc0_def)

lemma uart_wiring:
  "UART_MmioDevice_write (u, h) off w v strb = Inr (r, u', h') \<Longrightarrow>
   terminal u' = terminal u \<and> uart_irq u' = uart_irq u"
  "UART_Tickable_tick u a h = (u', a', h') \<Longrightarrow> terminal u' = terminal u \<and> uart_irq u' = uart_irq u"
  by (auto simp: UART_MmioDevice_write_def UART_Tickable_tick_def Let_def
      split: if_splits prod.splits option.splits)

lemma step_sys_inv:
  assumes "soc_step s op s'" "sys_inv s"
  shows "sys_inv s'"
  using assms
proof (induction rule: soc_step.induct)
  case (do_read s a w v r q s')
  then have "s' = s" using soc_read_same unfolding sys_inv_def by blast
  with do_read show ?case by simp
next
  case (do_write s a w v strb r s')
  then have i: "soc_inv s" by (simp add: sys_inv_def)
  then have m: "memmap (fst s) = soc_map" by (simp add: soc_inv_def)
  with do_write soc_write_uart [OF do_write(1)] uart_wiring(1)
  have "terminal (uart (fst s'))" "uart_irq (uart (fst s'))" by (auto simp: sys_inv_def)
  moreover have "soc_inv s'" using soc_bus.bus_write_inv [OF i] do_write(1) by (simp add: soc_write_def)
  ultimately show ?case using soc_write_irq_edge [OF do_write(1) m] soc_write_ticker [OF do_write(1)]
    do_write(2) by (simp add: sys_inv_def)
next
  case (do_tick s s')
  then have s': "s' = ticked s" "soc_inv s" using soc_tick_ticked [of s] by (auto simp: sys_inv_def)
  obtain u a h where t: "UART_Tickable_tick (uart (fst s)) (irq_agg (fst s)) (snd s) = (u, a, h)"
    by (metis prod_cases3)
  show ?case
    using ticked_inv [OF s'(2)] ticked_edge [of s] ticked_ticker [of s] uart_wiring(2) [OF t] do_tick(2) t
    by (auto simp: s'(1) sys_inv_def) (auto simp: ticked_def)
next
  case (do_input t h bs)
  then show ?case by (simp add: sys_inv_def soc_inv_def)
qed

lemma run_sys_inv: "soc_run s ops bs s' \<Longrightarrow> sys_inv s \<Longrightarrow> sys_inv s'"
  by (induction rule: soc_run.induct) (auto dest: step_sys_inv)

lemma step_total: "sys_inv s \<Longrightarrow> \<exists>s'. soc_step s op s'"
proof (cases op)
  case (OpRead a w)
  assume "sys_inv s"
  then obtain r v s' where "soc_read s a w (Some 0) = Inr (r, v, s')"
    using soc_bus.bus_read_total [of s "memmap (fst s)" a w 0] by (auto simp: sys_inv_def soc_read_def)
  with OpRead show ?thesis using soc_step.do_read by blast
next
  case (OpWrite a w v strb)
  assume "sys_inv s"
  then obtain r s' where "soc_write s a w v strb = Inr (r, s')"
    using soc_bus.bus_write_total [of s "memmap (fst s)" a w v strb] by (auto simp: sys_inv_def soc_write_def)
  with OpWrite show ?thesis using soc_step.do_write by blast
next
  case OpTick
  assume "sys_inv s"
  then have "soc_tick s = Inr (ticked s)" using soc_tick_ticked unfolding sys_inv_def by blast
  then show ?thesis using OpTick soc_step.do_tick by blast
next
  case (OpInput bs)
  then show ?thesis using soc_step.do_input by (cases s) blast
qed

lemma run_total: "sys_inv s \<Longrightarrow> \<exists>bs s'. soc_run s ops bs s'"
proof (induction ops arbitrary: s)
  case Nil
  then show ?case using soc_run.stop by blast
next
  case (Cons op ops)
  obtain s1 where "soc_step s op s1" using step_total [OF Cons.prems] by blast
  with Cons show ?case using step_sys_inv soc_run.step by meson
qed

subsection \<open>Received bytes\<close>

definition rx_bytes :: "store \<Rightarrow> uint8 list" where
  "rx_bytes s = rx_stream (uart (fst s)) (snd s)"

lemma map_filter_append: "List.map_filter f (xs @ ys) = List.map_filter f xs @ List.map_filter f ys"
  by (simp add: List.map_filter_def)

lemma pop_write:
  assumes "soc_inv s" "pops (OpWrite a w v strb)" "soc_write s a w v strb = Inr (r, s')"
  shows "r = AXI_RESP_OKAY \<and> uart (fst s') = (uart (fst s))\<lparr>rx_valid := False, rx_byte := 0\<rparr> \<and> snd s' = snd s"
proof -
  have "find_unit soc_map a w = Some \<lparr>u_base = 0x10001000, u_size = 12, u_device = Ref_UART\<rparr>"
    using assms(2) by (auto simp: axi_width_def find_unit_def soc_map_def Let_def)
  moreover have "memmap (fst s) = soc_map" using assms(1) by (simp add: soc_inv_def)
  ultimately show ?thesis
    using assms(2,3)
    by (auto simp: soc_write_def MemoryMap_write_def MmioDevice_write_def vtbl_defs lift_write_Inr lens_defs
        UART_MmioDevice_write_def uart_consts axi_width_def)
qed

lemma uart_write_rx:
  assumes "UART_MmioDevice_write (u, h) off w v strb = Inr (r, u', h')"
    and "\<not> (off = UART_STATUS \<and> axi_width w \<and> (w = 4 \<longrightarrow> strb = 0xF) \<and> v AND 2 \<noteq> 0)"
  shows "u' = u \<and> h_stdin h' = h_stdin h"
  using assms
  by (auto simp: UART_MmioDevice_write_def host_fputc_def Let_def axi_width_def uart_consts
      split: if_splits option.splits list.splits bool.splits)

lemma write_rx:
  assumes "soc_inv s" "soc_write s a w v strb = Inr (r, s')"
  shows "popped s (OpWrite a w v strb) @ rx_bytes s' = rx_bytes s"
proof (cases "pops (OpWrite a w v strb)")
  case True
  with pop_write [OF assms(1) True assms(2)] show ?thesis
    by (simp add: popped_def rx_bytes_def rx_stream_def del: pops.simps)
next
  case False
  have "a - 0x10001000 = UART_STATUS \<Longrightarrow> a = 0x10001004"
    by (simp add: UART_STATUS_def diff_eq_eq)
  moreover have "memmap (fst s) = soc_map" using assms(1) by (simp add: soc_inv_def)
  ultimately have "uart (fst s') = uart (fst s) \<and> h_stdin (snd s') = h_stdin (snd s)"
    using soc_write_uart [OF assms(2)] uart_write_rx [of "uart (fst s)" "snd s" "a - 0x10001000" w v strb r] False
    by auto
  with False show ?thesis by (simp add: popped_def rx_bytes_def rx_stream_def stdin_bytes_def del: pops.simps)
qed

lemma tick_rx: "rx_bytes (ticked s) = rx_bytes s"
proof (cases "\<not> rx_valid (uart (fst s)) \<and> terminal (uart (fst s))")
  case False
  then show ?thesis by (auto simp: ticked_def rx_bytes_def UART_Tickable_tick_def)
next
  case True
  obtain ob h where t: "terminal_backend_try_read (snd s) = (ob, h)" by fastforce
  show ?thesis
    using True t try_read_bytes [of "snd s"]
    by (cases ob) (auto simp: ticked_def rx_bytes_def rx_stream_def UART_Tickable_tick_def)
qed

lemma step_rx:
  assumes "soc_step s op s'" "sys_inv s"
  shows "popped s op @ rx_bytes s' = rx_bytes s @ fed op"
  using assms
proof (induction rule: soc_step.induct)
  case (do_read s a w v r q s')
  then have "s' = s" using soc_read_same unfolding sys_inv_def by blast
  then show ?case by (simp add: popped_def)
next
  case (do_write s a w v strb r s')
  then show ?case using write_rx unfolding sys_inv_def by simp
next
  case (do_tick s s')
  then show ?case using soc_tick_ticked [of s] tick_rx [of s] by (simp add: popped_def sys_inv_def)
next
  case (do_input t h bs)
  then show ?case by (simp add: popped_def rx_bytes_def rx_stream_def stdin_bytes_def map_filter_append)
qed

lemma run_rx:
  "soc_run s ops bs s' \<Longrightarrow> sys_inv s \<Longrightarrow> bs @ rx_bytes s' = rx_bytes s @ concat (map fed ops)"
proof (induction rule: soc_run.induct)
  case (step s op s1 ops bs s')
  have "popped s op @ rx_bytes s1 = rx_bytes s @ fed op"
    using step_rx [OF step(1) step.prems] .
  with step.IH [OF step_sys_inv [OF step(1) step.prems]] show ?case by simp
qed simp

subsection \<open>The pending bit\<close>

fun acks :: "soc_op \<Rightarrow> bool" where
  "acks (OpWrite a w v strb) \<longleftrightarrow> a = 0x10004000 \<and> w = 4 \<and> strb = 0xF \<and> v AND 1 \<noteq> 0"
| "acks op \<longleftrightarrow> False"

lemma irq_write_pending:
  assumes "IrqAgg_MmioDevice_write g off w v strb = Inr (r, g')" "pending g \<in> {0, 1}"
    and "\<not> (off = 0 \<and> w = 4 \<and> strb = 0xF \<and> v AND 1 \<noteq> 0)"
  shows "pending g' = pending g"
  using assms w1c [OF assms(2), of v]
  by (auto simp: IrqAgg_MmioDevice_write_def irq_consts simp del: bit.de_Morgan_conj split: if_splits)

lemma write_pending:
  assumes "soc_inv s" "soc_write s a w v strb = Inr (r, s')" "\<not> acks (OpWrite a w v strb)"
  shows "pending (irq_agg (fst s')) = pending (irq_agg (fst s))"
proof -
  have i: "pending (irq_agg (fst s)) \<in> {0, 1}" and m: "memmap (fst s) = soc_map"
    using assms(1) by (auto simp: soc_inv_def irq_inv_def)
  have n: "\<not> (a - 0x10004000 = 0 \<and> w = 4 \<and> strb = 0xF \<and> v AND 1 \<noteq> 0)" using assms(3) by auto
  show ?thesis
    using soc_write_irq [OF assms(2) m] irq_write_pending [OF _ i n] by (elim disjE) auto
qed

lemma ticked_pending:
  "pending (irq_agg (fst s)) = 1 \<Longrightarrow> pending (irq_agg (fst (ticked s))) = 1"
  by (auto simp: ticked_def UART_Tickable_tick_def IrqAgg_set_uart_rx_edge_def IrqAgg_Tickable_tick_def
      irq_consts split: prod.splits option.splits if_splits)

lemma step_pending:
  assumes "soc_step s op s'" "sys_inv s" "\<not> acks op" "pending (irq_agg (fst s)) = 1"
  shows "pending (irq_agg (fst s')) = 1"
  using assms
proof (induction rule: soc_step.induct)
  case (do_read s a w v r q s')
  then have "s' = s" using soc_read_same unfolding sys_inv_def by blast
  with do_read show ?case by simp
next
  case (do_write s a w v strb r s')
  then have "soc_inv s" by (simp add: sys_inv_def)
  from write_pending [OF this do_write(1,3)] do_write(4) show ?case by simp
next
  case (do_tick s s')
  then have "s' = ticked s" using soc_tick_ticked [of s] unfolding sys_inv_def by simp
  with do_tick show ?case using ticked_pending by simp
next
  case (do_input t h bs)
  then show ?case by simp
qed

lemma run_pending:
  "soc_run s ops bs s' \<Longrightarrow> sys_inv s \<Longrightarrow> list_all (\<lambda>op. \<not> acks op) ops \<Longrightarrow> pending (irq_agg (fst s)) = 1 \<Longrightarrow>
   pending (irq_agg (fst s')) = 1"
  by (induction rule: soc_run.induct) (auto dest: step_sys_inv step_pending)

lemma ack_write:
  assumes "soc_inv s" "acks (OpWrite a w v strb)" "soc_write s a w v strb = Inr (r, s')"
  shows "r = AXI_RESP_OKAY \<and> pending (irq_agg (fst s')) = 0 \<and>
    enable (irq_agg (fst s')) = enable (irq_agg (fst s)) \<and> uart (fst s') = uart (fst s)"
proof -
  have "find_unit soc_map a w = Some \<lparr>u_base = 0x10004000, u_size = 0x1000, u_device = Ref_IrqAgg\<rparr>"
    using assms(2) by (auto simp: find_unit_def soc_map_def Let_def)
  moreover have "memmap (fst s) = soc_map" "pending (irq_agg (fst s)) \<in> {0, 1}"
    using assms(1) by (auto simp: soc_inv_def irq_inv_def)
  ultimately show ?thesis
    using assms(2,3) w1c [of "pending (irq_agg (fst s))" v]
    by (auto simp: soc_write_def MemoryMap_write_def MmioDevice_write_def vtbl_defs lift_write_Inr lens_defs
        IrqAgg_MmioDevice_write_def irq_consts simp del: bit.de_Morgan_conj)
qed

subsection \<open>A byte whose edge is gone\<close>

lemma irq_write_zero:
  "IrqAgg_MmioDevice_write g off w v strb = Inr (r, g') \<Longrightarrow> pending g = 0 \<Longrightarrow> pending g' = 0"
  by (auto simp: IrqAgg_MmioDevice_write_def split: if_splits)

lemma step_stale:
  assumes "soc_step s op s'" "sys_inv s" "\<not> pops op" "rx_valid (uart (fst s))" "pending (irq_agg (fst s)) = 0"
  shows "rx_valid (uart (fst s')) \<and> pending (irq_agg (fst s')) = 0"
  using assms
proof (induction rule: soc_step.induct)
  case (do_read s a w v r q s')
  then have "s' = s" using soc_read_same unfolding sys_inv_def by blast
  with do_read show ?case by simp
next
  case (do_write s a w v strb r s')
  have m: "memmap (fst s) = soc_map" using do_write(2) by (simp add: sys_inv_def soc_inv_def)
  have "a - 0x10001000 = UART_STATUS \<Longrightarrow> a = 0x10001004"
    by (simp add: UART_STATUS_def diff_eq_eq)
  then have "uart (fst s') = uart (fst s)"
    using soc_write_uart [OF do_write(1) m] uart_write_rx [of "uart (fst s)" "snd s" "a - 0x10001000" w v strb r] do_write(3)
    by auto
  moreover have "pending (irq_agg (fst s')) = 0"
    using soc_write_irq [OF do_write(1) m] irq_write_zero do_write(5) by metis
  ultimately show ?case using do_write(4) by simp
next
  case (do_tick s s')
  then have "s' = ticked s" using soc_tick_ticked [of s] unfolding sys_inv_def by simp
  with do_tick show ?case
    by (simp add: ticked_def UART_Tickable_tick_def IrqAgg_Tickable_tick_def sys_inv_def)
next
  case (do_input t h bs)
  then show ?case by simp
qed

lemma run_stale:
  "soc_run s ops bs s' \<Longrightarrow> sys_inv s \<Longrightarrow> list_all (\<lambda>op. \<not> pops op) ops \<Longrightarrow> rx_valid (uart (fst s)) \<Longrightarrow>
   pending (irq_agg (fst s)) = 0 \<Longrightarrow> rx_valid (uart (fst s')) \<and> pending (irq_agg (fst s')) = 0"
  by (induction rule: soc_run.induct) (auto dest: step_sys_inv step_stale)

subsection \<open>Clock ticks alone\<close>

lemma run_ticks:
  "ticker (fst s) = soc_ticker \<Longrightarrow> soc_run s (replicate n OpTick) [] ((ticked ^^ n) s)"
proof (induction n arbitrary: s)
  case 0
  show ?case by (simp add: soc_run.stop)
next
  case (Suc n)
  have "soc_step s OpTick (ticked s)" by (rule do_tick, rule soc_tick_ticked, rule Suc.prems)
  from soc_run.step [OF this Suc.IH [OF trans [OF ticked_ticker Suc.prems]]]
  show ?case by (simp add: popped_def funpow_swap1)
qed

lemma ticks_clint: "clint (fst ((ticked ^^ n) s)) = (Clint_Tickable_tick ^^ n) (clint (fst s))"
  by (induction n) (simp_all add: ticked_clint)

subsection \<open>A clock without the timer\<close>

text \<open>When the ticker has lost the CLINT, ticks leave its registers alone.\<close>

lemma untimed_tick:
  "Tick_Clint \<notin> set ts \<Longrightarrow> \<exists>s'. tick_from soc_tick_vtbl ts s = Inr s' \<and> clint (fst s') = clint (fst s) \<and>
    ticker (fst s') = ticker (fst s)"
proof (induction ts arbitrary: s)
  case (Cons t ts)
  have "\<exists>s1. Tickable_tick soc_tick_vtbl t s = Inr s1 \<and> clint (fst s1) = clint (fst s) \<and> ticker (fst s1) = ticker (fst s)"
    using Cons.prems by (cases t) (simp_all add: Tickable_tick_def tick_uart_def tick_irq_def lens_defs split: prod.splits)
  then obtain s1 where "Tickable_tick soc_tick_vtbl t s = Inr s1" "clint (fst s1) = clint (fst s)"
    "ticker (fst s1) = ticker (fst s)" by blast
  with Cons.IH [of s1] Cons.prems show ?case by simp
qed simp

lemma untimed_ticks:
  assumes "Tick_Clint \<notin> set (tickables (ticker (fst s)))"
  shows "\<exists>s'. soc_run s (replicate n OpTick) [] s' \<and> clint (fst s') = clint (fst s)"
  using assms
proof (induction n arbitrary: s)
  case 0
  show ?case by (intro exI [of _ s]) (simp add: stop)
next
  case (Suc n)
  obtain s1 where s1: "soc_tick s = Inr s1" "clint (fst s1) = clint (fst s)" "ticker (fst s1) = ticker (fst s)"
    using untimed_tick [OF Suc.prems, of s] by (auto simp: soc_tick_def Ticker_tick_all_def)
  from s1 Suc.prems have "Tick_Clint \<notin> set (tickables (ticker (fst s1)))" by simp
  from Suc.IH [OF this] obtain s' where "soc_run s1 (replicate n OpTick) [] s'" "clint (fst s') = clint (fst s1)" by blast
  moreover from step [OF do_tick [OF s1(1)] this(1)] have "soc_run s (replicate (Suc n) OpTick) [] s'" by (simp add: popped_def)
  ultimately show ?case using s1(2) by (intro exI [of _ s']) simp
qed

end
