(* ===== verification/SocCtor.thy ===== *)
theory SocCtor
  imports SocBus
begin

text \<open>
  Construction and destruction of the SoC under an arbitrary allocator: what each stage
  allocates and frees, that a failing constructor leaks nothing, that a successful one builds
  the SoC described by \<open>soc0\<close>, and that the destructor returns every block.
\<close>

text \<open>Heap blocks owned by a registry: its struct and, once it has a capacity, its array.\<close>

definition map_blocks :: "'d MemoryMap \<Rightarrow> nat" where
  "map_blocks m = (if mm_cap m = 0 then 1 else 2)"

definition ticker_blocks :: "'t Ticker \<Rightarrow> nat" where
  "ticker_blocks t = (if tk_cap t = 0 then 1 else 2)"

definition soc_blocks :: "SnakeSoC \<Rightarrow> nat" where
  "soc_blocks s = 3 + map_blocks (memmap s) + ticker_blocks (ticker s)"

lemma heap_calloc_live [simp]:
  "heap_calloc n h = (ok, h') \<Longrightarrow> h_live h' = h_live h + of_bool ok"
  by (auto simp: heap_calloc_def)

lemma cap_double_nonzero: "cap_ok n cap e \<Longrightarrow> 0 < e \<Longrightarrow> cap \<noteq> 0 \<Longrightarrow> (cap * 2 :: size_t) \<noteq> 0"
proof -
  assume c: "cap_ok n cap e" "0 < e" "cap \<noteq> 0"
  have "unat cap * 1 \<le> unat cap * e" using c(2) by (intro mult_le_mono2) simp
  then have "unat cap < 2 ^ 63" using c(1) unfolding cap_ok_def by linarith
  then have "unat (cap * 2) = unat cap * 2" by (simp add: unat_word_ariths)
  with c(3) show ?thesis by (metis mult_eq_0_iff unat_0 unat_eq_0 zero_neq_numeral)
qed

lemma grow_live:
  assumes "cap_ok n cap e" "0 < e" "grow_if_full n cap (of_nat e) h = (r, h')"
  shows "h_live h' + (if cap = 0 then 1 else 2) =
         h_live h + (if (case r of None \<Rightarrow> cap | Some c \<Rightarrow> c) = 0 then 1 else (2 :: nat))"
  using assms cap_double_nonzero [OF assms(1,2)]
  by (auto simp: grow_if_full_def heap_realloc_def Let_def split: if_splits)

lemma Ticker_add_spec:
  assumes "ticker_ok t"
  obtains rc t' h' where "Ticker_add t x h = Inr (rc, t', h')" "ticker_ok t'"
    "h_live h' + ticker_blocks t = h_live h + ticker_blocks t'"
    "tickables t' = tickables t @ (if rc = None then [x] else [])"
proof -
  obtain r h1 where g: "grow_if_full (length (tickables t)) (tk_cap t) (of_nat sizeof_ptr) h = (r, h1)"
    by fastforce
  have live: "h_live h1 + ticker_blocks t =
      h_live h + (if (case r of None \<Rightarrow> tk_cap t | Some c \<Rightarrow> c) = 0 then 1 else 2)"
    using grow_live [OF _ _ g] assms by (simp add: ticker_blocks_def ticker_ok_def sizeof_ptr_def)
  show thesis
  proof (cases r)
    case None
    with g live assms show ?thesis
      by (intro that [of "Some ENOMEM" t h1]) (simp_all add: Ticker_add_def ticker_blocks_def)
  next
    case (Some cap)
    have c: "cap_ok (Suc (length (tickables t))) cap sizeof_ptr"
      using grow_ticker_room [OF assms] g Some by blast
    then have "length (tickables t) < unat cap" by (simp add: cap_ok_def)
    with g live Some c show ?thesis
      by (intro that [of None "t\<lparr>tk_cap := cap, tickables := tickables t @ [x]\<rparr>" h1])
        (simp_all add: Ticker_add_def ticker_blocks_def ticker_ok_def)
  qed
qed

text \<open>The ignored return codes: whatever the allocator does, some of the three are registered,
  in order.\<close>

lemma add_tickables_spec:
  obtains t' h' where "add_tickables \<lparr>tk_cap = 0, tickables = []\<rparr> h = Inr (t', h')" "ticker_ok t'"
    "h_live h' + 1 = h_live h + ticker_blocks t'"
    "\<exists>a b c. tickables t' =
       (if a then [Tick_Clint] else []) @ (if b then [Tick_UART] else []) @ (if c then [Tick_IrqAgg] else [])"
proof -
  let ?t = "\<lparr>tk_cap = 0, tickables = []\<rparr> :: tick_ref Ticker"
  have "ticker_ok ?t" by (simp add: ticker_ok_def cap_ok_def)
  then obtain r1 t1 h1 where 1: "Ticker_add ?t Tick_Clint h = Inr (r1, t1, h1)" "ticker_ok t1"
    "h_live h1 + ticker_blocks ?t = h_live h + ticker_blocks t1"
    "tickables t1 = (if r1 = None then [Tick_Clint] else [])"
    using Ticker_add_spec [of ?t Tick_Clint h] by auto
  obtain r2 t2 h2 where 2: "Ticker_add t1 Tick_UART h1 = Inr (r2, t2, h2)" "ticker_ok t2"
    "h_live h2 + ticker_blocks t1 = h_live h1 + ticker_blocks t2"
    "tickables t2 = tickables t1 @ (if r2 = None then [Tick_UART] else [])"
    using Ticker_add_spec [OF 1(2), of Tick_UART h1] by blast
  obtain r3 t3 h3 where 3: "Ticker_add t2 Tick_IrqAgg h2 = Inr (r3, t3, h3)" "ticker_ok t3"
    "h_live h3 + ticker_blocks t2 = h_live h2 + ticker_blocks t3"
    "tickables t3 = tickables t2 @ (if r3 = None then [Tick_IrqAgg] else [])"
    using Ticker_add_spec [OF 2(2), of Tick_IrqAgg h2] by blast
  show thesis
  proof (rule that)
    show "add_tickables ?t h = Inr (t3, h3)"
      using 1(1) 2(1) 3(1) by (simp add: add_tickables_def trait_defs)
    show "ticker_ok t3" by (rule 3(2))
    show "h_live h3 + 1 = h_live h + ticker_blocks t3"
      using 1(3) 2(3) 3(3) by (simp add: ticker_blocks_def [of ?t])
    show "\<exists>a b c. tickables t3 =
       (if a then [Tick_Clint] else []) @ (if b then [Tick_UART] else []) @ (if c then [Tick_IrqAgg] else [])"
      using 1(4) 2(4) 3(4)
      by (intro exI [of _ "r1 = None"] exI [of _ "r2 = None"] exI [of _ "r3 = None"]) simp
  qed
qed

text \<open>The five registrations: two growth steps, no overlap.\<close>

lemma register_soc:
  assumes "size_bytes d = 0x4000000"
  shows "register_units (soc_unit_list d) \<lparr>mm_cap = 0, mm_units = []\<rparr> h =
    (let (ok1, h1) = heap_realloc True 96 h in
     if \<not> ok1 then Inr (Some ENOMEM, \<lparr>mm_cap = 0, mm_units = []\<rparr>, h1)
     else let (ok2, h2) = heap_realloc False 192 h1 in
       if \<not> ok2 then Inr (Some ENOMEM, \<lparr>mm_cap = 4, mm_units = take 4 (mm_units soc_map)\<rparr>, h2)
       else Inr (None, soc_map, h2))"
  using assms
  by (simp add: soc_unit_list_def trait_defs register_unit_def MemoryMap_add_device_def soc_addrs DRAM_size_bytes_def
      ranges_overlap_def grow_if_full_def sizeof_unit_def Let_def soc_map_def split: prod.splits)

lemma dtor_live:
  "h_live (snd (DRAM_dtor (Some d) h)) = h_live h - 2"
  "h_live (snd (MemoryMap_dtor (Some m) h)) = h_live h - map_blocks m"
  "h_live (snd (Ticker_dtor (Some t) h)) = h_live h - ticker_blocks t"
  by (simp_all add: DRAM_dtor_def MemoryMap_dtor_def Ticker_dtor_def heap_free_def
      map_blocks_def ticker_blocks_def numeral_2_eq_2)

text \<open>What a constructor stage promises: it returns; a failure is \<open>-ENOMEM\<close> and leaves as
  many live blocks as there were before the stages before it (\<open>base\<close>); a success leaves
  exactly the blocks of the SoC it built.\<close>

definition ctor_post ::
  "stream option \<Rightarrow> nat \<Rightarrow> fault + (rc \<times> SnakeSoC option \<times> host) \<Rightarrow> bool" where
  "ctor_post f base r \<longleftrightarrow>
     (\<exists>h'. r = Inr (Some ENOMEM, None, h') \<and> h_live h' = base) \<or>
     (\<exists>t h'. r = Inr (None, Some ((soc0 f)\<lparr>ticker := t\<rparr>), h') \<and> ticker_ok t \<and>
        h_live h' = base + soc_blocks ((soc0 f)\<lparr>ticker := t\<rparr>) \<and>
        (\<exists>a b c. tickables t =
          (if a then [Tick_Clint] else []) @ (if b then [Tick_UART] else []) @ (if c then [Tick_IrqAgg] else [])))"

abbreviation dev_rom :: BootROM where "dev_rom \<equiv> \<lparr>rom = \<lparr>arr_len = 4096, arr_at = boot_image\<rparr>\<rparr>"
abbreviation dev_uart :: "stream option \<Rightarrow> UART" where "dev_uart f \<equiv> UART_set_irq_agg (UART_ctor f True) True"
abbreviation dev_dram :: DRAM where
  "dev_dram \<equiv> \<lparr>model = DRAM_MODEL_IDEAL, backing = arr_zero 0x4000000, size_bytes = 0x4000000\<rparr>"

lemma ctor_ticker_spec:
  assumes "h_live h = base + 5"
  shows "ctor_post f base (SnakeSoC_ctor_ticker dev_rom Clint_ctor (dev_uart f) IrqAgg_ctor dev_dram soc_map h)"
proof -
  obtain ok h1 where c: "heap_calloc 1 h = (ok, h1)" by fastforce
  have live: "h_live h1 = base + 5 + of_bool ok" using heap_calloc_live [OF c] assms by simp
  show ?thesis
  proof (cases ok)
    case False
    with c live show ?thesis
      by (simp add: SnakeSoC_ctor_ticker_def Ticker_ctor_def ctor_post_def heap_free_def dtor_live
          map_blocks_def soc_map_def)
  next
    case True
    obtain t' h' where t: "add_tickables \<lparr>tk_cap = 0, tickables = []\<rparr> h1 = Inr (t', h')" "ticker_ok t'"
      "h_live h' + 1 = h_live h1 + ticker_blocks t'"
      "\<exists>a b c. tickables t' =
        (if a then [Tick_Clint] else []) @ (if b then [Tick_UART] else []) @ (if c then [Tick_IrqAgg] else [])"
      using add_tickables_spec [of h1] by blast
    have "SnakeSoC_ctor_ticker dev_rom Clint_ctor (dev_uart f) IrqAgg_ctor dev_dram soc_map h =
        Inr (None, Some ((soc0 f)\<lparr>ticker := t'\<rparr>), h')"
      using c True t(1)
      by (simp add: SnakeSoC_ctor_ticker_def Ticker_ctor_def soc0_def Clint_ctor_def UART_ctor_def
          UART_set_irq_agg_def IrqAgg_ctor_def)
    moreover have "h_live h' = base + soc_blocks ((soc0 f)\<lparr>ticker := t'\<rparr>)"
      using t(3) live True by (simp add: soc_blocks_def soc0_def map_blocks_def soc_map_def)
    ultimately show ?thesis using t(2,4) unfolding ctor_post_def by blast
  qed
qed

lemma ctor_map_spec:
  assumes "h_live h = base + 3"
  shows "ctor_post f base (SnakeSoC_ctor_map dev_rom Clint_ctor (dev_uart f) IrqAgg_ctor dev_dram h)"
proof -
  obtain ok h1 where c: "heap_calloc 1 h = (ok, h1)" by fastforce
  have live: "h_live h1 = base + 3 + of_bool ok" using heap_calloc_live [OF c] assms by simp
  obtain ok1 h2 where r1: "heap_realloc True 96 h1 = (ok1, h2)" by fastforce
  obtain ok2 h3 where r2: "heap_realloc False 192 h2 = (ok2, h3)" by fastforce
  have live2: "h_live h2 = h_live h1 + of_bool ok1" "h_live h3 = h_live h2"
    using r1 r2 by (auto simp: heap_realloc_def)
  note regs = register_soc [of dev_dram h1, unfolded r1]
  consider "\<not> ok" | "ok" "\<not> ok1" | "ok" "ok1" "\<not> ok2" | "ok" "ok1" "ok2" by blast
  then show ?thesis
  proof cases
    case 1
    with c live show ?thesis
      by (simp add: SnakeSoC_ctor_map_def MemoryMap_ctor_def ctor_post_def heap_free_def dtor_live)
  next
    case 2
    with c live live2 regs show ?thesis
      by (simp add: SnakeSoC_ctor_map_def MemoryMap_ctor_def ctor_post_def heap_free_def dtor_live map_blocks_def)
  next
    case 3
    with c live live2 regs r2 show ?thesis
      by (simp add: SnakeSoC_ctor_map_def MemoryMap_ctor_def ctor_post_def heap_free_def dtor_live map_blocks_def)
  next
    case 4
    with c regs r2 have "SnakeSoC_ctor_map dev_rom Clint_ctor (dev_uart f) IrqAgg_ctor dev_dram h =
        SnakeSoC_ctor_ticker dev_rom Clint_ctor (dev_uart f) IrqAgg_ctor dev_dram soc_map h3"
      by (simp add: SnakeSoC_ctor_map_def MemoryMap_ctor_def)
    with 4 live live2 show ?thesis using ctor_ticker_spec [of h3 base f] by simp
  qed
qed

lemma ctor_spec: "ctor_post f (h_live h) (SnakeSoC_ctor f h)"
proof -
  obtain ok h1 where c: "heap_calloc 1 h = (ok, h1)" by fastforce
  obtain ok1 h2 where c1: "heap_calloc 1 h1 = (ok1, h2)" by fastforce
  obtain ok2 h3 where c2: "heap_calloc 0x4000000 h2 = (ok2, h3)" by fastforce
  have live: "h_live h1 = h_live h + of_bool ok" "h_live h2 = h_live h1 + of_bool ok1"
    "h_live h3 = h_live h2 + of_bool ok2"
    using heap_calloc_live [OF c] heap_calloc_live [OF c1] heap_calloc_live [OF c2] by simp_all
  note defs = SnakeSoC_ctor_def BootROM_ctor_image DRAM_ctor_def DRAM_DEFAULT_SIZE_def
  consider "\<not> ok" | "ok" "\<not> ok1" | "ok" "ok1" "\<not> ok2" | "ok" "ok1" "ok2" by blast
  then show ?thesis
  proof cases
    case 4
    with c c1 c2 have "SnakeSoC_ctor f h =
        SnakeSoC_ctor_map dev_rom Clint_ctor (dev_uart f) IrqAgg_ctor dev_dram h3"
      by (simp add: defs)
    with 4 live show ?thesis using ctor_map_spec [of h3 "h_live h" f] by simp
  qed (use c c1 c2 live in \<open>simp_all add: defs ctor_post_def heap_free_def\<close>)
qed

lemma soc_dtor_live: "h_live (snd (SnakeSoC_dtor (Some s) h)) = h_live h - soc_blocks s"
proof -
  have "SnakeSoC_dtor (Some s) h =
     (None, heap_free False (snd (DRAM_dtor (Some (dram s)) (snd (MemoryMap_dtor (Some (memmap s))
        (snd (Ticker_dtor (Some (ticker s)) h)))))))"
    by (simp add: SnakeSoC_dtor_def split: prod.splits)
  then show ?thesis by (simp add: heap_free_def dtor_live soc_blocks_def)
qed

text \<open>When every request is granted the SoC is \<open>soc0\<close>.\<close>

definition next_allocs_ok :: "nat \<Rightarrow> host \<Rightarrow> bool" where
  "next_allocs_ok n h \<longleftrightarrow> list_all id (take n (h_alloc h))"

lemma next_grant:
  "next_allocs_ok (Suc n) h \<Longrightarrow> unat k < 2 ^ 63 \<Longrightarrow> heap_grant k h"
  by (auto simp: next_allocs_ok_def heap_grant_def split: list.splits)

lemma next_alloc:
  assumes "next_allocs_ok (Suc n) h" "unat k < 2 ^ 63"
  shows "heap_calloc k h = (True, h\<lparr>h_alloc := tl (h_alloc h), h_live := h_live h + 1\<rparr>)"
    and "heap_realloc b k h = (True, h\<lparr>h_alloc := tl (h_alloc h), h_live := h_live h + of_bool b\<rparr>)"
proof -
  have g: "heap_grant k h" by (rule next_grant [OF assms])
  show "heap_calloc k h = (True, h\<lparr>h_alloc := tl (h_alloc h), h_live := h_live h + 1\<rparr>)"
    unfolding heap_calloc_def by (simp only: g if_True)
  show "heap_realloc b k h = (True, h\<lparr>h_alloc := tl (h_alloc h), h_live := h_live h + of_bool b\<rparr>)"
    unfolding heap_realloc_def by (cases b) (simp_all only: g simp_thms if_True if_False of_bool_eq)
qed

lemma next_allocs_tl:
  "next_allocs_ok (Suc n) h \<Longrightarrow> next_allocs_ok n (h\<lparr>h_alloc := tl (h_alloc h), h_live := l\<rparr>)"
proof -
  have "list_all id (take (Suc n) xs) \<Longrightarrow> list_all id (take n (tl xs))" for xs by (cases xs) auto
  then show "next_allocs_ok (Suc n) h \<Longrightarrow> next_allocs_ok n (h\<lparr>h_alloc := tl (h_alloc h), h_live := l\<rparr>)"
    by (simp add: next_allocs_ok_def)
qed

lemma add_tickables_all_ok:
  assumes "next_allocs_ok (Suc n) h"
  shows "add_tickables \<lparr>tk_cap = 0, tickables = []\<rparr> h =
    Inr (soc_ticker, h\<lparr>h_alloc := tl (h_alloc h), h_live := h_live h + 1\<rparr>)"
  using next_alloc(2) [OF assms, of 32 True]
  by (simp add: add_tickables_def trait_defs Ticker_add_def grow_if_full_def sizeof_ptr_def soc_ticker_def)

definition granted :: "nat \<Rightarrow> host \<Rightarrow> host" where
  "granted k h = h\<lparr>h_alloc := tl (h_alloc h), h_live := h_live h + k\<rparr>"

lemma granted_ok: "next_allocs_ok (Suc n) h \<Longrightarrow> next_allocs_ok n (granted k h)"
  unfolding granted_def by (rule next_allocs_tl)

text \<open>The host without its allocator.\<close>

definition host_io :: "host \<Rightarrow> host" where
  "host_io h = h\<lparr>h_alloc := [], h_live := 0\<rparr>"

lemma granted_io: "host_io (granted k h) = host_io h"
  by (simp add: host_io_def granted_def)

text \<open>The refusals that meet the three registrations: a refused registration is forgotten, and the
  first granted one brings an array that has room for all that follow.\<close>

definition ticker_refusals :: "host \<Rightarrow> nat" where
  "ticker_refusals h = length (takeWhile Not (take 3 (h_alloc h)))"

lemma heap_realloc_head:
  "unat k < 2 ^ 63 \<Longrightarrow> heap_realloc b k h =
    (h_alloc h = [] \<or> hd (h_alloc h),
     h\<lparr>h_alloc := tl (h_alloc h), h_live := h_live h + of_bool ((h_alloc h = [] \<or> hd (h_alloc h)) \<and> b)\<rparr>)"
  by (cases "h_alloc h") (auto simp: heap_realloc_def heap_grant_def)

lemma add_tickables_refused:
  "\<exists>c h'. add_tickables \<lparr>tk_cap = 0, tickables = []\<rparr> h =
     Inr (\<lparr>tk_cap = c, tickables = drop (ticker_refusals h) [Tick_Clint, Tick_UART, Tick_IrqAgg]\<rparr>, h')"
proof -
  note add = add_tickables_def trait_defs Ticker_add_def grow_if_full_def sizeof_ptr_def heap_realloc_head
    ticker_refusals_def
  have n: "take 3 (b # bs) = b # take 2 bs" "take 2 (b # bs) = b # take 1 bs" "take 1 (b # bs) = [b]" for b :: bool and bs
    by (simp_all add: take_Cons')
  consider "h_alloc h = []" | bs where "h_alloc h = True # bs" | "h_alloc h = [False]"
    | bs where "h_alloc h = False # True # bs" | "h_alloc h = [False, False]"
    | bs where "h_alloc h = False # False # True # bs" | bs where "h_alloc h = False # False # False # bs"
    by (metis (full_types) list.exhaust)
  then show ?thesis by cases (simp_all add: add n)
qed

text \<open>With the first seven requests granted, only the ticker's array can still be refused.\<close>

lemma ctor_until_ticker:
  assumes "next_allocs_ok 7 h"
  shows "\<exists>h7. h_alloc h7 = drop 7 (h_alloc h) \<and> host_io h7 = host_io h \<and>
    SnakeSoC_ctor f h = bind_res (add_tickables \<lparr>tk_cap = 0, tickables = []\<rparr> h7) (\<lambda>(t, h').
      Inr (None, Some ((soc0 f)\<lparr>ticker := t\<rparr>), h'))"
proof -
  note alloc = next_alloc [folded granted_def]
  let ?h1 = "granted (Suc 0) h"    let ?h2 = "granted (Suc 0) ?h1"  let ?h3 = "granted (Suc 0) ?h2"
  let ?h4 = "granted (Suc 0) ?h3"  let ?h5 = "granted (Suc 0) ?h4"  let ?h6 = "granted 0 ?h5"
  let ?h7 = "granted (Suc 0) ?h6"
  have a0: "next_allocs_ok (Suc 6) h" using assms by simp
  have a1: "next_allocs_ok (Suc 5) ?h1" using granted_ok [OF a0] by simp
  have a2: "next_allocs_ok (Suc 4) ?h2" using granted_ok [OF a1] by simp
  have a3: "next_allocs_ok (Suc 3) ?h3" using granted_ok [OF a2] by simp
  have a4: "next_allocs_ok (Suc 2) ?h4" using granted_ok [OF a3] by simp
  have a5: "next_allocs_ok (Suc 1) ?h5" using granted_ok [OF a4] by (simp add: numeral_2_eq_2)
  have a6: "next_allocs_ok (Suc 0) ?h6" using granted_ok [OF a5, of 0] by simp
  have soc: "heap_calloc 1 h = (True, ?h1)" using alloc(1) [OF a0, of 1] by simp
  have drm: "heap_calloc 1 ?h1 = (True, ?h2)" using alloc(1) [OF a1, of 1] by simp
  have bck: "heap_calloc 0x4000000 ?h2 = (True, ?h3)" using alloc(1) [OF a2, of "0x4000000"] by simp
  have map: "heap_calloc 1 ?h3 = (True, ?h4)" using alloc(1) [OF a3, of 1] by simp
  have u1: "heap_realloc True 96 ?h4 = (True, ?h5)" using alloc(2) [OF a4, of 96 True] by simp
  have u2: "heap_realloc False 192 ?h5 = (True, ?h6)" using alloc(2) [OF a5, of 192 False] by simp
  have tk: "heap_calloc 1 ?h6 = (True, ?h7)" using alloc(1) [OF a6, of 1] by simp
  have "SnakeSoC_ctor f h = SnakeSoC_ctor_map dev_rom Clint_ctor (dev_uart f) IrqAgg_ctor dev_dram ?h3"
    by (simp add: SnakeSoC_ctor_def BootROM_ctor_image DRAM_ctor_def DRAM_DEFAULT_SIZE_def soc drm bck)
  also have "\<dots> = SnakeSoC_ctor_ticker dev_rom Clint_ctor (dev_uart f) IrqAgg_ctor dev_dram soc_map ?h6"
    by (simp add: SnakeSoC_ctor_map_def MemoryMap_ctor_def map register_soc u1 u2)
  also have "\<dots> = bind_res (add_tickables \<lparr>tk_cap = 0, tickables = []\<rparr> ?h7) (\<lambda>(t, h').
      Inr (None, Some ((soc0 f)\<lparr>ticker := t\<rparr>), h'))"
    by (simp add: SnakeSoC_ctor_ticker_def Ticker_ctor_def tk soc0_def Clint_ctor_def UART_ctor_def
        UART_set_irq_agg_def IrqAgg_ctor_def)
  finally show ?thesis
    by (intro exI [of _ ?h7]) (simp add: granted_io, simp add: granted_def drop_Suc numeral_eq_Suc)
qed

lemma ctor_all_ok:
  assumes "next_allocs_ok 8 h"
  shows "\<exists>h'. SnakeSoC_ctor f h = Inr (None, Some (soc0 f), h') \<and> h_alloc h' = drop 8 (h_alloc h) \<and>
    host_io h' = host_io h"
proof -
  have "list_all id (take 7 (h_alloc h))"
    using assms by (simp add: next_allocs_ok_def take_Suc_conv_app_nth list_all_length)
  then obtain h7 where h7: "h_alloc h7 = drop 7 (h_alloc h)" "host_io h7 = host_io h"
    "SnakeSoC_ctor f h = bind_res (add_tickables \<lparr>tk_cap = 0, tickables = []\<rparr> h7) (\<lambda>(t, h').
      Inr (None, Some ((soc0 f)\<lparr>ticker := t\<rparr>), h'))"
    using ctor_until_ticker [of h f] by (auto simp: next_allocs_ok_def)
  have "take (Suc 0) (drop 7 xs) = drop 7 (take 8 xs)" for xs :: "bool list"
    by (simp add: drop_take numeral_eq_Suc)
  then have n: "next_allocs_ok (Suc 0) h7"
    using assms h7(1) by (auto simp: next_allocs_ok_def list_all_iff dest: in_set_dropD)
  have "drop 8 xs = tl (drop 7 xs)" for xs :: "bool list" by (simp add: tl_drop drop_Suc numeral_eq_Suc)
  with h7 add_tickables_all_ok [OF n] granted_io [of 1 h7, unfolded granted_def] show ?thesis by (simp add: soc0_def)
qed

end
