(* ===== verification/ElfLoader.thy ===== *)
theory ElfLoader
  imports SocBus
begin

text \<open>
  The ELF loader (\<open>elf_loader/src/elf_loader.c\<close>): header checks, the program-header loop, the
  chunked copy of each loadable segment and \<open>write_segment\<close>, which turns a run of bytes into
  bus writes.  The bus is the write function the loader is given; the file is the host's.
  The structures of \<open><elf.h>\<close> are decoded from their bytes on a little-endian host.
\<close>

subsection \<open>Writing a segment\<close>

definition lane_strb :: "addr_t \<Rightarrow> nat \<Rightarrow> uint8" where
  "lane_strb addr i = push_bit (unat ((ucast addr + of_nat i :: size_t) AND 3)) 1"

text \<open>The loop over leading bytes up to a word boundary; the result carries the index.\<close>

function write_lead ::
  "'s mmio_write \<Rightarrow> addr_t \<Rightarrow> uint8 list \<Rightarrow> nat \<Rightarrow> 's \<Rightarrow> fault + (rc \<times> nat \<times> 's)" where
  "write_lead wr addr dst i s =
     (if i < length dst \<and> (addr + of_nat i) AND 3 \<noteq> 0
      then bind_res (wr s (addr + of_nat i) 1 (ucast (dst ! i)) (lane_strb addr i)) (\<lambda>(r, s).
             if r \<noteq> AXI_RESP_OKAY then Inr (Some EFAULT, i, s) else write_lead wr addr dst (Suc i) s)
      else Inr (None, i, s))"
  by pat_completeness auto
termination
  by (relation "measure (\<lambda>(wr, addr, dst, i, s). length dst - i)") auto

function write_words ::
  "'s mmio_write \<Rightarrow> addr_t \<Rightarrow> uint8 list \<Rightarrow> nat \<Rightarrow> 's \<Rightarrow> fault + (rc \<times> nat \<times> 's)" where
  "write_words wr addr dst i s =
     (if i + 4 \<le> length dst
      then bind_res (wr s (addr + of_nat i) 4
                       (le_word (dst ! i) (dst ! (i + 1)) (dst ! (i + 2)) (dst ! (i + 3))) 0xF) (\<lambda>(r, s).
             if r \<noteq> AXI_RESP_OKAY then Inr (Some EFAULT, i, s) else write_words wr addr dst (i + 4) s)
      else Inr (None, i, s))"
  by pat_completeness auto
termination
  by (relation "measure (\<lambda>(wr, addr, dst, i, s). length dst - i)") auto

function write_trail ::
  "'s mmio_write \<Rightarrow> addr_t \<Rightarrow> uint8 list \<Rightarrow> nat \<Rightarrow> 's \<Rightarrow> fault + (rc \<times> nat \<times> 's)" where
  "write_trail wr addr dst i s =
     (if i < length dst
      then bind_res (wr s (addr + of_nat i) 1 (ucast (dst ! i)) (lane_strb addr i)) (\<lambda>(r, s).
             if r \<noteq> AXI_RESP_OKAY then Inr (Some EFAULT, i, s) else write_trail wr addr dst (Suc i) s)
      else Inr (None, i, s))"
  by pat_completeness auto
termination
  by (relation "measure (\<lambda>(wr, addr, dst, i, s). length dst - i)") auto

declare write_lead.simps [simp del] write_words.simps [simp del] write_trail.simps [simp del]

definition write_segment :: "'s mmio_write \<Rightarrow> 's \<Rightarrow> addr_t \<Rightarrow> uint8 list \<Rightarrow> fault + (rc \<times> 's)" where
  "write_segment wr s addr dst =
     bind_res (write_lead wr addr dst 0 s) (\<lambda>(rc, i, s).
       if rc \<noteq> None then Inr (rc, s)
       else bind_res (write_words wr addr dst i s) (\<lambda>(rc, i, s).
         if rc \<noteq> None then Inr (rc, s)
         else bind_res (write_trail wr addr dst i s) (\<lambda>(rc, i, s). Inr (rc, s))))"

subsection \<open>The structures of \<open><elf.h>\<close>\<close>

definition get16 :: "uint8 list \<Rightarrow> nat \<Rightarrow> uint16" where
  "get16 bs o1 = ucast (bs ! o1) OR push_bit 8 (ucast (bs ! (o1 + 1)))"

definition get32 :: "uint8 list \<Rightarrow> nat \<Rightarrow> uint32" where
  "get32 bs o1 = le_word (bs ! o1) (bs ! (o1 + 1)) (bs ! (o1 + 2)) (bs ! (o1 + 3))"

record Elf32_Ehdr =
  e_ident :: "uint8 list"
  e_type :: uint16
  e_machine :: uint16
  e_entry :: uint32
  e_phoff :: uint32
  e_phnum :: uint16

record Elf32_Phdr =
  p_type :: uint32
  p_offset :: uint32
  p_vaddr :: uint32
  p_paddr :: uint32
  p_filesz :: uint32

definition sizeof_Ehdr :: nat where "sizeof_Ehdr = 52"
definition sizeof_Phdr :: nat where "sizeof_Phdr = 32"

definition decode_Ehdr :: "uint8 list \<Rightarrow> Elf32_Ehdr" where
  "decode_Ehdr bs = \<lparr>e_ident = take 16 bs, e_type = get16 bs 16, e_machine = get16 bs 18,
     e_entry = get32 bs 24, e_phoff = get32 bs 28, e_phnum = get16 bs 44\<rparr>"

definition decode_Phdr :: "uint8 list \<Rightarrow> Elf32_Phdr" where
  "decode_Phdr bs = \<lparr>p_type = get32 bs 0, p_offset = get32 bs 4, p_vaddr = get32 bs 8,
     p_paddr = get32 bs 12, p_filesz = get32 bs 16\<rparr>"

definition ELFMAG :: "uint8 list" where "ELFMAG = [0x7F, 0x45, 0x4C, 0x46]"
definition ELFCLASS32 :: uint8 where "ELFCLASS32 = 1"
definition EM_RISCV :: uint16 where "EM_RISCV = 243"
definition ET_EXEC :: uint16 where "ET_EXEC = 2"
definition PT_LOAD :: uint32 where "PT_LOAD = 1"
definition ELF_LOADER_DRAM_BASE :: uint32 where "ELF_LOADER_DRAM_BASE = 0x80000000"
definition CHUNK :: nat where "CHUNK = 64 * 1024"

lemmas elf_consts = ELFMAG_def ELFCLASS32_def EM_RISCV_def ET_EXEC_def PT_LOAD_def
  ELF_LOADER_DRAM_BASE_def sizeof_Ehdr_def sizeof_Phdr_def

subsection \<open>Loading\<close>

text \<open>The chunk loop of one segment: \<open>remaining\<close> bytes from the file's position.\<close>

function load_chunks ::
  "'s mmio_write \<Rightarrow> addr_t \<Rightarrow> nat \<Rightarrow> cfile \<Rightarrow> 's \<Rightarrow> fault + (rc \<times> 's)" where
  "load_chunks wr addr remaining f s =
     (if remaining > 0
      then let chunk = (if remaining > CHUNK then CHUNK else remaining)
           in (case host_fread f chunk of
                 None \<Rightarrow> Inr (Some EIO, s)
               | Some (buf, f) \<Rightarrow>
                   bind_res (write_segment wr s addr buf) (\<lambda>(rc, s).
                     if rc \<noteq> None then Inr (rc, s)
                     else load_chunks wr (addr + of_nat chunk) (remaining - chunk) f s))
      else Inr (None, s))"
  by pat_completeness auto
termination
  by (relation "measure (\<lambda>(wr, addr, remaining, f, s). remaining)") (auto simp: CHUNK_def)

declare load_chunks.simps [simp del]

text \<open>One iteration of the program-header loop.\<close>

definition load_phdr :: "'s mmio_write \<Rightarrow> Elf32_Phdr \<Rightarrow> cfile \<Rightarrow> 's \<Rightarrow> fault + (rc \<times> 's)" where
  "load_phdr wr ph f s =
     (if p_type ph \<noteq> PT_LOAD \<or> p_filesz ph = 0 then Inr (None, s)
      else if p_paddr ph \<noteq> p_vaddr ph then Inr (Some EINVAL, s)
      else (case host_fseek f (unat (p_offset ph)) of
              None \<Rightarrow> Inr (Some EIO, s)
            | Some f \<Rightarrow> load_chunks wr (p_paddr ph) (unat (p_filesz ph)) f s))"

function load_phdrs ::
  "'s mmio_write \<Rightarrow> Elf32_Ehdr \<Rightarrow> nat \<Rightarrow> cfile \<Rightarrow> 's \<Rightarrow> fault + (rc \<times> 's)" where
  "load_phdrs wr eh i f s =
     (if i < unat (e_phnum eh)
      then (case host_fseek f (unat (e_phoff eh) + i * sizeof_Phdr) of
              None \<Rightarrow> Inr (Some EIO, s)
            | Some f' \<Rightarrow>
                (case host_fread f' sizeof_Phdr of
                   None \<Rightarrow> Inr (Some EIO, s)
                 | Some (bs, f'') \<Rightarrow>
                     bind_res (load_phdr wr (decode_Phdr bs) f'' s) (\<lambda>(rc, s).
                       if rc \<noteq> None then Inr (rc, s) else load_phdrs wr eh (Suc i) f s)))
      else Inr (None, s))"
  by pat_completeness auto
termination
  by (relation "measure (\<lambda>(wr, eh, i, f, s). unat (e_phnum eh) - i)") auto

declare load_phdrs.simps [simp del]

definition check_Ehdr :: "Elf32_Ehdr \<Rightarrow> rc" where
  "check_Ehdr eh =
     (if take 4 (e_ident eh) \<noteq> ELFMAG then Some EINVAL
      else if e_ident eh ! 4 \<noteq> ELFCLASS32 then Some EINVAL
      else if e_machine eh \<noteq> EM_RISCV then Some EINVAL
      else if e_type eh \<noteq> ET_EXEC then Some EINVAL
      else if e_entry eh \<noteq> ELF_LOADER_DRAM_BASE then Some EINVAL
      else None)"

text \<open>The cleanup of the exits after the buffer is allocated (\<open>free(buf); fclose(f)\<close>) and of
  the exits before.\<close>

definition end_load :: "'a \<times> host \<Rightarrow> 'a \<times> host" where
  "end_load s = (fst s, host_fclose (heap_free False (snd s)))"

definition load_elf ::
  "('a \<times> host) mmio_write \<Rightarrow> string \<Rightarrow> 'a \<times> host \<Rightarrow> out32 \<Rightarrow> fault + (rc \<times> out32 \<times> ('a \<times> host))" where
  "load_elf wr path s entry_out =
     (let (t, h) = s; (fo, h) = host_fopen path h in
      case fo of
        None \<Rightarrow> Inr (Some EIO, entry_out, (t, h))
      | Some f \<Rightarrow>
         (case host_fread f sizeof_Ehdr of
            None \<Rightarrow> Inr (Some EIO, entry_out, (t, host_fclose h))
          | Some (bs, f) \<Rightarrow>
             let eh = decode_Ehdr bs in
             if check_Ehdr eh \<noteq> None then Inr (check_Ehdr eh, entry_out, (t, host_fclose h))
             else let (ok, h) = heap_calloc (of_nat CHUNK) h in
               if \<not> ok then Inr (Some ENOMEM, entry_out, (t, host_fclose h))
               else bind_res (load_phdrs wr eh 0 f (t, h)) (\<lambda>(rc, s).
                 if rc \<noteq> None then Inr (rc, entry_out, end_load s)
                 else Inr (None, map_option (\<lambda>_. e_entry eh) entry_out, end_load s))))"

definition SnakeSoC_load_elf ::
  "string \<Rightarrow> store \<Rightarrow> out32 \<Rightarrow> fault + (rc \<times> out32 \<times> store)" where
  "SnakeSoC_load_elf path s entry_out = load_elf soc_write path s entry_out"

end
