(* ===== verification/ElfWrite.thy ===== *)
theory ElfWrite
  imports ElfLoader
begin

text \<open>
  What \<open>write_segment\<close> and the loops above it do to memory, proved over a bus interface
  (\<open>byte_bus\<close>): a word write stores four bytes, a byte write stores its byte when bit 0 of
  the strobe is set.  The interface is interpreted on the SoC's bus and its DRAM window.
\<close>

lemma addr_plus:
  fixes a :: addr_t
  assumes "unat a + i < 2 ^ 32"
  shows "unat (a + of_nat i) = unat a + i"
proof -
  have "unat (of_nat i :: addr_t) = i" using assms by (simp add: unat_of_nat)
  then show ?thesis using assms by (simp add: unat_word_ariths)
qed

lemma lane_strb_bit0:
  assumes "unat a + i < 2 ^ 32"
  shows "bit (lane_strb a i) 0 \<longleftrightarrow> (unat a + i) mod 4 = 0"
proof -
  let ?x = "ucast a + of_nat i :: size_t"
  have "unat (of_nat i :: size_t) = i" using assms by (simp add: unat_of_nat)
  then have "unat ?x = unat a + i"
    using assms by (simp add: unat_word_ariths unat_ucast_32_64)
  moreover have "bit (lane_strb a i) 0 \<longleftrightarrow> ?x AND 3 = 0"
    by (simp add: lane_strb_def bit_simps unat_eq_0)
  ultimately show ?thesis by (simp add: and_3_0_iff)
qed

text \<open>The bytes of a segment of \<open>n\<close> bytes at address \<open>a\<close> that reach memory: those from the
  first word boundary on, except trailing bytes that are not on a word boundary.\<close>

definition seg_lead :: "nat \<Rightarrow> nat" where
  "seg_lead a = (if a mod 4 = 0 then 0 else 4 - a mod 4)"

definition seg_stored :: "nat \<Rightarrow> nat \<Rightarrow> nat \<Rightarrow> bool" where
  "seg_stored a n k \<longleftrightarrow>
     seg_lead a \<le> k \<and> k < n \<and> (k < seg_lead a + 4 * ((n - seg_lead a) div 4) \<or> (a + k) mod 4 = 0)"

definition seg_overlay :: "nat \<Rightarrow> uint8 list \<Rightarrow> (nat \<Rightarrow> uint8) \<Rightarrow> nat \<Rightarrow> uint8" where
  "seg_overlay a bs m j =
     (if a \<le> j \<and> seg_stored a (length bs) (j - a) then bs ! (j - a) else m j)"

lemma seg_lead_aligned [simp]: "a mod 4 = 0 \<Longrightarrow> seg_lead a = 0"
  by (simp add: seg_lead_def)

lemma seg_lead_mod: "(a + seg_lead a) mod 4 = 0"
proof -
  have "a + (4 - a mod 4) = 4 * Suc (a div 4)"
  proof -
    have "a mod 4 + (4 - a mod 4) = 4" by (rule le_add_diff_inverse) simp
    moreover have "4 * (a div 4) + a mod 4 = a" by (rule mult_div_mod_eq)
    ultimately show ?thesis unfolding mult_Suc_right by (metis add.assoc add.commute)
  qed
  then show ?thesis by (simp add: seg_lead_def)
qed

lemma seg_lead_Suc: "(a :: nat) mod 4 \<noteq> 0 \<Longrightarrow> seg_lead a = Suc (seg_lead (Suc a))"
  by (auto simp: seg_lead_def mod_Suc)

text \<open>A segment at a word boundary whose length is 0 or 1 modulo 4 is stored completely; any
  other segment at a word boundary loses its last bytes.\<close>

lemma seg_stored_aligned:
  "a mod 4 = 0 \<Longrightarrow> seg_stored a n k \<longleftrightarrow> k < n \<and> (k < 4 * (n div 4) \<or> k mod 4 = 0)"
  using mod_add_left_eq [of a 4 k] by (auto simp: seg_stored_def)

lemma seg_stored_exact:
  assumes "a mod 4 = 0" "n mod 4 < 2"
  shows "seg_stored a n k \<longleftrightarrow> k < n"
proof -
  have "k < n \<Longrightarrow> k < 4 * (n div 4) \<or> k = 4 * (n div 4)"
    using assms(2) mult_div_mod_eq [of 4 n] by linarith
  then show ?thesis using seg_stored_aligned [OF assms(1), of n k] by auto
qed

lemma le_byte_ucast [simp]: "le_byte (ucast b) 0 = b"
  by (rule bit_eqI) (auto simp: le_byte_def bit_simps)

lemma le_byte_le_word [simp]:
  "le_byte (le_word b0 b1 b2 b3) 0 = b0"
  "le_byte (le_word b0 b1 b2 b3) (Suc 0) = b1"
  "le_byte (le_word b0 b1 b2 b3) 2 = b2"
  "le_byte (le_word b0 b1 b2 b3) 3 = b3"
  by (rule bit_eqI; auto simp: le_word_def le_byte_def bit_simps dest: bit_imp_le_length)+

locale byte_bus =
  fixes wr :: "'s mmio_write"
    and inv :: "'s \<Rightarrow> bool"
    and mem :: "'s \<Rightarrow> nat \<Rightarrow> uint8"
    and lo :: nat
    and hi :: nat
  assumes window: "hi < 2 ^ 32"
    and word_write: "inv s \<Longrightarrow> lo \<le> unat a \<Longrightarrow> unat a + 4 \<le> hi \<Longrightarrow> unat a mod 4 = 0 \<Longrightarrow>
      \<exists>s'. wr s a 4 v 0xF = Inr (AXI_RESP_OKAY, s') \<and> inv s' \<and>
        mem s' = (\<lambda>j. if unat a \<le> j \<and> j < unat a + 4 then le_byte v (j - unat a) else mem s j)"
    and byte_write: "inv s \<Longrightarrow> lo \<le> unat a \<Longrightarrow> unat a + 1 \<le> hi \<Longrightarrow>
      \<exists>s'. wr s a 1 v strb = Inr (AXI_RESP_OKAY, s') \<and> inv s' \<and>
        mem s' = (if bit strb 0 then (mem s)(unat a := le_byte v 0) else mem s)"
begin

definition fits :: "addr_t \<Rightarrow> nat \<Rightarrow> bool" where
  "fits a n \<longleftrightarrow> lo \<le> unat a \<and> unat a + n \<le> hi"

lemma fits_addr: "fits a n \<Longrightarrow> i \<le> n \<Longrightarrow> unat (a + of_nat i) = unat a + i"
  using window by (intro addr_plus) (simp add: fits_def)

lemma fits_lane: "fits a n \<Longrightarrow> i \<le> n \<Longrightarrow> bit (lane_strb a i) 0 \<longleftrightarrow> (unat a + i) mod 4 = 0"
  using window by (intro lane_strb_bit0) (simp add: fits_def)

lemma fits_boundary:
  "fits a n \<Longrightarrow> i \<le> n \<Longrightarrow> (a + of_nat i) AND 3 = 0 \<longleftrightarrow> (unat a + i) mod 4 = 0"
  using fits_addr by (simp add: and_3_0_iff)

text \<open>The leading bytes are sent with a strobe whose bit 0 is clear: none is stored.\<close>

lemma lead_spec:
  assumes "inv s" "fits a (length bs)" "i \<le> length bs"
  shows "\<exists>s'. write_lead wr a bs i s =
      Inr (None, min (length bs) (i + seg_lead (unat a + i)), s') \<and> inv s' \<and> mem s' = mem s"
  using assms
proof (induction "length bs - i" arbitrary: i s)
  case 0
  then show ?case by (simp add: write_lead.simps [of wr a bs i])
next
  case (Suc d)
  then have i: "i < length bs" and d: "d = length bs - Suc i" by auto
  show ?case
  proof (cases "(unat a + i) mod 4 = 0")
    case True
    then show ?thesis
      using Suc.prems i fits_boundary [of a "length bs" i] by (simp add: write_lead.simps [of wr a bs i])
  next
    case False
    obtain s1 where s1: "wr s (a + of_nat i) 1 (ucast (bs ! i)) (lane_strb a i) = Inr (AXI_RESP_OKAY, s1)"
      "inv s1" "mem s1 = mem s"
      using byte_write [of s "a + of_nat i" "ucast (bs ! i)" "lane_strb a i"] Suc.prems i False
        fits_addr [of a "length bs" i] fits_lane [of a "length bs" i]
      by (auto simp: fits_def)
    obtain s' where "write_lead wr a bs (Suc i) s1 =
        Inr (None, min (length bs) (Suc i + seg_lead (unat a + Suc i)), s')" "inv s'" "mem s' = mem s1"
      using Suc.hyps(1) [OF d s1(2) Suc.prems(2)] i by auto
    then show ?thesis
      using s1 False i fits_boundary [of a "length bs" i] Suc.prems seg_lead_Suc [of "unat a + i"]
      by (simp add: write_lead.simps [of wr a bs i])
  qed
qed

text \<open>The words in the middle are stored completely.\<close>

lemma word_overlay:
  assumes "i + 4 \<le> length bs"
  shows "(\<lambda>j. if a + i \<le> j \<and> j < a + i + 4
      then le_byte (le_word (bs ! i) (bs ! (i + 1)) (bs ! (i + 2)) (bs ! (i + 3))) (j - (a + i)) else m j) =
    (\<lambda>j. if a + i \<le> j \<and> j < a + i + 4 then bs ! (j - a) else m j)"
proof
  fix j
  have "a + i \<le> j \<Longrightarrow> j < a + i + 4 \<Longrightarrow>
      j - (a + i) = 0 \<and> j - a = i \<or> j - (a + i) = 1 \<and> j - a = i + 1 \<or>
      j - (a + i) = 2 \<and> j - a = i + 2 \<or> j - (a + i) = 3 \<and> j - a = i + 3"
    by linarith
  then show "(if a + i \<le> j \<and> j < a + i + 4
      then le_byte (le_word (bs ! i) (bs ! (i + 1)) (bs ! (i + 2)) (bs ! (i + 3))) (j - (a + i)) else m j) =
    (if a + i \<le> j \<and> j < a + i + 4 then bs ! (j - a) else m j)"
    by (auto simp: le_byte_le_word)
qed

lemma words_spec:
  assumes "inv s" "fits a (length bs)" "i \<le> length bs" "(unat a + i) mod 4 = 0 \<or> i = length bs"
  shows "\<exists>s'. write_words wr a bs i s = Inr (None, i + 4 * ((length bs - i) div 4), s') \<and> inv s' \<and>
     mem s' = (\<lambda>j. if unat a + i \<le> j \<and> j < unat a + i + 4 * ((length bs - i) div 4)
                  then bs ! (j - unat a) else mem s j)"
  using assms
proof (induction "(length bs - i) div 4" arbitrary: i s)
  case 0
  then have "\<not> i + 4 \<le> length bs" by (simp add: div_eq_0_iff)
  with 0 show ?case by (auto simp: write_words.simps [of wr a bs i] fun_eq_iff)
next
  case (Suc d)
  have i: "i + 4 \<le> length bs"
  proof (rule ccontr)
    assume "\<not> i + 4 \<le> length bs"
    then have "(length bs - i) div 4 = 0" by (simp add: div_eq_0_iff)
    with Suc.hyps(2) show False by simp
  qed
  then have len: "length bs - i = (length bs - (i + 4)) + 4" by simp
  then have d: "d = (length bs - (i + 4)) div 4" using Suc.hyps(2) by simp
  have al: "(unat a + i) mod 4 = 0" using Suc.prems(4) i by simp
  let ?v = "le_word (bs ! i) (bs ! (i + 1)) (bs ! (i + 2)) (bs ! (i + 3))"
  have ua: "unat (a + of_nat i) = unat a + i" using Suc.prems by (simp add: fits_addr)
  obtain s1 where s1: "wr s (a + of_nat i) 4 ?v 0xF = Inr (AXI_RESP_OKAY, s1)" "inv s1"
    "mem s1 = (\<lambda>j. if unat a + i \<le> j \<and> j < unat a + i + 4 then bs ! (j - unat a) else mem s j)"
    using word_write [of s "a + of_nat i" ?v, unfolded ua word_overlay [OF i]] Suc.prems i al
    by (auto simp: fits_def)
  have al': "(unat a + (i + 4)) mod 4 = 0 \<or> i + 4 = length bs" using al by (simp add: add.assoc [symmetric])
  obtain s' where s': "write_words wr a bs (i + 4) s1 =
      Inr (None, i + 4 + 4 * ((length bs - (i + 4)) div 4), s')" "inv s'"
    "mem s' = (\<lambda>j. if unat a + (i + 4) \<le> j \<and> j < unat a + (i + 4) + 4 * ((length bs - (i + 4)) div 4)
                  then bs ! (j - unat a) else mem s1 j)"
    using Suc.hyps(1) [OF d s1(2) Suc.prems(2) i al'] by (elim exE conjE)
  have dd: "(length bs - i) div 4 = Suc ((length bs - (i + 4)) div 4)" using d Suc.hyps(2) by simp
  show ?case
    unfolding dd using s' s1 i
    by (intro exI [of _ s']) (auto simp: write_words.simps [of wr a bs i] fun_eq_iff)
qed

lemma trail_spec:
  assumes "inv s" "fits a (length bs)" "i \<le> length bs"
  shows "\<exists>s'. write_trail wr a bs i s = Inr (None, length bs, s') \<and> inv s' \<and>
     mem s' = (\<lambda>j. if unat a + i \<le> j \<and> j < unat a + length bs \<and> j mod 4 = 0
                  then bs ! (j - unat a) else mem s j)"
  using assms
proof (induction "length bs - i" arbitrary: i s)
  case 0
  then show ?case by (auto simp: write_trail.simps [of wr a bs i] fun_eq_iff)
next
  case (Suc d)
  then have i: "i < length bs" and d: "d = length bs - Suc i" by auto
  have ua: "unat (a + of_nat i) = unat a + i" using Suc.prems by (simp add: fits_addr)
  obtain s1 where s1: "wr s (a + of_nat i) 1 (ucast (bs ! i)) (lane_strb a i) = Inr (AXI_RESP_OKAY, s1)"
    "inv s1" "mem s1 = (if (unat a + i) mod 4 = 0 then (mem s)(unat a + i := bs ! i) else mem s)"
    using byte_write [of s "a + of_nat i" "ucast (bs ! i)" "lane_strb a i"] Suc.prems i ua
      fits_lane [of a "length bs" i]
    by (auto simp: fits_def le_byte_ucast)
  obtain s' where s': "write_trail wr a bs (Suc i) s1 = Inr (None, length bs, s')" "inv s'"
    "mem s' = (\<lambda>j. if unat a + Suc i \<le> j \<and> j < unat a + length bs \<and> j mod 4 = 0
                  then bs ! (j - unat a) else mem s1 j)"
    using Suc.hyps(1) [OF d s1(2) Suc.prems(2)] i by auto
  have split: "unat a + i \<le> j \<longleftrightarrow> j = unat a + i \<or> unat a + Suc i \<le> j" for j by auto
  show ?case
    unfolding split using s' s1 i
    by (intro exI [of _ s']) (auto simp: write_trail.simps [of wr a bs i] fun_eq_iff)
qed

theorem write_segment_spec:
  assumes "inv s" "fits a (length bs)"
  shows "\<exists>s'. write_segment wr s a bs = Inr (None, s') \<and> inv s' \<and> mem s' = seg_overlay (unat a) bs (mem s)"
proof -
  let ?n = "length bs" let ?l = "min ?n (seg_lead (unat a))"
  let ?e = "?l + 4 * ((?n - ?l) div 4)"
  obtain s1 where s1: "write_lead wr a bs 0 s = Inr (None, ?l, s1)" "inv s1" "mem s1 = mem s"
    using lead_spec [OF assms, of 0] by auto
  have al: "(unat a + ?l) mod 4 = 0 \<or> ?l = ?n" using seg_lead_mod [of "unat a"] by (simp add: min_def)
  obtain s2 where s2: "write_words wr a bs ?l s1 = Inr (None, ?e, s2)" "inv s2"
    "mem s2 = (\<lambda>j. if unat a + ?l \<le> j \<and> j < unat a + ?e then bs ! (j - unat a) else mem s j)"
    using words_spec [OF s1(2) assms(2) min.cobounded1 al] unfolding s1(3) add.assoc by blast
  have "4 * ((?n - ?l) div 4) \<le> ?n - ?l" by (rule times_div_less_eq_dividend)
  moreover have "?l \<le> ?n" by (rule min.cobounded1)
  ultimately have e: "?e \<le> ?n" by linarith
  obtain s3 where s3: "write_trail wr a bs ?e s2 = Inr (None, ?n, s3)" "inv s3"
    "mem s3 = (\<lambda>j. if unat a + ?e \<le> j \<and> j < unat a + ?n \<and> j mod 4 = 0 then bs ! (j - unat a) else mem s2 j)"
    using trail_spec [OF s2(2) assms(2) e] by blast
  have "mem s3 = seg_overlay (unat a) bs (mem s)"
  proof
    fix j
    show "mem s3 j = seg_overlay (unat a) bs (mem s) j"
      unfolding s3(3) s2(3) seg_overlay_def seg_stored_def
      using e by (cases "seg_lead (unat a) \<le> ?n") (auto simp: min_def)
  qed
  moreover have "write_segment wr s a bs = Inr (None, s3)"
    using s1(1) s2(1) s3(1) by (simp add: write_segment_def)
  ultimately show ?thesis using s3(2) by blast
qed

end

end
