(* ===== verification/ElfLoad.thy ===== *)
theory ElfLoad
  imports ElfWrite
begin

text \<open>
  The loader as a whole.  \<open>quiet_bus\<close> is the interface its exits rely on: a bus write returns
  and leaves the heap blocks and open files alone.  \<open>byte_bus\<close> gives the memory image.  Both
  are interpreted on the SoC's bus.
\<close>

subsection \<open>Exits\<close>

locale quiet_bus =
  fixes wr :: "'s mmio_write"
    and inv :: "'s \<Rightarrow> bool"
    and ledger :: "'s \<Rightarrow> 'l"
  assumes quiet: "inv s \<Longrightarrow> \<exists>r s'. wr s a w v strb = Inr (r, s') \<and> inv s' \<and> ledger s' = ledger s"
begin

definition settled :: "'s \<Rightarrow> errno set \<Rightarrow> rc \<Rightarrow> 's \<Rightarrow> bool" where
  "settled s es rc s' \<longleftrightarrow> inv s' \<and> ledger s' = ledger s \<and> rc \<in> insert None (Some ` es)"

lemma settled_trans: "settled s es None s1 \<Longrightarrow> settled s1 es rc s' \<Longrightarrow> settled s es rc s'"
  by (simp add: settled_def)

lemma settled_refl: "inv s \<Longrightarrow> settled s es None s"
  by (simp add: settled_def)

lemma settled_mono: "settled s es rc s' \<Longrightarrow> es \<subseteq> fs \<Longrightarrow> settled s fs rc s'"
  by (auto simp: settled_def)

text \<open>One write of the loader and the test of its response.\<close>

lemma one_write:
  assumes "inv s"
    and cont: "\<And>s1. settled s {EFAULT} None s1 \<Longrightarrow> \<exists>rc j s'. k s1 = Inr (rc, j, s') \<and> settled s1 {EFAULT} rc s'"
  shows "\<exists>rc j s'. bind_res (wr s a w v strb) (\<lambda>(r, s1).
      if r \<noteq> AXI_RESP_OKAY then Inr (Some EFAULT, i, s1) else k s1) = Inr (rc, j, s') \<and> settled s {EFAULT} rc s'"
proof -
  obtain r s1 where w: "wr s a w v strb = Inr (r, s1)" "inv s1" "ledger s1 = ledger s"
    using quiet [OF assms(1)] by blast
  show ?thesis
  proof (cases "r = AXI_RESP_OKAY")
    case False
    with w show ?thesis by (simp add: settled_def)
  next
    case True
    have s1: "settled s {EFAULT} None s1" using w by (simp add: settled_def)
    with cont obtain rc j s' where "k s1 = Inr (rc, j, s')" "settled s1 {EFAULT} rc s'" by blast
    with w True settled_trans [OF s1] show ?thesis by simp
  qed
qed

lemma lead_settled: "inv s \<Longrightarrow> \<exists>rc j s'. write_lead wr a bs i s = Inr (rc, j, s') \<and> settled s {EFAULT} rc s'"
proof (induction "length bs - i" arbitrary: i s rule: less_induct)
  case less
  show ?case
  proof (cases "i < length bs \<and> (a + of_nat i) AND 3 \<noteq> 0")
    case False
    with less.prems show ?thesis by (simp only: write_lead.simps [of wr a bs i] if_False) (simp add: settled_refl)
  next
    case True
    show ?thesis
      unfolding write_lead.simps [of wr a bs i] if_P [OF True]
      by (rule one_write [OF less.prems], rule less.hyps) (use True in \<open>auto simp: settled_def\<close>)
  qed
qed

lemma words_settled: "inv s \<Longrightarrow> \<exists>rc j s'. write_words wr a bs i s = Inr (rc, j, s') \<and> settled s {EFAULT} rc s'"
proof (induction "length bs - i" arbitrary: i s rule: less_induct)
  case less
  show ?case
  proof (cases "i + 4 \<le> length bs")
    case False
    with less.prems show ?thesis by (simp add: write_words.simps [of wr a bs i] settled_refl)
  next
    case True
    show ?thesis
      unfolding write_words.simps [of wr a bs i] if_P [OF True]
      by (rule one_write [OF less.prems], rule less.hyps) (use True in \<open>auto simp: settled_def\<close>)
  qed
qed

lemma trail_settled: "inv s \<Longrightarrow> \<exists>rc j s'. write_trail wr a bs i s = Inr (rc, j, s') \<and> settled s {EFAULT} rc s'"
proof (induction "length bs - i" arbitrary: i s rule: less_induct)
  case less
  show ?case
  proof (cases "i < length bs")
    case False
    with less.prems show ?thesis by (simp add: write_trail.simps [of wr a bs i] settled_refl)
  next
    case True
    show ?thesis
      unfolding write_trail.simps [of wr a bs i] if_P [OF True]
      by (rule one_write [OF less.prems], rule less.hyps) (use True in \<open>auto simp: settled_def\<close>)
  qed
qed

lemma segment_settled:
  assumes "inv s"
  shows "\<exists>rc s'. write_segment wr s a bs = Inr (rc, s') \<and> settled s {EFAULT} rc s'"
proof -
  obtain r1 i s1 where 1: "write_lead wr a bs 0 s = Inr (r1, i, s1)" "settled s {EFAULT} r1 s1"
    using lead_settled [OF assms] by blast
  then have "inv s1" by (simp add: settled_def)
  then obtain r2 j s2 where 2: "write_words wr a bs i s1 = Inr (r2, j, s2)" "settled s1 {EFAULT} r2 s2"
    using words_settled by blast
  then have "inv s2" by (simp add: settled_def)
  then obtain r3 k s3 where 3: "write_trail wr a bs j s2 = Inr (r3, k, s3)" "settled s2 {EFAULT} r3 s3"
    using trail_settled by blast
  show ?thesis
    using 1 2 3 by (cases r1; cases r2) (auto simp: write_segment_def intro: settled_trans)
qed

abbreviation load_errors :: "errno set" where "load_errors \<equiv> {EIO, EINVAL, EFAULT}"

lemma chunks_settled:
  "inv s \<Longrightarrow> \<exists>rc s'. load_chunks wr a n f s = Inr (rc, s') \<and> settled s load_errors rc s'"
proof (induction n arbitrary: a f s rule: less_induct)
  case (less n)
  show ?case
  proof (cases "n = 0")
    case True
    with less.prems show ?thesis by (simp add: load_chunks.simps [of wr a 0] settled_refl)
  next
    case False
    let ?c = "if n > CHUNK then CHUNK else n"
    show ?thesis
    proof (cases "host_fread f ?c")
      case None
      with less.prems False show ?thesis
        by (simp add: load_chunks.simps [of wr a n] Let_def settled_def)
    next
      case (Some bf)
      obtain bs f1 where bf: "bf = (bs, f1)" by fastforce
      obtain rc s1 where s1: "write_segment wr s a bs = Inr (rc, s1)" "settled s load_errors rc s1"
        using segment_settled [OF less.prems, of a bs] settled_mono by blast
      have "n - ?c < n" using False by (simp add: CHUNK_def)
      moreover have "inv s1" using s1(2) by (simp add: settled_def)
      ultimately obtain rc' s' where "load_chunks wr (a + of_nat ?c) (n - ?c) f1 s1 = Inr (rc', s')"
        "settled s1 load_errors rc' s'"
        using less.IH by blast
      with s1 Some bf False settled_trans show ?thesis
        by (cases rc) (auto simp: load_chunks.simps [of wr a n] Let_def)
    qed
  qed
qed

lemma phdr_settled:
  "inv s \<Longrightarrow> \<exists>rc s'. load_phdr wr ph f s = Inr (rc, s') \<and> settled s load_errors rc s'"
  using chunks_settled by (auto simp: load_phdr_def settled_def split: option.splits)

lemma phdrs_settled:
  "inv s \<Longrightarrow> \<exists>rc s'. load_phdrs wr eh i f s = Inr (rc, s') \<and> settled s load_errors rc s'"
proof (induction "unat (e_phnum eh) - i" arbitrary: i s rule: less_induct)
  case less
  show ?case
  proof (cases "i < unat (e_phnum eh)")
    case False
    with less.prems show ?thesis by (simp add: load_phdrs.simps [of wr eh i] settled_refl)
  next
    case True
    have d: "unat (e_phnum eh) - Suc i < unat (e_phnum eh) - i" using True by simp
    have step: "\<exists>rc s'. bind_res (load_phdr wr ph g s) (\<lambda>(rc, s).
        if rc \<noteq> None then Inr (rc, s) else load_phdrs wr eh (Suc i) f s) = Inr (rc, s') \<and>
        settled s load_errors rc s'" for ph g
    proof -
      obtain rc s1 where s1: "load_phdr wr ph g s = Inr (rc, s1)" "settled s load_errors rc s1"
        using phdr_settled [OF less.prems] by blast
      then have "inv s1" by (simp add: settled_def)
      then obtain rc' s' where "load_phdrs wr eh (Suc i) f s1 = Inr (rc', s')" "settled s1 load_errors rc' s'"
        using less.hyps [OF d] by blast
      with s1 settled_trans show ?thesis by (cases rc) auto
    qed
    show ?thesis
      using step True less.prems
      by (auto simp: load_phdrs.simps [of wr eh i] settled_def split: option.splits)
  qed
qed

end

subsection \<open>The memory image\<close>

text \<open>The segments a file describes: program header \<open>i\<close>, whether it is loaded, its bytes,
  and what loading it does to memory.\<close>

definition phdr_off :: "Elf32_Ehdr \<Rightarrow> nat \<Rightarrow> nat" where
  "phdr_off eh i = unat (e_phoff eh) + i * sizeof_Phdr"

definition file_phdr :: "cfile \<Rightarrow> Elf32_Ehdr \<Rightarrow> nat \<Rightarrow> Elf32_Phdr" where
  "file_phdr f eh i = decode_Phdr (take sizeof_Phdr (drop (phdr_off eh i) (f_data f)))"

definition loadable :: "Elf32_Phdr \<Rightarrow> bool" where
  "loadable ph \<longleftrightarrow> p_type ph = PT_LOAD \<and> p_filesz ph \<noteq> 0"

definition seg_bytes :: "cfile \<Rightarrow> Elf32_Phdr \<Rightarrow> uint8 list" where
  "seg_bytes f ph = take (unat (p_filesz ph)) (drop (unat (p_offset ph)) (f_data f))"

definition place :: "cfile \<Rightarrow> (nat \<Rightarrow> uint8) \<Rightarrow> Elf32_Phdr \<Rightarrow> nat \<Rightarrow> uint8" where
  "place f m ph = (if loadable ph then seg_overlay (unat (p_paddr ph)) (seg_bytes f ph) m else m)"

text \<open>A program header the loader can honour in the window from \<open>lo\<close> to \<open>hi\<close>.\<close>

definition phdr_ok :: "nat \<Rightarrow> nat \<Rightarrow> cfile \<Rightarrow> Elf32_Phdr \<Rightarrow> bool" where
  "phdr_ok lo hi f ph \<longleftrightarrow>
     (loadable ph \<longrightarrow>
        p_paddr ph = p_vaddr ph \<and> unat (p_paddr ph) mod 4 = 0 \<and>
        lo \<le> unat (p_paddr ph) \<and> unat (p_paddr ph) + unat (p_filesz ph) \<le> hi \<and>
        unat (p_offset ph) + unat (p_filesz ph) \<le> length (f_data f))"

definition phdrs_ok :: "nat \<Rightarrow> nat \<Rightarrow> cfile \<Rightarrow> Elf32_Ehdr \<Rightarrow> bool" where
  "phdrs_ok lo hi f eh \<longleftrightarrow>
     f_seekable f \<and>
     (\<forall>i < unat (e_phnum eh).
        phdr_off eh i + sizeof_Phdr \<le> length (f_data f) \<and> phdr_ok lo hi f (file_phdr f eh i))"

text \<open>The verdict on a file: the code of the first program header that is unreadable, asks for two
  different addresses or wants more bytes than the file has.\<close>

definition phdr_verdict :: "cfile \<Rightarrow> Elf32_Ehdr \<Rightarrow> nat \<Rightarrow> rc" where
  "phdr_verdict f eh i =
     (let ph = file_phdr f eh i in
      if \<not> f_seekable f \<or> length (f_data f) < phdr_off eh i + sizeof_Phdr then Some EIO
      else if \<not> loadable ph then None
      else if p_paddr ph \<noteq> p_vaddr ph then Some EINVAL
      else if length (f_data f) < unat (p_offset ph) + unat (p_filesz ph) then Some EIO else None)"

fun first_error :: "rc list \<Rightarrow> rc" where
  "first_error [] = None"
| "first_error (rc # rcs) = (if rc \<noteq> None then rc else first_error rcs)"

definition elf_verdict :: "cfile \<Rightarrow> Elf32_Ehdr \<Rightarrow> rc" where
  "elf_verdict f eh = first_error (map (phdr_verdict f eh) [0..<unat (e_phnum eh)])"

text \<open>Every segment the loader would copy lies in the window.\<close>

definition segments_in :: "nat \<Rightarrow> nat \<Rightarrow> cfile \<Rightarrow> Elf32_Ehdr \<Rightarrow> bool" where
  "segments_in lo hi f eh \<longleftrightarrow>
     (\<forall>i < unat (e_phnum eh). let ph = file_phdr f eh i in
        loadable ph \<and> p_paddr ph = p_vaddr ph \<longrightarrow>
          lo \<le> unat (p_paddr ph) \<and> unat (p_paddr ph) + unat (p_filesz ph) \<le> hi)"

text \<open>Two adjacent pieces, the first of them whole words from a word boundary, are stored like
  one segment, so the 64 KiB chunks do not show.\<close>

lemma seg_overlay_append:
  assumes "a mod 4 = 0" "length xs mod 4 = 0"
  shows "seg_overlay (a + length xs) ys (seg_overlay a xs m) = seg_overlay a (xs @ ys) m"
proof
  fix j
  let ?l = "length xs" let ?n = "length ys"
  have l: "4 * (?l div 4) = ?l" using assms(2) by auto
  have q: "4 * ((?l + ?n) div 4) = ?l + 4 * (?n div 4)"
    using assms(2) l by (metis add_mult_distrib2 div_plus_div_distrib_dvd_left mod_0_imp_dvd)
  have al: "(a + ?l) mod 4 = 0" using assms by (simp add: mod_add_eq [symmetric])
  have md: "(?l + k) mod 4 = k mod 4" for k using assms(2) by (simp add: mod_add_left_eq [symmetric])
  show "seg_overlay (a + ?l) ys (seg_overlay a xs m) j = seg_overlay a (xs @ ys) m j"
  proof (cases "a + ?l \<le> j")
    case True
    then obtain k where j: "j = a + (?l + k)" by (metis add.assoc le_Suc_ex)
    have "\<not> ?l + k < 4 * (?l div 4)" unfolding l by simp
    then show ?thesis
      unfolding j
      by (auto simp: seg_overlay_def seg_stored_aligned [OF assms(1)] seg_stored_aligned [OF al] q md nth_append)
  next
    case False
    then show ?thesis
      using l by (auto simp: seg_overlay_def seg_stored_aligned [OF assms(1)] q nth_append)
  qed
qed

lemma seg_overlay_nil [simp]: "seg_overlay a [] m = m"
  by (auto simp: seg_overlay_def seg_stored_def)

context byte_bus
begin

lemma chunks_spec:
  "inv s \<Longrightarrow> fits a n \<Longrightarrow> unat a mod 4 = 0 \<Longrightarrow> f_pos f + n \<le> length (f_data f) \<Longrightarrow>
   \<exists>s'. load_chunks wr a n f s = Inr (None, s') \<and> inv s' \<and>
     mem s' = seg_overlay (unat a) (take n (drop (f_pos f) (f_data f))) (mem s)"
proof (induction n arbitrary: a f s rule: less_induct)
  case (less n)
  show ?case
  proof (cases "n = 0")
    case True
    with less.prems show ?thesis by (simp add: load_chunks.simps [of wr a 0])
  next
    case False
    let ?c = "if n > CHUNK then CHUNK else n"
    let ?xs = "take ?c (drop (f_pos f) (f_data f))"
    let ?f = "f\<lparr>f_pos := f_pos f + ?c\<rparr>"
    have c: "0 < ?c" "?c \<le> n" "?c = n \<or> ?c mod 4 = 0" using False by (auto simp: CHUNK_def)
    have fread: "host_fread f ?c = Some (?xs, ?f)" using c less.prems(4) by (simp add: host_fread_def)
    have len: "length ?xs = ?c" using c less.prems(4) by simp
    have "fits a (length ?xs)" using less.prems(2) c(2) unfolding len fits_def by linarith
    then obtain s1 where s1: "write_segment wr s a ?xs = Inr (None, s1)" "inv s1"
      "mem s1 = seg_overlay (unat a) ?xs (mem s)"
      using write_segment_spec [OF less.prems(1)] by blast
    have unf: "load_chunks wr a n f s = load_chunks wr (a + of_nat ?c) (n - ?c) ?f s1"
      using False s1(1) fread by (simp add: load_chunks.simps [of wr a n] Let_def)
    have split: "take n (drop (f_pos f) (f_data f)) =
        ?xs @ take (n - ?c) (drop (f_pos ?f) (f_data ?f))"
      using c(2) take_add [of ?c "n - ?c" "drop (f_pos f) (f_data f)"] by (simp add: add.commute)
    have ua: "unat (a + of_nat ?c) = unat a + ?c" using less.prems(2) c(2) by (rule fits_addr)
    show ?thesis
    proof (cases "?c = n")
      case True
      with s1 show ?thesis unfolding unf by (simp add: load_chunks.simps)
    next
      case False
      then have al: "?c mod 4 = 0" "unat (a + of_nat ?c) mod 4 = 0"
        using c(3) less.prems(3) ua by (auto simp: mod_add_eq [symmetric])
      have fit: "fits (a + of_nat ?c) (n - ?c)"
        using less.prems(2) c(2) ua unfolding fits_def by linarith
      have pos: "f_pos ?f + (n - ?c) \<le> length (f_data ?f)" using less.prems(4) c(2) by simp
      have dec: "n - ?c < n" using c by linarith
      obtain s' where "load_chunks wr (a + of_nat ?c) (n - ?c) ?f s1 = Inr (None, s')" "inv s'"
        "mem s' = seg_overlay (unat a + ?c) (take (n - ?c) (drop (f_pos ?f) (f_data ?f))) (mem s1)"
        using less.IH [OF dec s1(2) fit al(2) pos] unfolding ua by blast
      then show ?thesis
        unfolding unf split s1(3)
        using seg_overlay_append [OF less.prems(3), of ?xs, unfolded len, OF al(1)] by metis
    qed
  qed
qed

lemma phdr_spec:
  assumes "inv s" "f_seekable f" "phdr_ok lo hi f ph"
  shows "\<exists>s'. load_phdr wr ph f s = Inr (None, s') \<and> inv s' \<and> mem s' = place f (mem s) ph"
  using assms chunks_spec [OF assms(1), of "p_paddr ph" "unat (p_filesz ph)" "f\<lparr>f_pos := unat (p_offset ph)\<rparr>"]
  by (auto simp: load_phdr_def place_def phdr_ok_def loadable_def fits_def host_fseek_def seg_bytes_def)

lemma phdrs_spec:
  assumes "phdrs_ok lo hi f eh" "inv s" "i \<le> unat (e_phnum eh)"
  shows "\<exists>s'. load_phdrs wr eh i f s = Inr (None, s') \<and> inv s' \<and>
    mem s' = foldl (place f) (mem s) (map (file_phdr f eh) [i..<unat (e_phnum eh)])"
  using assms(2,3)
proof (induction "unat (e_phnum eh) - i" arbitrary: i s)
  case 0
  then show ?case by (simp add: load_phdrs.simps [of wr eh i])
next
  case (Suc d)
  then have i: "i < unat (e_phnum eh)" and d: "d = unat (e_phnum eh) - Suc i" by auto
  let ?g = "f\<lparr>f_pos := phdr_off eh i + sizeof_Phdr\<rparr>"
  have ok: "phdr_off eh i + sizeof_Phdr \<le> length (f_data f)" "phdr_ok lo hi f (file_phdr f eh i)" "f_seekable f"
    using assms(1) i by (auto simp: phdrs_ok_def)
  then have okg: "phdr_ok lo hi ?g (file_phdr f eh i)" "f_seekable ?g" by (auto simp: phdr_ok_def)
  have pl: "place ?g = place f" by (simp add: place_def seg_bytes_def fun_eq_iff)
  obtain s1 where s1: "load_phdr wr (file_phdr f eh i) ?g s = Inr (None, s1)" "inv s1"
    "mem s1 = place f (mem s) (file_phdr f eh i)"
    using phdr_spec [OF Suc.prems(1) okg(2,1)] unfolding pl by blast
  obtain s' where "load_phdrs wr eh (Suc i) f s1 = Inr (None, s')" "inv s'"
    "mem s' = foldl (place f) (mem s1) (map (file_phdr f eh) [Suc i..<unat (e_phnum eh)])"
    using Suc.hyps(1) [OF d s1(2)] i by auto
  then show ?case
    using s1 ok i
    by (simp add: load_phdrs.simps [of wr eh i] host_fseek_def host_fread_def phdr_off_def [symmetric]
        file_phdr_def [symmetric] upt_conv_Cons)
qed

text \<open>In the window no bus write fails, so the result code is a function of the file alone.\<close>

lemma chunks_verdict:
  "inv s \<Longrightarrow> fits a n \<Longrightarrow> \<exists>s'. load_chunks wr a n f s =
     Inr (if n = 0 \<or> f_pos f + n \<le> length (f_data f) then None else Some EIO, s') \<and> inv s'"
proof (induction n arbitrary: a f s rule: less_induct)
  case (less n)
  show ?case
  proof (cases "n = 0")
    case True
    with less.prems show ?thesis by (simp add: load_chunks.simps [of wr a 0])
  next
    case False
    let ?c = "if n > CHUNK then CHUNK else n"
    let ?xs = "take ?c (drop (f_pos f) (f_data f))"
    let ?f = "f\<lparr>f_pos := f_pos f + ?c\<rparr>"
    have c: "0 < ?c" "?c \<le> n" using False by (auto simp: CHUNK_def)
    show ?thesis
    proof (cases "f_pos f + ?c \<le> length (f_data f)")
      case short: False
      then have "\<not> f_pos f + n \<le> length (f_data f)" using c(2) by linarith
      with short False less.prems(1) show ?thesis
        by (simp add: load_chunks.simps [of wr a n] host_fread_def Let_def)
    next
      case True
      then have fread: "host_fread f ?c = Some (?xs, ?f)" by (simp add: host_fread_def)
      have "length ?xs \<le> n" using c(2) by simp
      then have "fits a (length ?xs)" using less.prems(2) unfolding fits_def by linarith
      then obtain s1 where s1: "write_segment wr s a ?xs = Inr (None, s1)" "inv s1"
        using write_segment_spec [OF less.prems(1)] by blast
      have unf: "load_chunks wr a n f s = load_chunks wr (a + of_nat ?c) (n - ?c) ?f s1"
        using False s1(1) fread by (simp add: load_chunks.simps [of wr a n] Let_def)
      have "unat (a + of_nat ?c) = unat a + ?c" using less.prems(2) c(2) by (rule fits_addr)
      then have "fits (a + of_nat ?c) (n - ?c)" using less.prems(2) c(2) unfolding fits_def by linarith
      moreover have "n - ?c < n" using c by linarith
      ultimately obtain s' where "load_chunks wr (a + of_nat ?c) (n - ?c) ?f s1 =
          Inr (if n - ?c = 0 \<or> f_pos ?f + (n - ?c) \<le> length (f_data ?f) then None else Some EIO, s')" "inv s'"
        using less.IH s1(2) by blast
      moreover have "(n - ?c = 0 \<or> f_pos ?f + (n - ?c) \<le> length (f_data ?f)) = (f_pos f + n \<le> length (f_data f))"
        using True c(2) by auto
      ultimately show ?thesis unfolding unf using False by simp
    qed
  qed
qed

lemma phdr_verdict_step:
  assumes "inv s" "i < unat (e_phnum eh)" "segments_in lo hi f eh" "f_seekable f"
    and "phdr_off eh i + sizeof_Phdr \<le> length (f_data f)" "f_data g = f_data f" "f_seekable g"
  shows "\<exists>s'. load_phdr wr (file_phdr f eh i) g s = Inr (phdr_verdict f eh i, s') \<and> inv s'"
proof -
  let ?ph = "file_phdr f eh i"
  consider "\<not> loadable ?ph" | "loadable ?ph" "p_paddr ?ph \<noteq> p_vaddr ?ph" | "loadable ?ph" "p_paddr ?ph = p_vaddr ?ph"
    by blast
  then show ?thesis
  proof cases
    case 3
    then have "fits (p_paddr ?ph) (unat (p_filesz ?ph))"
      using assms(2,3) by (simp add: segments_in_def fits_def Let_def)
    moreover have "unat (p_filesz ?ph) \<noteq> 0" using 3 by (simp add: loadable_def unat_eq_0)
    ultimately show ?thesis
      using chunks_verdict [OF assms(1), of "p_paddr ?ph" "unat (p_filesz ?ph)" "g\<lparr>f_pos := unat (p_offset ?ph)\<rparr>"] 3 assms(4-7)
      by (auto simp: load_phdr_def phdr_verdict_def loadable_def host_fseek_def Let_def)
  qed (use assms(1,4,5) in \<open>auto simp: load_phdr_def phdr_verdict_def loadable_def Let_def\<close>)
qed

lemma phdrs_verdict:
  assumes "segments_in lo hi f eh" "inv s" "i \<le> unat (e_phnum eh)"
  shows "\<exists>s'. load_phdrs wr eh i f s =
    Inr (first_error (map (phdr_verdict f eh) [i..<unat (e_phnum eh)]), s') \<and> inv s'"
  using assms(2,3)
proof (induction "unat (e_phnum eh) - i" arbitrary: i s)
  case 0
  then show ?case by (simp add: load_phdrs.simps [of wr eh i])
next
  case (Suc d)
  then have i: "i < unat (e_phnum eh)" and d: "d = unat (e_phnum eh) - Suc i" by auto
  let ?g = "f\<lparr>f_pos := phdr_off eh i + sizeof_Phdr\<rparr>"
  show ?case
  proof (cases "f_seekable f \<and> phdr_off eh i + sizeof_Phdr \<le> length (f_data f)")
    case False
    then have "phdr_verdict f eh i = Some EIO" by (auto simp: phdr_verdict_def Let_def)
    with False i Suc.prems(1) show ?thesis
      by (auto simp: load_phdrs.simps [of wr eh i] host_fseek_def host_fread_def phdr_off_def upt_conv_Cons)
  next
    case True
    obtain s1 where s1: "load_phdr wr (file_phdr f eh i) ?g s = Inr (phdr_verdict f eh i, s1)" "inv s1"
      using phdr_verdict_step [OF Suc.prems(1) i assms(1), of ?g] True by auto
    obtain s' where "load_phdrs wr eh (Suc i) f s1 =
        Inr (first_error (map (phdr_verdict f eh) [Suc i..<unat (e_phnum eh)]), s')" "inv s'"
      using Suc.hyps(1) [OF d s1(2)] i by auto
    then show ?thesis
      using s1 True i
      by (auto simp: load_phdrs.simps [of wr eh i] host_fseek_def host_fread_def phdr_off_def [symmetric]
          file_phdr_def [symmetric] upt_conv_Cons)
  qed
qed

end

end
