(* ===== verification/ElfSoC.thy ===== *)
theory ElfSoC
  imports ElfLoad
begin

text \<open>
  The loader on the SoC: its bus interfaces interpreted on \<open>soc_write\<close>, the whole of
  \<open>load_elf\<close> with every exit, and the memory image a well-formed file leaves behind.
\<close>

text \<open>DRAM by bus address.\<close>

definition dram_view :: "store \<Rightarrow> nat \<Rightarrow> uint8" where
  "dram_view s j = (if 0x80000000 \<le> j then dram_bytes s (j - 0x80000000) else 0)"

lemma dram_view_host: "dram_view (t, h) = dram_view (t, h')"
  by (simp add: dram_view_def dram_bytes_def fun_eq_iff)

lemma soc_inv_host: "soc_inv (t, h) = soc_inv (t, h')"
  by (simp add: soc_inv_def)

lemma dram_view_write:
  assumes "soc_inv s" "dram_addr a w" "w = 4 \<longrightarrow> strb = 0xF"
  shows "\<exists>s'. soc_write s a w v strb = Inr (AXI_RESP_OKAY, s') \<and> soc_inv s' \<and>
    dram_view s' = strobed (dram_view s) (unat a) (unat w) v strb"
proof -
  have a: "0x80000000 \<le> unat a" using assms(2) by (simp add: dram_addr_def)
  have "dram_view (put_dram (dram_store (dram (fst s)) (a - 0x80000000) w v strb) s) =
      strobed (dram_view s) (unat a) (unat w) v strb"
    using a by (auto simp: fun_eq_iff dram_view_def dram_bytes_store [OF assms(2)] strobed_def)
  then show ?thesis using soc_write_dram [OF assms, of v] assms(1) by simp
qed

interpretation soc_mem: byte_bus soc_write soc_inv dram_view "0x80000000" "0x84000000"
proof (unfold_locales, goal_cases)
  case 1
  show ?case by simp
next
  case (2 s a v)
  then have "dram_addr a 4" by (simp add: dram_addr_def axi_width_def)
  then obtain s' where s': "soc_write s a 4 v 0xF = Inr (AXI_RESP_OKAY, s')" "soc_inv s'"
    "dram_view s' = strobed (dram_view s) (unat a) 4 v 0xF"
    using dram_view_write [OF 2(1), of a 4 "0xF" v] by auto
  have full: "i < 4 \<Longrightarrow> bit (0xF :: uint8) i" for i
    by (simp add: numeral_eq_Suc less_Suc_eq) (elim disjE; simp)
  have "dram_view s' = (\<lambda>j. if unat a \<le> j \<and> j < unat a + 4 then le_byte v (j - unat a) else dram_view s j)"
    unfolding s'(3) strobed_def using full by fastforce
  with s' show ?case by blast
next
  case (3 s a v strb)
  then have "dram_addr a 1" by (simp add: dram_addr_def axi_width_def)
  then obtain s' where s': "soc_write s a 1 v strb = Inr (AXI_RESP_OKAY, s')" "soc_inv s'"
    "dram_view s' = strobed (dram_view s) (unat a) 1 v strb"
    using dram_view_write [OF 3(1), of a 1 strb v] by auto
  have one: "unat a \<le> j \<and> j < unat a + 1 \<longleftrightarrow> j = unat a" for j by auto
  have "dram_view s' = (if bit strb 0 then (dram_view s)(unat a := le_byte v 0) else dram_view s)"
    unfolding s'(3) strobed_def by (auto simp: fun_eq_iff)
  with s' show ?case by blast
qed

text \<open>A bus write leaves the heap, the open files, the memory map and the ticker alone.\<close>

definition host_ledger ::
  "store \<Rightarrow> nat \<times> nat \<times> (string \<Rightarrow> cfile option) \<times> dev_ref MemoryMap \<times> tick_ref Ticker" where
  "host_ledger s = (h_live (snd s), h_open (snd s), h_fs (snd s), memmap (fst s), ticker (fst s))"

lemma fputc_ledger:
  "host_fputc c f h = (e, h') \<Longrightarrow> h_live h' = h_live h \<and> h_open h' = h_open h \<and> h_fs h' = h_fs h"
  by (auto simp: host_fputc_def split: list.splits bool.splits)

lemma uart_write_ledger:
  "UART_MmioDevice_write (u, h) off w v strb = Inr (r, u', h') \<Longrightarrow>
   h_live h' = h_live h \<and> h_open h' = h_open h \<and> h_fs h' = h_fs h"
  by (auto simp: UART_MmioDevice_write_def Let_def dest: fputc_ledger split: if_splits prod.splits)

lemma vtbl_write_ledger:
  assumes "MmioDevice_write soc_vtbl d s off w v strb = Inr (r, s')"
  shows "host_ledger s' = host_ledger s"
proof (cases d)
  case Ref_UART
  with assms show ?thesis
    using uart_write_ledger [of "uart (fst s)" "snd s" off w v strb r]
    by (auto simp: MmioDevice_write_def vtbl_defs lift_write_Inr lens_defs host_ledger_def)
qed (use assms in \<open>auto simp: MmioDevice_write_def vtbl_defs lift_write_Inr lens_defs host_ledger_def\<close>)

interpretation soc_quiet: quiet_bus soc_write soc_inv host_ledger
proof
  fix s a w v strb
  assume s: "soc_inv s"
  then obtain r s' where w: "soc_write s a w v strb = Inr (r, s')"
    using soc_bus.bus_write_total [of s "memmap (fst s)" a w v strb] by (auto simp: soc_write_def)
  then have "soc_inv s'" using soc_bus.bus_write_inv [OF s] by (simp add: soc_write_def)
  moreover have "host_ledger s' = host_ledger s"
    using w vtbl_write_ledger
    by (auto simp: soc_write_def MemoryMap_write_def split: option.splits)
  ultimately show "\<exists>r s'. soc_write s a w v strb = Inr (r, s') \<and> soc_inv s' \<and> host_ledger s' = host_ledger s"
    using w by blast
qed

subsection \<open>The whole loader\<close>

text \<open>The header a path leads to, when the loader gets past its checks.\<close>

definition elf_header :: "host \<Rightarrow> string \<Rightarrow> (cfile \<times> Elf32_Ehdr) option" where
  "elf_header h path =
     (case h_fs h path of
        None \<Rightarrow> None
      | Some f \<Rightarrow>
          if sizeof_Ehdr \<le> length (f_data f) \<and> check_Ehdr (decode_Ehdr (take sizeof_Ehdr (f_data f))) = None
          then Some (f, decode_Ehdr (take sizeof_Ehdr (f_data f))) else None)"

lemma elf_header_entry: "elf_header h path = Some (f, eh) \<Longrightarrow> e_entry eh = ELF_LOADER_DRAM_BASE"
  by (auto simp: elf_header_def check_Ehdr_def split: option.splits if_splits)

lemma load_elf_header:
  assumes "elf_header h path = Some (f, eh)" "h_fs h path = Some f"
  shows "load_elf wr path (t, h) p =
    (let (ok, h1) = heap_calloc (of_nat CHUNK) (h\<lparr>h_open := h_open h + 1\<rparr>) in
     if \<not> ok then Inr (Some ENOMEM, p, (t, host_fclose h1))
     else bind_res (load_phdrs wr eh 0 (f\<lparr>f_pos := sizeof_Ehdr\<rparr>) (t, h1)) (\<lambda>(rc, s).
       if rc \<noteq> None then Inr (rc, p, end_load s)
       else Inr (None, map_option (\<lambda>_. e_entry eh) p, end_load s)))"
  using assms
  by (auto simp: load_elf_def elf_header_def host_fopen_def host_fread_def Let_def split: if_splits)

lemma load_elf_rejects:
  assumes "elf_header h path = None"
  shows "load_elf wr path (t, h) p = Inr (Some EIO, p, (t, h)) \<or>
    load_elf wr path (t, h) p = Inr (Some EINVAL, p, (t, h))"
proof (cases "h_fs h path")
  case None
  then show ?thesis by (simp add: load_elf_def host_fopen_def)
next
  case (Some f)
  then show ?thesis
    using assms
    by (auto simp: load_elf_def elf_header_def host_fopen_def host_fread_def host_fclose_def Let_def
        check_Ehdr_def split: if_splits)
qed

lemma elf_header_fs: "elf_header h path = Some (f, eh) \<Longrightarrow> h_fs h path = Some f"
  by (auto simp: elf_header_def split: option.splits if_splits)

text \<open>What every call of the loader gives.\<close>

definition load_post :: "SnakeSoC \<Rightarrow> host \<Rightarrow> string \<Rightarrow> out32 \<Rightarrow> rc \<Rightarrow> out32 \<Rightarrow> store \<Rightarrow> bool" where
  "load_post t h path p rc q s' \<longleftrightarrow>
     soc_inv s' \<and> host_ledger s' = host_ledger (t, h) \<and>
     (case rc of
        Some e \<Rightarrow> e \<in> {EIO, EINVAL, ENOMEM, EFAULT} \<and> q = p
      | None \<Rightarrow> elf_header h path \<noteq> None \<and> q = map_option (\<lambda>_. ELF_LOADER_DRAM_BASE) p)"

lemma load_elf_post:
  assumes "soc_inv (t, h)"
  shows "\<exists>rc q s'. SnakeSoC_load_elf path (t, h) p = Inr (rc, q, s') \<and> load_post t h path p rc q s'"
proof (cases "elf_header h path")
  case None
  then show ?thesis
    using load_elf_rejects [OF None, of soc_write t p] assms
    by (auto simp: SnakeSoC_load_elf_def load_post_def)
next
  case (Some fe)
  obtain f eh where fe: "fe = (f, eh)" by fastforce
  obtain ok h1 where c: "heap_calloc (of_nat CHUNK) (h\<lparr>h_open := h_open h + 1\<rparr>) = (ok, h1)" by fastforce
  have h1: "h_live h1 = h_live h + of_bool ok" "h_open h1 = h_open h + 1" "h_fs h1 = h_fs h"
    using c by (auto simp: heap_calloc_def)
  note unf = load_elf_header [OF Some [unfolded fe] elf_header_fs [OF Some [unfolded fe]], of soc_write t p]
  show ?thesis
  proof (cases ok)
    case False
    have "soc_inv (t, host_fclose h1)" using assms soc_inv_host by blast
    with False c h1 show ?thesis
      by (auto simp: SnakeSoC_load_elf_def unf load_post_def host_ledger_def host_fclose_def)
  next
    case True
    have "soc_inv (t, h1)" using assms soc_inv_host by blast
    then obtain rc s' where s': "load_phdrs soc_write eh 0 (f\<lparr>f_pos := sizeof_Ehdr\<rparr>) (t, h1) = Inr (rc, s')"
      "soc_quiet.settled (t, h1) {EIO, EINVAL, EFAULT} rc s'"
      using soc_quiet.phdrs_settled by blast
    then have inv: "soc_inv s'" "host_ledger s' = host_ledger (t, h1)" "rc \<in> insert None (Some ` {EIO, EINVAL, EFAULT})"
      by (simp_all only: soc_quiet.settled_def)
    have post: "soc_inv (end_load s')" "host_ledger (end_load s') = host_ledger (t, h)"
      using inv(1,2) h1 True soc_inv_host [of "fst s'" "snd s'"]
      by (auto simp: end_load_def host_ledger_def host_fclose_def heap_free_def)
    show ?thesis
      using c True s'(1) inv(3) post elf_header_entry [OF Some [unfolded fe]] Some
      by (cases rc) (auto simp: SnakeSoC_load_elf_def unf load_post_def)
  qed
qed

text \<open>What the loader makes of memory: each segment in header order, without the edge bytes that the
  byte writes lose.\<close>

definition elf_image :: "cfile \<Rightarrow> Elf32_Ehdr \<Rightarrow> (nat \<Rightarrow> uint8) \<Rightarrow> nat \<Rightarrow> uint8" where
  "elf_image f eh m = foldl (place f) m (map (file_phdr f eh) [0..<unat (e_phnum eh)])"

lemma place_pos [simp]: "place (f\<lparr>f_pos := n\<rparr>) = place f"
  by (simp add: place_def seg_bytes_def fun_eq_iff)

lemma file_phdr_pos [simp]: "file_phdr (f\<lparr>f_pos := n\<rparr>) = file_phdr f"
  by (simp add: file_phdr_def fun_eq_iff)

lemma phdrs_ok_pos [simp]: "phdrs_ok lo hi (f\<lparr>f_pos := n\<rparr>) eh = phdrs_ok lo hi f eh"
  by (simp add: phdrs_ok_def phdr_ok_def)

lemma load_elf_image:
  assumes "soc_inv (t, h)" "elf_header h path = Some (f, eh)" "phdrs_ok 0x80000000 0x84000000 f eh"
    and "heap_grant (of_nat CHUNK) h"
  shows "\<exists>s'. SnakeSoC_load_elf path (t, h) p = Inr (None, map_option (\<lambda>_. ELF_LOADER_DRAM_BASE) p, s') \<and>
    dram_view s' = elf_image f eh (dram_view (t, h))"
proof -
  obtain h1 where c: "heap_calloc (of_nat CHUNK) (h\<lparr>h_open := h_open h + 1\<rparr>) = (True, h1)"
    using assms(4) by (simp add: heap_calloc_def heap_grant_def)
  have "soc_inv (t, h1)" using assms(1) soc_inv_host by blast
  then obtain s' where s': "load_phdrs soc_write eh 0 (f\<lparr>f_pos := sizeof_Ehdr\<rparr>) (t, h1) = Inr (None, s')"
    "dram_view s' = elf_image f eh (dram_view (t, h1))"
    using soc_mem.phdrs_spec [of "f\<lparr>f_pos := sizeof_Ehdr\<rparr>" eh "(t, h1)" 0] assms(3)
    by (auto simp: elf_image_def)
  have "dram_view (end_load s') = dram_view s'"
    by (metis dram_view_host end_load_def surjective_pairing)
  then show ?thesis
    using s' c load_elf_header [OF assms(2) elf_header_fs [OF assms(2)], of soc_write t p]
      elf_header_entry [OF assms(2)] dram_view_host [of t h1 h]
    by (simp add: SnakeSoC_load_elf_def)
qed

text \<open>The result code of the loader as a function of the file system and the allocator.\<close>

definition load_verdict :: "host \<Rightarrow> string \<Rightarrow> rc" where
  "load_verdict h path =
     (case h_fs h path of
        None \<Rightarrow> Some EIO
      | Some f \<Rightarrow>
         if length (f_data f) < sizeof_Ehdr then Some EIO
         else let eh = decode_Ehdr (take sizeof_Ehdr (f_data f)) in
           if check_Ehdr eh \<noteq> None then Some EINVAL
           else if \<not> heap_grant (of_nat CHUNK) h then Some ENOMEM
           else elf_verdict f eh)"

definition path_in_dram :: "host \<Rightarrow> string \<Rightarrow> bool" where
  "path_in_dram h path \<longleftrightarrow>
     (case h_fs h path of
        None \<Rightarrow> True
      | Some f \<Rightarrow> segments_in 0x80000000 0x84000000 f (decode_Ehdr (take sizeof_Ehdr (f_data f))))"

lemma verdict_pos [simp]: "phdr_verdict (f\<lparr>f_pos := n\<rparr>) = phdr_verdict f"
  by (simp add: phdr_verdict_def Let_def fun_eq_iff)

lemma segments_in_pos [simp]: "segments_in lo hi (f\<lparr>f_pos := n\<rparr>) eh = segments_in lo hi f eh"
  by (simp add: segments_in_def)

lemma load_elf_code:
  assumes "soc_inv (t, h)" "path_in_dram h path"
  shows "\<exists>s'. SnakeSoC_load_elf path (t, h) p =
    Inr (load_verdict h path, if load_verdict h path = None then map_option (\<lambda>_. ELF_LOADER_DRAM_BASE) p else p, s')"
proof (cases "h_fs h path")
  case None
  then show ?thesis by (simp add: SnakeSoC_load_elf_def load_elf_def load_verdict_def host_fopen_def)
next
  case (Some f)
  let ?eh = "decode_Ehdr (take sizeof_Ehdr (f_data f))"
  note defs = SnakeSoC_load_elf_def load_elf_def load_verdict_def host_fopen_def host_fread_def Some
  show ?thesis
  proof (cases "sizeof_Ehdr \<le> length (f_data f) \<and> check_Ehdr ?eh = None")
    case False
    then show ?thesis by (auto simp: defs Let_def check_Ehdr_def split: if_splits)
  next
    case ok: True
    then have hdr: "elf_header h path = Some (f, ?eh)" by (simp add: elf_header_def Some)
    obtain g h1 where c: "heap_calloc (of_nat CHUNK) (h\<lparr>h_open := h_open h + 1\<rparr>) = (g, h1)" "g = heap_grant (of_nat CHUNK) h"
      by (auto simp: heap_calloc_def heap_grant_def)
    have "soc_inv (t, h1)" using assms(1) soc_inv_host by blast
    moreover have "segments_in 0x80000000 0x84000000 (f\<lparr>f_pos := sizeof_Ehdr\<rparr>) ?eh"
      using assms(2) by (simp add: path_in_dram_def Some)
    ultimately obtain s' where "load_phdrs soc_write ?eh 0 (f\<lparr>f_pos := sizeof_Ehdr\<rparr>) (t, h1) = Inr (elf_verdict f ?eh, s')"
      using soc_mem.phdrs_verdict [of "f\<lparr>f_pos := sizeof_Ehdr\<rparr>" ?eh "(t, h1)" 0] by (auto simp: elf_verdict_def)
    then show ?thesis
      using c ok elf_header_entry [OF hdr]
      by (auto simp: SnakeSoC_load_elf_def load_elf_header [OF hdr Some] load_verdict_def Some Let_def)
  qed
qed

text \<open>Where a byte of the image comes from: the last segment that stores it.\<close>

lemma place_other:
  "\<not> (loadable ph \<and> unat (p_paddr ph) \<le> j \<and> j < unat (p_paddr ph) + unat (p_filesz ph)) \<Longrightarrow> place f m ph j = m j"
  by (auto simp: place_def seg_overlay_def seg_stored_def seg_bytes_def)

lemma foldl_place_other:
  "(\<And>ph. ph \<in> set phs \<Longrightarrow>
      \<not> (loadable ph \<and> unat (p_paddr ph) \<le> j \<and> j < unat (p_paddr ph) + unat (p_filesz ph))) \<Longrightarrow>
   foldl (place f) m phs j = m j"
  by (induction phs arbitrary: m) (simp_all add: place_other)

subsection \<open>Memory with the file's segments in it\<close>

text \<open>The program in memory, independent of how it gets there: in header order each loadable
  segment's bytes are put at its address, all of them.\<close>

definition seg_put :: "nat \<Rightarrow> uint8 list \<Rightarrow> (nat \<Rightarrow> uint8) \<Rightarrow> nat \<Rightarrow> uint8" where
  "seg_put a bs m j = (if a \<le> j \<and> j < a + length bs then bs ! (j - a) else m j)"

definition put_phdr :: "cfile \<Rightarrow> (nat \<Rightarrow> uint8) \<Rightarrow> Elf32_Phdr \<Rightarrow> nat \<Rightarrow> uint8" where
  "put_phdr f m ph = (if loadable ph then seg_put (unat (p_paddr ph)) (seg_bytes f ph) m else m)"

definition elf_overlay :: "cfile \<Rightarrow> Elf32_Ehdr \<Rightarrow> (nat \<Rightarrow> uint8) \<Rightarrow> nat \<Rightarrow> uint8" where
  "elf_overlay f eh m = foldl (put_phdr f) m (map (file_phdr f eh) [0..<unat (e_phnum eh)])"

lemma seg_put_at: "seg_put a bs m (a + k) = (if k < length bs then bs ! k else m (a + k))"
  by (simp add: seg_put_def)

text \<open>The addresses whose bytes the loader can lose: the second and third byte after the last whole
  word of a segment.  A file all of whose segments are a number of words, or of words and one
  byte, has none.\<close>

definition edge_byte :: "Elf32_Phdr \<Rightarrow> nat \<Rightarrow> bool" where
  "edge_byte ph j \<longleftrightarrow> loadable ph \<and>
     unat (p_paddr ph) + 4 * (unat (p_filesz ph) div 4) < j \<and> j < unat (p_paddr ph) + unat (p_filesz ph)"

definition segs_whole :: "cfile \<Rightarrow> Elf32_Ehdr \<Rightarrow> bool" where
  "segs_whole f eh \<longleftrightarrow>
     (\<forall>i < unat (e_phnum eh). loadable (file_phdr f eh i) \<longrightarrow> unat (p_filesz (file_phdr f eh i)) mod 4 < 2)"

lemma place_put:
  assumes "phdr_ok lo hi f ph" "\<not> edge_byte ph j" "m j = m' j"
  shows "place f m ph j = put_phdr f m' ph j"
proof (cases "loadable ph")
  case True
  let ?a = "unat (p_paddr ph)" and ?n = "unat (p_filesz ph)"
  have a: "?a mod 4 = 0" and len: "length (seg_bytes f ph) = ?n"
    using assms(1) True by (auto simp: phdr_ok_def seg_bytes_def)
  have "seg_stored ?a ?n (j - ?a) \<longleftrightarrow> j - ?a < ?n" if "?a \<le> j"
  proof (cases "j - ?a = 4 * (?n div 4)")
    case True
    then show ?thesis by (simp add: seg_stored_aligned [OF a])
  next
    case False
    then have "j - ?a < ?n \<Longrightarrow> j - ?a < 4 * (?n div 4)" using assms(2) True that by (auto simp: edge_byte_def)
    then show ?thesis by (auto simp: seg_stored_aligned [OF a])
  qed
  with assms(3) True show ?thesis
    by (auto simp: place_def put_phdr_def seg_overlay_def seg_put_def len)
next
  case False
  with assms(3) show ?thesis by (simp add: place_def put_phdr_def)
qed

lemma foldl_place_put:
  "(\<And>ph. ph \<in> set phs \<Longrightarrow> phdr_ok lo hi f ph \<and> \<not> edge_byte ph j) \<Longrightarrow> m j = m' j \<Longrightarrow>
   foldl (place f) m phs j = foldl (put_phdr f) m' phs j"
proof (induction phs arbitrary: m m')
  case (Cons ph phs)
  then have "place f m ph j = put_phdr f m' ph j" by (intro place_put [of lo hi]) simp_all
  with Cons show ?case by simp
qed simp

lemma elf_image_overlay:
  assumes "phdrs_ok lo hi f eh" "\<And>i. i < unat (e_phnum eh) \<Longrightarrow> \<not> edge_byte (file_phdr f eh i) j"
  shows "elf_image f eh m j = elf_overlay f eh m j"
  unfolding elf_image_def elf_overlay_def
  using assms by (intro foldl_place_put [of _ lo hi]) (auto simp: phdrs_ok_def)

lemma elf_image_whole:
  assumes "phdrs_ok lo hi f eh" "segs_whole f eh"
  shows "elf_image f eh m = elf_overlay f eh m"
proof
  fix j
  show "elf_image f eh m j = elf_overlay f eh m j"
  proof (rule elf_image_overlay [OF assms(1)])
    fix i assume i: "i < unat (e_phnum eh)"
    show "\<not> edge_byte (file_phdr f eh i) j"
    proof
      assume e: "edge_byte (file_phdr f eh i) j"
      let ?n = "unat (p_filesz (file_phdr f eh i))"
      have "?n mod 4 < 2" using e i assms(2) by (auto simp: edge_byte_def segs_whole_def)
      moreover have "4 * (?n div 4) + 1 < ?n" using e by (auto simp: edge_byte_def)
      moreover have "4 * (?n div 4) + ?n mod 4 = ?n" by (rule mult_div_mod_eq)
      ultimately show False by linarith
    qed
  qed
qed

end
