(* ===== verification/Dpi.thy ===== *)
theory Dpi
  imports ElfSoC SocCtor SocSystem
begin

text \<open>
  The DPI bridge (\<open>dpi/snake_soc_dpi.c\<close>): the global SoC pointer and the calls the RTL
  testbench makes.  A bridge that owns no SoC answers reads and writes with a decode error and
  ticks nothing.  The messages on \<open>stderr\<close> are left out.
\<close>

type_synonym dpi_state = "SnakeSoC option \<times> host"

definition dpi_map :: "SnakeSoC option \<Rightarrow> dev_ref MemoryMap option" where
  "dpi_map g_soc = map_option memmap g_soc"

definition dpi_snake_soc_init :: "string option \<Rightarrow> dpi_state \<Rightarrow> fault + (rc \<times> dpi_state)" where
  "dpi_snake_soc_init elf_path s =
     (let (g_soc, h) = s;
          (g_soc, h) = (if g_soc \<noteq> None then SnakeSoC_dtor g_soc h else (g_soc, h))
      in bind_res (SnakeSoC_ctor (Some Stdout) h) (\<lambda>(rc, new, h).
           let g_soc = (if rc = None then new else g_soc) in
           if rc \<noteq> None then Inr (rc, g_soc, h)
           else if elf_path \<noteq> None \<and> elf_path \<noteq> Some []
           then (case g_soc of None \<Rightarrow> Inl NullDeref
                 | Some soc \<Rightarrow>
                     bind_res (SnakeSoC_load_elf (the elf_path) (soc, h) (Some 0)) (\<lambda>(rc, entry, soc, h).
                       if rc \<noteq> None then (let (g_soc, h) = SnakeSoC_dtor (Some soc) h in Inr (rc, g_soc, h))
                       else Inr (None, Some soc, h)))
           else Inr (None, g_soc, h)))"

definition dpi_snake_soc_fini :: "dpi_state \<Rightarrow> dpi_state" where
  "dpi_snake_soc_fini s = (if fst s \<noteq> None then SnakeSoC_dtor (fst s) (snd s) else s)"

definition dpi_snake_soc_tick :: "dpi_state \<Rightarrow> fault + dpi_state" where
  "dpi_snake_soc_tick s =
     (case fst s of None \<Rightarrow> Inr s
      | Some soc \<Rightarrow> bind_res (soc_tick (soc, snd s)) (\<lambda>(soc, h). Inr (Some soc, h)))"

definition dpi_snake_soc_read ::
  "addr_t \<Rightarrow> uint32 \<Rightarrow> out32 \<Rightarrow> dpi_state \<Rightarrow> fault + (nat \<times> out32 \<times> dpi_state)" where
  \<comment> \<open>\<open>width\<close> is an \<open>int\<close>: the conversion to \<open>size_t\<close> extends its sign\<close>
  "dpi_snake_soc_read addr width value_out s =
     (if value_out = None then Inr (axi_resp_code AXI_RESP_SLVERR, value_out, s)
      else let value_out = Some 0 in
        (case fst s of None \<Rightarrow> Inr (axi_resp_code AXI_RESP_DECERR, value_out, s)
         | Some soc \<Rightarrow>
             bind_res (soc_read (soc, snd s) addr (scast width) value_out) (\<lambda>(r, q, soc, h).
               Inr (axi_resp_code r, q, Some soc, h))))"

definition dpi_snake_soc_write ::
  "addr_t \<Rightarrow> uint32 \<Rightarrow> uint32 \<Rightarrow> uint8 \<Rightarrow> dpi_state \<Rightarrow> fault + (nat \<times> dpi_state)" where
  "dpi_snake_soc_write addr width value strb s =
     (case fst s of None \<Rightarrow> Inr (axi_resp_code AXI_RESP_DECERR, s)
      | Some soc \<Rightarrow>
          bind_res (soc_write (soc, snd s) addr (scast width) value strb) (\<lambda>(r, soc, h).
            Inr (axi_resp_code r, Some soc, h)))"

definition dpi_snake_soc_msip :: "dpi_state \<Rightarrow> nat" where
  "dpi_snake_soc_msip s = (case fst s of None \<Rightarrow> 0 | Some soc \<Rightarrow> if SnakeSoC_msip_wire soc then 1 else 0)"
definition dpi_snake_soc_mtip :: "dpi_state \<Rightarrow> nat" where
  "dpi_snake_soc_mtip s = (case fst s of None \<Rightarrow> 0 | Some soc \<Rightarrow> if SnakeSoC_mtip_wire soc then 1 else 0)"
definition dpi_snake_soc_meip :: "dpi_state \<Rightarrow> nat" where
  "dpi_snake_soc_meip s = (case fst s of None \<Rightarrow> 0 | Some soc \<Rightarrow> if SnakeSoC_meip_wire soc then 1 else 0)"

subsection \<open>Ownership\<close>

text \<open>The blocks the bridge owns, and the invariant: an owned SoC is well-formed and its blocks
  are live.\<close>

definition dpi_blocks :: "dpi_state \<Rightarrow> nat" where
  "dpi_blocks s = (case fst s of None \<Rightarrow> 0 | Some soc \<Rightarrow> soc_blocks soc)"

definition dpi_inv :: "nat \<Rightarrow> dpi_state \<Rightarrow> bool" where
  "dpi_inv others s \<longleftrightarrow>
     h_live (snd s) = others + dpi_blocks s \<and> (case fst s of None \<Rightarrow> True | Some soc \<Rightarrow> soc_inv (soc, snd s))"

text \<open>The bus and the clock do not touch the heap, the memory map or the ticker.\<close>

definition soc_frame :: "store \<Rightarrow> nat \<times> dev_ref MemoryMap \<times> tick_ref Ticker" where
  "soc_frame s = (h_live (snd s), memmap (fst s), ticker (fst s))"

lemma soc_blocks_frame: "soc_frame s' = soc_frame s \<Longrightarrow> soc_blocks (fst s') = soc_blocks (fst s)"
  by (simp add: soc_frame_def soc_blocks_def)

lemma write_frame: "soc_inv s \<Longrightarrow> soc_write s a w v strb = Inr (r, s') \<Longrightarrow> soc_inv s' \<and> soc_frame s' = soc_frame s"
  using soc_quiet.quiet [of s a w v strb] by (auto simp: soc_frame_def host_ledger_def)

lemma try_read_live: "terminal_backend_try_read h = (b, h') \<Longrightarrow> h_live h' = h_live h"
  using try_read_frame by force

lemma tick_one_frame:
  assumes "Tickable_tick soc_tick_vtbl t s = Inr s'"
  shows "soc_frame s' = soc_frame s"
proof (cases t)
  case Tick_UART
  with assms show ?thesis
    by (auto simp: Tickable_tick_def tick_uart_def UART_Tickable_tick_def soc_frame_def Let_def
        split: prod.splits if_splits option.splits dest!: try_read_live)
qed (use assms in \<open>auto simp: Tickable_tick_def tick_clint_def tick_irq_def lens_defs soc_frame_def\<close>)

lemma tick_from_frame: "tick_from soc_tick_vtbl ts s = Inr s' \<Longrightarrow> soc_frame s' = soc_frame s"
proof (induction ts arbitrary: s)
  case (Cons t ts)
  then show ?case using tick_one_frame by (fastforce simp: res_simps)
qed simp

lemma tick_frame: "soc_inv s \<Longrightarrow> \<exists>s'. soc_tick s = Inr s' \<and> soc_inv s' \<and> soc_frame s' = soc_frame s"
  using soc_clock.tick_all_ok [of s "ticker (fst s)"] tick_from_frame
  by (fastforce simp: soc_tick_def Ticker_tick_all_def)

text \<open>An equal frame and an intact SoC keep the bridge's invariant.\<close>

lemma dpi_inv_frame:
  "dpi_inv n (Some soc, h) \<Longrightarrow> soc_inv s' \<Longrightarrow> soc_frame s' = soc_frame (soc, h) \<Longrightarrow> dpi_inv n (Some (fst s'), snd s')"
  by (auto simp: dpi_inv_def dpi_blocks_def soc_frame_def soc_blocks_def)

lemma dpi_dtor:
  assumes "dpi_inv n s"
  obtains h' where "(if fst s \<noteq> None then SnakeSoC_dtor (fst s) (snd s) else (fst s, snd s)) = (None, h')" "h_live h' = n"
proof (cases "fst s")
  case None
  with assms that show thesis by (simp add: dpi_inv_def dpi_blocks_def)
next
  case (Some soc)
  have "fst (SnakeSoC_dtor (Some soc) (snd s)) = None" by (simp add: SnakeSoC_dtor_def split: prod.splits)
  moreover have "h_live (snd (SnakeSoC_dtor (Some soc) (snd s))) = n"
    using assms Some by (simp add: soc_dtor_live dpi_inv_def dpi_blocks_def)
  ultimately show thesis using that [of "snd (SnakeSoC_dtor (Some soc) (snd s))"] Some by (simp add: prod_eq_iff)
qed

lemma load_frame:
  assumes "load_post t h path p rc q s'"
  shows "soc_inv s' \<and> soc_frame s' = soc_frame (t, h)"
  using assms by (simp add: load_post_def host_ledger_def soc_frame_def)

text \<open>Initialisation, whatever the allocator and the file do.\<close>

lemma ctor_dpi_inv:
  assumes "h_live h = n"
  obtains (fail) h' where "SnakeSoC_ctor f h = Inr (Some ENOMEM, None, h')" "dpi_inv n (None, h')"
  | (built) soc h' where "SnakeSoC_ctor f h = Inr (None, Some soc, h')" "dpi_inv n (Some soc, h')" "soc_inv (soc, h')"
  using ctor_spec [of f h] soc_inv_soc0(2)
  unfolding ctor_post_def assms
  by (elim disjE exE conjE) (auto simp: dpi_inv_def dpi_blocks_def)

lemma init_dpi_inv:
  assumes "dpi_inv n s"
  shows "\<exists>rc s'. dpi_snake_soc_init path s = Inr (rc, s') \<and> dpi_inv n s' \<and> (rc = None \<longleftrightarrow> fst s' \<noteq> None)"
proof -
  obtain g h where s: "s = (g, h)" by fastforce
  obtain h1 where d: "(if g \<noteq> None then SnakeSoC_dtor g h else (g, h)) = (None, h1)" "h_live h1 = n"
    using dpi_dtor [OF assms, unfolded s fst_conv snd_conv] by blast
  show ?thesis
  proof (cases rule: ctor_dpi_inv [OF d(2), of "Some Stdout"])
    case (1 h2)
    then show ?thesis using d(1) by (simp add: dpi_snake_soc_init_def s)
  next
    case (2 soc h2)
    show ?thesis
    proof (cases "path \<noteq> None \<and> path \<noteq> Some []")
      case False
      then show ?thesis using d(1) 2 by (auto simp: dpi_snake_soc_init_def s)
    next
      case True
      obtain rc q soc' h3 where l: "SnakeSoC_load_elf (the path) (soc, h2) (Some 0) = Inr (rc, q, soc', h3)"
        "load_post soc h2 (the path) (Some 0) rc q (soc', h3)"
        using load_elf_post [OF 2(3)] by (metis surj_pair)
      have i: "dpi_inv n (Some soc', h3)"
        using dpi_inv_frame [OF 2(2)] load_frame [OF l(2)] by fastforce
      obtain h4 where e: "SnakeSoC_dtor (Some soc') h3 = (None, h4)" "h_live h4 = n"
        using dpi_dtor [OF i, unfolded fst_conv snd_conv] by (metis option.distinct(1))
      have "dpi_snake_soc_init path s =
          (if rc \<noteq> None then Inr (rc, None, h4) else Inr (None, Some soc', h3))"
        using True d(1) 2(1) l(1) e(1) by (auto simp: dpi_snake_soc_init_def s)
      moreover have "dpi_inv n (None, h4)" using e(2) by (simp add: dpi_inv_def dpi_blocks_def)
      ultimately show ?thesis using i by auto
    qed
  qed
qed

lemma fini_dpi_inv: "dpi_inv n s \<Longrightarrow> \<exists>h'. dpi_snake_soc_fini s = (None, h') \<and> h_live h' = n"
  by (rule dpi_dtor, assumption) (auto simp: dpi_snake_soc_fini_def prod_eq_iff split: if_splits)

subsection \<open>Sequences of calls\<close>

datatype dpi_op =
    DpiInit "string option"
  | DpiFini
  | DpiTick
  | DpiRead addr_t uint32
  | DpiWrite addr_t uint32 uint32 uint8

fun dpi_do :: "dpi_op \<Rightarrow> dpi_state \<Rightarrow> fault + dpi_state" where
  "dpi_do (DpiInit path) s = bind_res (dpi_snake_soc_init path s) (\<lambda>(_, s). Inr s)"
| "dpi_do DpiFini s = Inr (dpi_snake_soc_fini s)"
| "dpi_do DpiTick s = dpi_snake_soc_tick s"
| "dpi_do (DpiRead a w) s = bind_res (dpi_snake_soc_read a w (Some 0) s) (\<lambda>(_, _, s). Inr s)"
| "dpi_do (DpiWrite a w v strb) s = bind_res (dpi_snake_soc_write a w v strb s) (\<lambda>(_, s). Inr s)"

fun dpi_run :: "dpi_op list \<Rightarrow> dpi_state \<Rightarrow> fault + dpi_state" where
  "dpi_run [] s = Inr s"
| "dpi_run (op # ops) s = bind_res (dpi_do op s) (dpi_run ops)"

lemma dpi_owned: "dpi_inv n (Some soc, h) \<Longrightarrow> soc_inv (soc, h)"
  by (simp add: dpi_inv_def)

lemma dpi_do_inv:
  assumes "dpi_inv n s"
  shows "\<exists>s'. dpi_do op s = Inr s' \<and> dpi_inv n s'"
proof (cases op)
  case (DpiInit path)
  obtain rc s' where "dpi_snake_soc_init path s = Inr (rc, s')" "dpi_inv n s'" using init_dpi_inv [OF assms] by blast
  with DpiInit show ?thesis by simp
next
  case DpiFini
  with fini_dpi_inv [OF assms] show ?thesis by (auto simp: dpi_inv_def dpi_blocks_def)
next
  case DpiTick
  show ?thesis
  proof (cases s)
    case (Pair g h)
    show ?thesis
    proof (cases g)
      case None
      with Pair assms DpiTick show ?thesis by (simp add: dpi_snake_soc_tick_def)
    next
      case (Some soc)
      then obtain s' where "soc_tick (soc, h) = Inr s'" "soc_inv s'" "soc_frame s' = soc_frame (soc, h)"
        using tick_frame dpi_owned assms Pair by blast
      with dpi_inv_frame [of n soc h s'] Pair Some assms DpiTick show ?thesis
        by (cases s') (simp add: dpi_snake_soc_tick_def)
    qed
  qed
next
  case (DpiRead a w)
  show ?thesis
  proof (cases s)
    case (Pair g h)
    show ?thesis
    proof (cases g)
      case None
      with Pair assms DpiRead show ?thesis by (simp add: dpi_snake_soc_read_def)
    next
      case (Some soc)
      then have i: "soc_inv (soc, h)" using dpi_owned assms Pair by blast
      obtain r q s' where r: "soc_read (soc, h) a (scast w) (Some 0) = Inr (r, q, s')"
        using soc_bus.bus_read_total [OF i] unfolding soc_read_def by blast
      with soc_read_same [OF i r] Pair Some assms DpiRead show ?thesis
        by (simp add: dpi_snake_soc_read_def)
    qed
  qed
next
  case (DpiWrite a w v strb)
  show ?thesis
  proof (cases s)
    case (Pair g h)
    show ?thesis
    proof (cases g)
      case None
      with Pair assms DpiWrite show ?thesis by (simp add: dpi_snake_soc_write_def)
    next
      case (Some soc)
      then have i: "soc_inv (soc, h)" using dpi_owned assms Pair by blast
      obtain r s' where w: "soc_write (soc, h) a (scast w) v strb = Inr (r, s')"
        using soc_bus.bus_write_total [OF i] unfolding soc_write_def by blast
      with dpi_inv_frame [of n soc h s'] write_frame [OF i w] Pair Some assms DpiWrite show ?thesis
        by (cases s') (simp add: dpi_snake_soc_write_def)
    qed
  qed
qed

lemma dpi_run_inv: "dpi_inv n s \<Longrightarrow> \<exists>s'. dpi_run ops s = Inr s' \<and> dpi_inv n s'"
proof (induction ops arbitrary: s)
  case (Cons op ops)
  obtain s1 where "dpi_do op s = Inr s1" "dpi_inv n s1" using dpi_do_inv [OF Cons.prems] by blast
  with Cons.IH show ?case by simp
qed simp

end
