(* ===== verification/SocSpec.thy ===== *)
theory SocSpec
  imports SocSystem
begin

text \<open>
  What the SoC promises to the software, as a machine of nine state components without
  devices, vtables, arrays or a memory map: memory as a function, two 64-bit counters, three
  bits, the received byte, the waiting input and the output with its failures.  The C model
  refines it: under the abstraction function every bus access, tick and input has the same
  answer and the abstract effect, so that whole runs have equal observations.
\<close>

record soc_spec =
  sp_mem :: "nat \<Rightarrow> uint8"
  sp_time :: uint64
  sp_cmp :: uint64
  sp_soft :: bool
  sp_rx :: "uint8 option"
  sp_stdin :: "uint8 option list"
  sp_pend :: bool
  sp_enab :: bool
  sp_out :: "uint8 list"
  sp_fail :: "bool list"

subsection \<open>The abstract machine\<close>

definition bit_word :: "bool \<Rightarrow> uint32" where
  "bit_word b = (if b then 1 else 0)"

fun spec_reg :: "dev_ref \<Rightarrow> soc_spec \<Rightarrow> addr_t \<Rightarrow> uint32 option" where
  "spec_reg Ref_Clint t a =
     (if a = 0x02000000 then Some (bit_word (sp_soft t))
      else if a = 0x02004000 then Some (ucast (sp_cmp t))
      else if a = 0x02004004 then Some (ucast (drop_bit 32 (sp_cmp t)))
      else if a = 0x0200BFF8 then Some (ucast (sp_time t))
      else if a = 0x0200BFFC then Some (ucast (drop_bit 32 (sp_time t)))
      else None)"
| "spec_reg Ref_UART t a =
     (if a = 0x10001004 then Some (case sp_rx t of None \<Rightarrow> 0 | Some b \<Rightarrow> 2)
      else if a = 0x10001008 then Some (case sp_rx t of None \<Rightarrow> 0 | Some b \<Rightarrow> ucast b)
      else None)"
| "spec_reg Ref_IrqAgg t a =
     (if a = 0x10004000 then Some (bit_word (sp_pend t))
      else if a = 0x10004004 then Some (bit_word (sp_enab t))
      else None)"
| "spec_reg d t a = None"

definition spec_answer :: "uint32 option \<Rightarrow> axi_resp_e \<times> uint32" where
  "spec_answer v = (case v of None \<Rightarrow> (AXI_RESP_SLVERR, 0) | Some x \<Rightarrow> (AXI_RESP_OKAY, x))"

definition spec_serve_read :: "soc_spec \<Rightarrow> addr_t \<Rightarrow> size_t \<Rightarrow> axi_resp_e \<times> uint32" where
  "spec_serve_read t a w =
     (case decode_spec (unat a) (unat w) of
        None \<Rightarrow> (AXI_RESP_DECERR, 0)
      | Some Ref_BootROM \<Rightarrow>
          spec_answer (if axi_width w then Some (le_value boot_image (unat a) (unat w)) else None)
      | Some Ref_DRAM \<Rightarrow>
          spec_answer (if axi_width w \<and> unat a mod unat w = 0
                       then Some (le_value (sp_mem t) (unat a - 0x80000000) (unat w)) else None)
      | Some Ref_UART \<Rightarrow> spec_answer (if axi_width w then spec_reg Ref_UART t a else None)
      | Some d \<Rightarrow> spec_answer (if w = 4 then spec_reg d t a else None))"

text \<open>An access that runs past the top of the address space, or ends at it, is never served.  Its
  error is the decode error only when no device lies behind the wrapped end.\<close>

definition spec_past_top :: "addr_t \<Rightarrow> size_t \<Rightarrow> axi_resp_e" where
  "spec_past_top a w =
     (if decode_range (unat a) ((unat a + unat w) mod 2 ^ 32) = None then AXI_RESP_DECERR else AXI_RESP_SLVERR)"

definition spec_read :: "soc_spec \<Rightarrow> addr_t \<Rightarrow> size_t \<Rightarrow> axi_resp_e \<times> uint32" where
  "spec_read t a w =
     (if unat a + unat w < 2 ^ 32 then spec_serve_read t a w else (spec_past_top a w, 0))"

text \<open>The effect of a register write; \<open>None\<close> is an error answer.\<close>

fun spec_set :: "dev_ref \<Rightarrow> soc_spec \<Rightarrow> addr_t \<Rightarrow> uint32 \<Rightarrow> soc_spec option" where
  "spec_set Ref_Clint t a v =
     (if a = 0x02000000 then Some (t\<lparr>sp_soft := bit v 0\<rparr>)
      else if a = 0x02004000 then Some (t\<lparr>sp_cmp := word64 (ucast (drop_bit 32 (sp_cmp t))) v\<rparr>)
      else if a = 0x02004004 then Some (t\<lparr>sp_cmp := word64 v (ucast (sp_cmp t))\<rparr>)
      else if a = 0x0200BFF8 then Some (t\<lparr>sp_time := word64 (ucast (drop_bit 32 (sp_time t))) v\<rparr>)
      else if a = 0x0200BFFC then Some (t\<lparr>sp_time := word64 v (ucast (sp_time t))\<rparr>)
      else None)"
| "spec_set Ref_UART t a v =
     (if a = 0x10001004 then Some (if bit v 1 then t\<lparr>sp_rx := None\<rparr> else t) else None)"
| "spec_set Ref_IrqAgg t a v =
     (if a = 0x10004000 then Some (t\<lparr>sp_pend := sp_pend t \<and> \<not> bit v 0\<rparr>)
      else if a = 0x10004004 then Some (t\<lparr>sp_enab := bit v 0\<rparr>)
      else None)"
| "spec_set d t a v = None"

definition spec_putc :: "uint8 \<Rightarrow> soc_spec \<Rightarrow> axi_resp_e \<times> soc_spec" where
  "spec_putc c t =
     (case sp_fail t of
        True # fs \<Rightarrow> (AXI_RESP_SLVERR, t\<lparr>sp_fail := fs\<rparr>)
      | fs \<Rightarrow> (AXI_RESP_OKAY, t\<lparr>sp_fail := tl fs, sp_out := sp_out t @ [c]\<rparr>))"

definition spec_done :: "soc_spec \<Rightarrow> soc_spec option \<Rightarrow> axi_resp_e \<times> soc_spec" where
  "spec_done t r = (case r of None \<Rightarrow> (AXI_RESP_SLVERR, t) | Some t' \<Rightarrow> (AXI_RESP_OKAY, t'))"

definition spec_serve_write :: "soc_spec \<Rightarrow> addr_t \<Rightarrow> size_t \<Rightarrow> uint32 \<Rightarrow> uint8 \<Rightarrow> axi_resp_e \<times> soc_spec" where
  "spec_serve_write t a w v strb =
     (let lanes = (w = 4 \<longrightarrow> strb = 0xF) in
      case decode_spec (unat a) (unat w) of
        None \<Rightarrow> (AXI_RESP_DECERR, t)
      | Some Ref_BootROM \<Rightarrow> (AXI_RESP_SLVERR, t)
      | Some Ref_DRAM \<Rightarrow>
          spec_done t (if axi_width w \<and> lanes \<and> unat a mod unat w = 0
            then Some (t\<lparr>sp_mem := strobed (sp_mem t) (unat a - 0x80000000) (unat w) v strb\<rparr>) else None)
      | Some Ref_UART \<Rightarrow>
          if axi_width w \<and> lanes \<and> a = 0x10001000 then spec_putc (ucast v) t
          else spec_done t (if axi_width w \<and> lanes then spec_set Ref_UART t a v else None)
      | Some d \<Rightarrow> spec_done t (if w = 4 \<and> lanes then spec_set d t a v else None))"

definition spec_write :: "soc_spec \<Rightarrow> addr_t \<Rightarrow> size_t \<Rightarrow> uint32 \<Rightarrow> uint8 \<Rightarrow> axi_resp_e \<times> soc_spec" where
  "spec_write t a w v strb =
     (if unat a + unat w < 2 ^ 32 then spec_serve_write t a w v strb else (spec_past_top a w, t))"

definition spec_tick :: "soc_spec \<Rightarrow> soc_spec" where
  "spec_tick t =
     (let t = t\<lparr>sp_time := sp_time t + 1\<rparr> in
      if sp_rx t = None
      then (case sp_stdin t of
              [] \<Rightarrow> t
            | x # xs \<Rightarrow> t\<lparr>sp_rx := x, sp_stdin := xs, sp_pend := sp_pend t \<or> x \<noteq> None\<rparr>)
      else t)"

text \<open>The three interrupt wires.\<close>

definition spec_wires :: "soc_spec \<Rightarrow> bool \<times> bool \<times> bool" where
  "spec_wires t = (sp_soft t, sp_cmp t \<le> sp_time t, sp_pend t \<and> sp_enab t)"

subsection \<open>Abstraction\<close>

definition abs_rx :: "UART \<Rightarrow> uint8 option" where
  "abs_rx u = (if rx_valid u then Some (rx_byte u) else None)"

definition soc_abs :: "store \<Rightarrow> soc_spec" where
  "soc_abs s =
     \<lparr>sp_mem = dram_bytes s, sp_time = mtime (clint (fst s)), sp_cmp = mtimecmp (clint (fst s)),
      sp_soft = (msip (clint (fst s)) = 1), sp_rx = abs_rx (uart (fst s)), sp_stdin = h_stdin (snd s),
      sp_pend = (pending (irq_agg (fst s)) = 1), sp_enab = (enable (irq_agg (fst s)) = 1),
      sp_out = h_out (snd s) (out_stream (fst s)), sp_fail = h_putfail (snd s)\<rparr>"

lemma soc_abs_sel [simp]:
  "sp_mem (soc_abs s) = dram_bytes s" "sp_time (soc_abs s) = mtime (clint (fst s))"
  "sp_cmp (soc_abs s) = mtimecmp (clint (fst s))" "sp_soft (soc_abs s) = (msip (clint (fst s)) = 1)"
  "sp_rx (soc_abs s) = abs_rx (uart (fst s))" "sp_stdin (soc_abs s) = h_stdin (snd s)"
  "sp_pend (soc_abs s) = (pending (irq_agg (fst s)) = 1)" "sp_enab (soc_abs s) = (enable (irq_agg (fst s)) = 1)"
  "sp_out (soc_abs s) = h_out (snd s) (out_stream (fst s))" "sp_fail (soc_abs s) = h_putfail (snd s)"
  by (simp_all add: soc_abs_def)

lemma and_1_bit: "(v :: uint32) AND 1 = bit_word (bit v 0)"
  by (simp add: bit_word_def and_one_eq mod_2_eq_odd bit_0)

lemma and_2_bit: "(v :: uint32) AND 2 \<noteq> 0 \<longleftrightarrow> bit v 1"
  using and_exp_eq_0_iff_not_bit [of v 1] by simp

lemma inv_bits:
  assumes "soc_inv s"
  shows "msip (clint (fst s)) = bit_word (msip (clint (fst s)) = 1)"
    and "pending (irq_agg (fst s)) = bit_word (pending (irq_agg (fst s)) = 1)"
    and "enable (irq_agg (fst s)) = bit_word (enable (irq_agg (fst s)) = 1)"
    and "\<not> rx_valid (uart (fst s)) \<Longrightarrow> rx_byte (uart (fst s)) = 0"
    and "memmap (fst s) = soc_map"
proof -
  have "msip (clint (fst s)) AND 1 = msip (clint (fst s))"
    using assms by (simp add: soc_inv_def clint_inv_def CLINT_MSIP_MASK_def)
  then have "msip (clint (fst s)) = 0 \<or> msip (clint (fst s)) = 1" using and_1_cases [of "msip (clint (fst s))"] by simp
  then show "msip (clint (fst s)) = bit_word (msip (clint (fst s)) = 1)"
    by (elim disjE) (simp_all add: bit_word_def)
  have "irq_inv (irq_agg (fst s))" using assms by (simp only: soc_inv_def)
  then have "pending (irq_agg (fst s)) \<in> {0, 1}" "enable (irq_agg (fst s)) \<in> {0, 1}" by (simp_all only: irq_inv_def)
  then show "pending (irq_agg (fst s)) = bit_word (pending (irq_agg (fst s)) = 1)"
    "enable (irq_agg (fst s)) = bit_word (enable (irq_agg (fst s)) = 1)"
    by (elim insertE emptyE; simp add: bit_word_def)+
  have "uart_inv (uart (fst s))" using assms by (simp only: soc_inv_def)
  then show "\<not> rx_valid (uart (fst s)) \<Longrightarrow> rx_byte (uart (fst s)) = 0" by (simp add: uart_inv_def)
  show "memmap (fst s) = soc_map" using assms by (simp only: soc_inv_def)
qed

subsection \<open>Decoding of an access\<close>

lemma decoded:
  assumes "soc_inv s" "unat a + unat w < 2 ^ 32"
  obtains (none) "decode_spec (unat a) (unat w) = None" "find_unit (memmap (fst s)) a w = None"
  | (dev) u where "decode_spec (unat a) (unat w) = Some (u_device u)" "find_unit (memmap (fst s)) a w = Some u"
      "u_base u \<le> a"
      "u_base u = (case u_device u of Ref_BootROM \<Rightarrow> 0 | Ref_Clint \<Rightarrow> 0x02000000 | Ref_UART \<Rightarrow> 0x10001000
         | Ref_IrqAgg \<Rightarrow> 0x10004000 | Ref_DRAM \<Rightarrow> 0x80000000)"
proof -
  have m: "memmap (fst s) = soc_map" using assms(1) by (rule inv_bits)
  have d: "map_option u_device (find_unit soc_map a w) = decode_spec (unat a) (unat w)"
    using assms(2) by (simp add: find_unit_range decode_spec_def)
  show thesis
  proof (cases "find_unit soc_map a w")
    case None
    with d m show thesis by (intro none) auto
  next
    case (Some u)
    with d m soc_unit_base [OF Some] show thesis by (intro dev [of u]) auto
  qed
qed

subsection \<open>Accesses past the top of the address space\<close>

lemma past_top_rom:
  assumes "axi_width w" "2 ^ 32 \<le> unat (a :: addr_t) + unat w"
  shows "decode_range (unat a) ((unat a + unat w) mod 2 ^ 32) = Some Ref_BootROM" "4096 < unat a + unat w"
proof -
  have "unat w \<le> 4" using assms(1) by (auto simp: axi_width_def)
  with unat32_lt [of a] have "unat a + unat w - 2 ^ 32 < 4" by simp
  moreover have "(unat a + unat w) mod 2 ^ 32 = unat a + unat w - 2 ^ 32"
    using calculation assms(2) by (simp add: le_mod_geq)
  ultimately show "decode_range (unat a) ((unat a + unat w) mod 2 ^ 32) = Some Ref_BootROM"
    by (simp add: decode_range_def)
  show "4096 < unat a + unat w" using assms(2) by simp
qed

text \<open>A device refuses a width other than 1, 2 and 4 and stays as it is.\<close>

lemma bad_width:
  assumes "\<not> axi_width w"
  shows "MmioDevice_read soc_vtbl d s off w (Some v) = Inr (AXI_RESP_SLVERR, Some 0, s)"
    and "MmioDevice_write soc_vtbl d s off w x strb = Inr (AXI_RESP_SLVERR, s)"
proof -
  have w: "w \<noteq> 1" "w \<noteq> 2" "w \<noteq> 4" using assms by (simp_all add: axi_width_def)
  note disp = MmioDevice_read_def MmioDevice_write_def vtbl_defs lift_read_def lift_write_def lens_defs
  note devs = BootROM_MmioDevice_write_def Clint_MmioDevice_read_def Clint_MmioDevice_write_def
    UART_MmioDevice_read_def UART_MmioDevice_write_def IrqAgg_MmioDevice_read_def IrqAgg_MmioDevice_write_def
  show "MmioDevice_read soc_vtbl d s off w (Some v) = Inr (AXI_RESP_SLVERR, Some 0, s)"
    using w assms rom_read_slverr [of w off "boot_rom (fst s)" "Some v"]
      dram_read_slverr [of "dram (fst s)" off w "Some v"]
    by (cases d) (simp_all add: disp devs dram_access_ok_def)
  show "MmioDevice_write soc_vtbl d s off w x strb = Inr (AXI_RESP_SLVERR, s)"
    using w assms dram_write_slverr [of "dram (fst s)" off w strb x]
    by (cases d) (simp_all add: disp devs dram_access_ok_def)
qed

lemma past_top:
  assumes "soc_inv s" "2 ^ 32 \<le> unat a + unat w"
  shows "soc_read s a w (Some v) = Inr (spec_past_top a w, Some 0, s)"
    and "soc_write s a w x strb = Inr (spec_past_top a w, s)"
proof -
  have m: "memmap (fst s) = soc_map" using assms(1) by (rule inv_bits)
  have d: "map_option u_device (find_unit soc_map a w) = decode_range (unat a) ((unat a + unat w) mod 2 ^ 32)"
    by (rule find_unit_range)
  have "soc_read s a w (Some v) = Inr (spec_past_top a w, Some 0, s) \<and>
    soc_write s a w x strb = Inr (spec_past_top a w, s)"
  proof (cases "find_unit soc_map a w")
    case None
    with d m show ?thesis by (simp add: soc_read_def soc_write_def MemoryMap_read_def MemoryMap_write_def spec_past_top_def)
  next
    case (Some u)
    with d have "decode_range (unat a) ((unat a + unat w) mod 2 ^ 32) \<noteq> None" by (metis option.distinct(1) option.map(2))
    then have e: "spec_past_top a w = AXI_RESP_SLVERR" unfolding spec_past_top_def by (rule if_not_P)
    note bus = soc_read_def soc_write_def MemoryMap_read_def MemoryMap_write_def
    show ?thesis
    proof (cases "axi_width w")
      case False
      with Some e m show ?thesis by (simp add: bus bad_width)
    next
      case True
      with d Some past_top_rom [OF True assms(2)] soc_unit_base [OF Some] have u: "u_device u = Ref_BootROM" "u_base u = 0"
        by simp_all
      with True Some e m past_top_rom(2) [OF True assms(2)] rom_read_slverr [of w a "boot_rom (fst s)" "Some v"]
      show ?thesis
        by (simp add: bus MmioDevice_read_def MmioDevice_write_def vtbl_defs lift_read_def lift_write_def lens_defs
            BootROM_MmioDevice_write_def)
    qed
  qed
  then show "soc_read s a w (Some v) = Inr (spec_past_top a w, Some 0, s)"
    "soc_write s a w x strb = Inr (spec_past_top a w, s)" by blast+
qed

subsection \<open>Reads\<close>

lemma msip_bit:
  assumes "soc_inv s"
  shows "msip (clint (fst s)) AND 1 = bit_word (msip (clint (fst s)) = 1)"
proof -
  have "msip (clint (fst s)) AND 1 = msip (clint (fst s))"
    using assms by (simp add: soc_inv_def clint_inv_def CLINT_MSIP_MASK_def)
  with inv_bits(1) [OF assms] show ?thesis by simp
qed

lemma clint_reg_spec:
  assumes "soc_inv s"
  shows "clint_reg (clint (fst s)) (a - 0x02000000) = spec_reg Ref_Clint (soc_abs s) a"
  using msip_bit [OF assms]
  by (simp add: clint_reg_def clint_offsets diff_eq_eq CLINT_MSIP_MASK_def mtime_lo_def mtime_hi_def
      mtimecmp_lo_def mtimecmp_hi_def low_half)

lemma irq_read_spec:
  assumes "soc_inv s"
  shows "IrqAgg_MmioDevice_read (irq_agg (fst s)) (a - 0x10004000) w (Some v) =
    (let (r, x) = spec_answer (if w = 4 then spec_reg Ref_IrqAgg (soc_abs s) a else None)
     in Inr (r, Some x, irq_agg (fst s)))"
proof -
  have "p AND 1 = p" if "p = bit_word b" for p b using that by (simp add: bit_word_def split: if_splits)
  from this [OF inv_bits(2) [OF assms]] this [OF inv_bits(3) [OF assms]]
  have e: "pending (irq_agg (fst s)) AND 1 = bit_word (pending (irq_agg (fst s)) = 1)"
    "enable (irq_agg (fst s)) AND 1 = bit_word (enable (irq_agg (fst s)) = 1)"
    using inv_bits(2,3) [OF assms] by auto
  show ?thesis
    by (simp add: IrqAgg_MmioDevice_read_def irq_consts diff_eq_eq spec_answer_def Let_def e)
qed

lemma uart_read_spec:
  assumes "soc_inv s"
  shows "UART_MmioDevice_read (uart (fst s), snd s) (a - 0x10001000) w (Some v) =
    (let (r, x) = spec_answer (if axi_width w then spec_reg Ref_UART (soc_abs s) a else None)
     in Inr (r, Some x, uart (fst s), snd s))"
  by (simp add: UART_MmioDevice_read_def uart_consts diff_eq_eq spec_answer_def Let_def axi_width_def abs_rx_def)

lemma put_same [simp]: "put_rom (boot_rom (fst s)) s = s" "put_clint (clint (fst s)) s = s"
  "put_uart (uart (fst s), snd s) s = s" "put_irq (irq_agg (fst s)) s = s" "put_dram (dram (fst s)) s = s"
  by (simp_all add: lens_defs)

lemma decode_bounds:
  "decode_spec a n = Some Ref_BootROM \<Longrightarrow> a + n \<le> 0x1000"
  "decode_spec a n = Some Ref_DRAM \<Longrightarrow> 0x80000000 \<le> a \<and> a + n \<le> 0x84000000"
  by (auto simp: decode_defs split: if_splits)

lemma rom_read_spec:
  assumes "soc_inv s" "unat a + unat w \<le> 0x1000"
  shows "BootROM_MmioDevice_read (boot_rom (fst s)) a w (Some v) =
    (let (r, x) = spec_answer (if axi_width w then Some (le_value boot_image (unat a) (unat w)) else None)
     in Inr (r, Some x, boot_rom (fst s)))"
proof -
  have r: "rom (boot_rom (fst s)) = \<lparr>arr_len = 4096, arr_at = boot_image\<rparr>" using assms(1) by (simp add: soc_inv_def)
  then have "rom_inv (boot_rom (fst s))" by (simp add: rom_inv_def)
  with rom_read_okay [of "boot_rom (fst s)" w a v] rom_read_slverr [of w a "boot_rom (fst s)" "Some v"] assms(2) r
  show ?thesis by (simp add: spec_answer_def)
qed

text \<open>Offset and alignment in the DRAM window.\<close>

lemma dram_window:
  fixes a :: addr_t
  assumes "axi_width w" "0x80000000 \<le> unat a"
  shows "unat (a - 0x80000000) = unat a - 0x80000000"
    and "(unat a - 0x80000000) mod unat w = 0 \<longleftrightarrow> unat a mod unat w = 0"
proof -
  show "unat (a - 0x80000000) = unat a - 0x80000000"
    using assms(2) by (subst unat_sub) (auto simp: word_le_nat_alt)
  have "unat w dvd 0x80000000" using assms(1) by (auto simp: axi_width_def)
  with assms(2) show "(unat a - 0x80000000) mod unat w = 0 \<longleftrightarrow> unat a mod unat w = 0"
    by (auto simp: mod_eq_0_iff_dvd dvd_diff_nat dest: dvd_diffD)
qed

lemma dram_ok_spec:
  assumes "soc_inv s" "0x80000000 \<le> unat a" "unat a + unat w \<le> 0x84000000"
  shows "dram_access_ok (dram (fst s)) (a - 0x80000000) w \<longleftrightarrow> axi_width w \<and> unat a mod unat w = 0"
proof (cases "axi_width w")
  case True
  have "size_bytes (dram (fst s)) = 0x4000000" using assms(1) by (simp add: soc_inv_def)
  moreover have "unat a - 0x80000000 + unat w \<le> 0x4000000" using assms(2,3) by linarith
  ultimately show ?thesis
    using dram_window [OF True assms(2)] True by (auto simp: dram_access_ok_def)
next
  case False
  then show ?thesis by (simp add: dram_access_ok_def)
qed

lemma dram_read_spec:
  assumes "soc_inv s" "0x80000000 \<le> unat a" "unat a + unat w \<le> 0x84000000"
  shows "DRAM_MmioDevice_read (dram (fst s)) (a - 0x80000000) w (Some v) =
    (let (r, x) = spec_answer (if axi_width w \<and> unat a mod unat w = 0
        then Some (le_value (dram_bytes s) (unat a - 0x80000000) (unat w)) else None)
     in Inr (r, Some x, dram (fst s)))"
proof -
  have i: "dram_inv (dram (fst s))" using assms(1) by (simp add: soc_inv_def)
  show ?thesis
  proof (cases "dram_access_ok (dram (fst s)) (a - 0x80000000) w")
    case True
    with dram_ok_spec [OF assms] have ok: "axi_width w" "unat a mod unat w = 0" by simp_all
    with dram_read_okay(1) [OF i True, of v] dram_window(1) [OF ok(1) assms(2)] show ?thesis
      by (simp add: spec_answer_def dram_bytes_def)
  next
    case False
    with dram_read_slverr [OF False, of "Some v"] dram_ok_spec [OF assms] show ?thesis
      by (auto simp: spec_answer_def)
  qed
qed

lemma soc_read_below:
  assumes "soc_inv s" "unat a + unat w < 2 ^ 32"
  shows "soc_read s a w (Some 0) = (let (r, x) = spec_serve_read (soc_abs s) a w in Inr (r, Some x, s))"
proof (cases rule: decoded [OF assms])
  case 1
  then show ?thesis by (simp add: soc_read_def MemoryMap_read_def spec_serve_read_def)
next
  case (2 u)
  note rd = soc_read_def MemoryMap_read_def MmioDevice_read_def vtbl_defs lift_read_def spec_serve_read_def
  show ?thesis
  proof (cases "u_device u")
    case Ref_BootROM
    with 2 rom_read_spec [OF assms(1), of a w 0] decode_bounds(1) [of "unat a" "unat w"] show ?thesis
      by (simp add: rd get_rom_def split: prod.splits)
  next
    case Ref_Clint
    with 2 clint_read_reg [of "clint (fst s)" "a - 0x02000000" w 0] clint_reg_spec [OF assms(1), of a] show ?thesis
      by (simp add: rd get_clint_def spec_answer_def split: option.splits)
  next
    case Ref_UART
    with 2 uart_read_spec [OF assms(1), of a w 0] show ?thesis
      by (simp add: rd get_uart_def split: prod.splits)
  next
    case Ref_IrqAgg
    with 2 irq_read_spec [OF assms(1), of a w 0] show ?thesis
      by (simp add: rd get_irq_def split: prod.splits)
  next
    case Ref_DRAM
    with 2 dram_read_spec [OF assms(1), of a w 0] decode_bounds(2) [of "unat a" "unat w"] show ?thesis
      by (simp add: rd get_dram_def split: prod.splits)
  qed
qed

lemma soc_read_spec:
  assumes "soc_inv s"
  shows "soc_read s a w (Some 0) = (let (r, x) = spec_read (soc_abs s) a w in Inr (r, Some x, s))"
proof (cases "unat a + unat w < 2 ^ 32")
  case True
  with soc_read_below [OF assms True] show ?thesis by (simp add: spec_read_def)
next
  case False
  with past_top(1) [OF assms, of a w 0] show ?thesis by (simp add: spec_read_def)
qed

subsection \<open>Writes\<close>

lemma abs_put:
  "soc_abs (put_clint c s) = (soc_abs s)\<lparr>sp_time := mtime c, sp_cmp := mtimecmp c, sp_soft := (msip c = 1)\<rparr>"
  "soc_abs (put_irq g s) = (soc_abs s)\<lparr>sp_pend := (pending g = 1), sp_enab := (enable g = 1)\<rparr>"
  "soc_abs (put_dram d s) = (soc_abs s)\<lparr>sp_mem := arr_at (backing d)\<rparr>"
  "uart_out u = uart_out (uart (fst s)) \<Longrightarrow> soc_abs (put_uart (u, h) s) =
     (soc_abs s)\<lparr>sp_rx := abs_rx u, sp_stdin := h_stdin h, sp_out := h_out h (out_stream (fst s)), sp_fail := h_putfail h\<rparr>"
  by (simp_all add: soc_abs_def lens_defs dram_bytes_def out_stream_def)

lemma set_half:
  "(t AND 0xFFFFFFFF00000000) OR ucast v = word64 (ucast (drop_bit 32 t)) v"
  "(t AND 0x00000000FFFFFFFF) OR push_bit 32 (ucast v) = word64 v (ucast t)"
proof -
  obtain h l where t: "t = word64 h l" using word64_surj by blast
  have "ucast (word64 h l) = l" using halves(1) [of h l] by (simp only: low_half)
  then show "(t AND 0xFFFFFFFF00000000) OR ucast v = word64 (ucast (drop_bit 32 t)) v"
    "(t AND 0x00000000FFFFFFFF) OR push_bit 32 (ucast v) = word64 v (ucast t)"
    unfolding t set_halves by simp_all
qed

lemma bit_word_1 [simp]: "(bit_word b = 1) = b"
  by (simp add: bit_word_def)

lemma clint_write_spec:
  assumes "soc_inv s"
  shows "map_sum id (\<lambda>(r, c). (r, soc_abs (put_clint c s))) (Clint_MmioDevice_write (clint (fst s)) (a - 0x02000000) w v strb) =
    Inr (spec_done (soc_abs s) (if w = 4 \<and> strb = 0xF then spec_set Ref_Clint (soc_abs s) a v else None))"
  by (simp add: Clint_MmioDevice_write_def clint_offsets diff_eq_eq spec_done_def abs_put set_mtime_lo_def set_mtime_hi_def
      set_mtimecmp_lo_def set_mtimecmp_hi_def CLINT_MSIP_MASK_def and_1_bit set_half)

lemma irq_write_spec:
  assumes "soc_inv s"
  shows "map_sum id (\<lambda>(r, g). (r, soc_abs (put_irq g s))) (IrqAgg_MmioDevice_write (irq_agg (fst s)) (a - 0x10004000) w v strb) =
    Inr (spec_done (soc_abs s) (if w = 4 \<and> strb = 0xF then spec_set Ref_IrqAgg (soc_abs s) a v else None))"
proof -
  have "pending (irq_agg (fst s)) \<in> {0, 1}" using assms by (simp only: soc_inv_def irq_inv_def)
  from w1c [OF this, of v] have p: "(pending (irq_agg (fst s)) AND NOT (v AND 1) = 1) =
      (pending (irq_agg (fst s)) = 1 \<and> \<not> bit v 0)"
    by (auto simp: and_1_bit bit_word_def split: if_splits)
  show ?thesis
    by (simp add: IrqAgg_MmioDevice_write_def irq_consts diff_eq_eq spec_done_def abs_put p del: bit.de_Morgan_conj)
      (simp add: and_1_bit)
qed

lemma dram_write_spec:
  assumes "soc_inv s" "0x80000000 \<le> unat a" "unat a + unat w \<le> 0x84000000"
  shows "map_sum id (\<lambda>(r, d). (r, soc_abs (put_dram d s))) (DRAM_MmioDevice_write (dram (fst s)) (a - 0x80000000) w v strb) =
    Inr (spec_done (soc_abs s) (if axi_width w \<and> (w = 4 \<longrightarrow> strb = 0xF) \<and> unat a mod unat w = 0
      then Some ((soc_abs s)\<lparr>sp_mem := strobed (dram_bytes s) (unat a - 0x80000000) (unat w) v strb\<rparr>) else None))"
proof -
  have i: "dram_inv (dram (fst s))" using assms(1) by (simp add: soc_inv_def)
  show ?thesis
  proof (cases "dram_access_ok (dram (fst s)) (a - 0x80000000) w \<and> (w = 4 \<longrightarrow> strb = 0xF)")
    case True
    with dram_ok_spec [OF assms] have ok: "axi_width w" "unat a mod unat w = 0" by simp_all
    with dram_write_okay [OF i, of "a - 0x80000000" w strb v] True dram_window(1) [OF ok(1) assms(2)] show ?thesis
      by (simp add: spec_done_def abs_put dram_bytes_def)
  next
    case False
    with dram_write_slverr [OF False, of v] dram_ok_spec [OF assms] show ?thesis
      by (auto simp: spec_done_def)
  qed
qed

lemma ucast_low: "(ucast (v AND 0xFF :: uint32) :: uint8) = ucast v"
  using le_byte_mask [of 0 v] by (simp add: le_byte_def)

lemma uart_write_spec:
  shows "map_sum id (\<lambda>(r, u). (r, soc_abs (put_uart u s))) (UART_MmioDevice_write (uart (fst s), snd s) (a - 0x10001000) w v strb) =
    Inr (if axi_width w \<and> (w = 4 \<longrightarrow> strb = 0xF) \<and> a = 0x10001000 then spec_putc (ucast v) (soc_abs s)
         else spec_done (soc_abs s) (if axi_width w \<and> (w = 4 \<longrightarrow> strb = 0xF) then spec_set Ref_UART (soc_abs s) a v else None))"
proof (cases "axi_width w \<and> (w = 4 \<longrightarrow> strb = 0xF) \<and> a = 0x10001000")
  case True
  then have wr: "UART_MmioDevice_write (uart (fst s), snd s) (a - 0x10001000) w v strb =
      (let (eof, h) = host_fputc (ucast v) (out_stream (fst s)) (snd s)
       in Inr (if eof then AXI_RESP_SLVERR else AXI_RESP_OKAY, uart (fst s), h))"
    by (auto simp: UART_MmioDevice_write_def uart_consts axi_width_def ucast_low out_stream_def split: prod.splits)
  show ?thesis
    using True unfolding wr
    by (auto simp: host_fputc_def spec_putc_def abs_put split: list.splits bool.splits)
next
  case False
  then show ?thesis
    by (auto simp: UART_MmioDevice_write_def uart_consts diff_eq_eq spec_done_def abs_put axi_width_def and_2_bit abs_rx_def)
qed

lemma abs_lift:
  "map_sum id (\<lambda>(r, s'). (r, soc_abs s')) (bind_res m (\<lambda>(r, t). Inr (r, put t s))) =
   map_sum id (\<lambda>(r, t). (r, soc_abs (put t s))) m"
  by (cases m) (auto split: prod.splits)

lemma soc_write_below:
  assumes "soc_inv s" "unat a + unat w < 2 ^ 32"
  shows "map_sum id (\<lambda>(r, s'). (r, soc_abs s')) (soc_write s a w v strb) = Inr (spec_serve_write (soc_abs s) a w v strb)"
proof (cases rule: decoded [OF assms])
  case 1
  then show ?thesis by (simp add: soc_write_def MemoryMap_write_def spec_serve_write_def)
next
  case (2 u)
  note wr = soc_write_def MemoryMap_write_def MmioDevice_write_def vtbl_defs lift_write_def spec_serve_write_def
  have lanes: "(w = 4 \<and> strb = 0xF) = (w = 4 \<and> (w = 4 \<longrightarrow> strb = 0xF))" by blast
  show ?thesis
  proof (cases "u_device u")
    case Ref_BootROM
    with 2 show ?thesis by (simp add: wr BootROM_MmioDevice_write_def get_rom_def)
  next
    case Ref_Clint
    with 2 clint_write_spec [OF assms(1), of a w v strb] show ?thesis
      by (simp add: wr get_clint_def abs_lift)
  next
    case Ref_UART
    with 2(2,4) have "soc_write s a w v strb = lift_write get_uart put_uart UART_MmioDevice_write s (a - 0x10001000) w v strb"
      by (simp add: soc_write_def MemoryMap_write_def MmioDevice_write_def vtbl_defs)
    moreover have "spec_serve_write (soc_abs s) a w v strb =
        (if axi_width w \<and> (w = 4 \<longrightarrow> strb = 0xF) \<and> a = 0x10001000 then spec_putc (ucast v) (soc_abs s)
         else spec_done (soc_abs s) (if axi_width w \<and> (w = 4 \<longrightarrow> strb = 0xF) then spec_set Ref_UART (soc_abs s) a v else None))"
      by (simp only: spec_serve_write_def Let_def 2(1) Ref_UART option.case dev_ref.case conj_assoc)
    ultimately show ?thesis by (simp only: lift_write_def get_uart_def abs_lift uart_write_spec)
  next
    case Ref_IrqAgg
    with 2 irq_write_spec [OF assms(1), of a w v strb] show ?thesis
      by (simp add: wr get_irq_def abs_lift)
  next
    case Ref_DRAM
    with 2(2,4) have "soc_write s a w v strb = lift_write get_dram put_dram DRAM_MmioDevice_write s (a - 0x80000000) w v strb"
      by (simp add: soc_write_def MemoryMap_write_def MmioDevice_write_def vtbl_defs)
    moreover have "spec_serve_write (soc_abs s) a w v strb =
        spec_done (soc_abs s) (if axi_width w \<and> (w = 4 \<longrightarrow> strb = 0xF) \<and> unat a mod unat w = 0
          then Some ((soc_abs s)\<lparr>sp_mem := strobed (dram_bytes s) (unat a - 0x80000000) (unat w) v strb\<rparr>) else None)"
      by (simp only: spec_serve_write_def Let_def 2(1) Ref_DRAM option.case dev_ref.case conj_assoc soc_abs_sel)
    moreover have "0x80000000 \<le> unat a" "unat a + unat w \<le> 0x84000000"
      using decode_bounds(2) [of "unat a" "unat w"] 2(1) Ref_DRAM by simp_all
    ultimately show ?thesis using dram_write_spec [OF assms(1)] by (simp only: lift_write_def get_dram_def abs_lift)
  qed
qed

lemma soc_write_abs:
  assumes "soc_inv s"
  shows "map_sum id (\<lambda>(r, s'). (r, soc_abs s')) (soc_write s a w v strb) = Inr (spec_write (soc_abs s) a w v strb)"
proof (cases "unat a + unat w < 2 ^ 32")
  case True
  with soc_write_below [OF assms True, of v strb] show ?thesis by (simp add: spec_write_def)
next
  case False
  with past_top(2) [OF assms, of a w v strb] show ?thesis by (simp add: spec_write_def)
qed

lemma soc_write_spec:
  assumes "soc_inv s"
  obtains s' where "soc_write s a w v strb = Inr (fst (spec_write (soc_abs s) a w v strb), s')"
    "soc_abs s' = snd (spec_write (soc_abs s) a w v strb)"
proof -
  from soc_write_abs [OF assms, of a w v strb] obtain r s' where
    "soc_write s a w v strb = Inr (r, s')" "(r, soc_abs s') = spec_write (soc_abs s) a w v strb"
    by (cases "soc_write s a w v strb") (auto simp only: map_sum.simps sum.simps prod.case)
  then show thesis using that by (metis fst_conv snd_conv)
qed

subsection \<open>Ticks and wires\<close>

lemma tick_spec:
  assumes "sys_inv s"
  shows "soc_abs (ticked s) = spec_tick (soc_abs s)"
proof -
  have p: "pending (irq_agg (fst s)) \<in> {0, 1}" using assms by (simp only: sys_inv_def soc_inv_def irq_inv_def)
  show ?thesis
    using assms p
    by (auto simp: sys_inv_def ticked_def spec_tick_def soc_abs_def abs_rx_def UART_Tickable_tick_def
        terminal_backend_try_read_def host_read1_def IrqAgg_set_uart_rx_edge_def IrqAgg_Tickable_tick_def irq_consts
        Clint_Tickable_tick_def out_stream_def dram_bytes_def Let_def split: prod.splits list.splits option.splits)
qed

definition soc_wires :: "store \<Rightarrow> bool \<times> bool \<times> bool" where
  "soc_wires s = (SnakeSoC_msip_wire (fst s), SnakeSoC_mtip_wire (fst s), SnakeSoC_meip_wire (fst s))"

lemma wires_spec:
  assumes "soc_inv s"
  shows "soc_wires s = spec_wires (soc_abs s)"
proof -
  have "pending (irq_agg (fst s)) \<in> {0, 1}" "enable (irq_agg (fst s)) \<in> {0, 1}"
    using assms by (simp_all only: soc_inv_def irq_inv_def)
  then have "SnakeSoC_meip_wire (fst s) = (pending (irq_agg (fst s)) = 1 \<and> enable (irq_agg (fst s)) = 1)"
    by (elim insertE emptyE) (simp_all add: SnakeSoC_meip_wire_def IrqAgg_meip_def irq_consts)
  moreover have "SnakeSoC_msip_wire (fst s) = (msip (clint (fst s)) = 1)"
    using msip_bit [OF assms] by (simp add: SnakeSoC_msip_wire_def Clint_msip_def CLINT_MSIP_MASK_def bit_word_def)
  ultimately show ?thesis
    by (simp add: soc_wires_def spec_wires_def SnakeSoC_mtip_wire_def Clint_mtip_def)
qed

subsection \<open>Runs\<close>

text \<open>What the processor observes of an operation: the response, the value and the wires after
  it.  A run is executed by the model and by the abstract machine.\<close>

type_synonym soc_obs = "axi_resp_e \<times> uint32 \<times> bool \<times> bool \<times> bool"

fun soc_exec :: "soc_op \<Rightarrow> store \<Rightarrow> fault + ((axi_resp_e \<times> uint32) \<times> store)" where
  "soc_exec (OpRead a w) s = bind_res (soc_read s a w (Some 0)) (\<lambda>(r, q, s). case q of None \<Rightarrow> Inl NullDeref | Some v \<Rightarrow> Inr ((r, v), s))"
| "soc_exec (OpWrite a w v strb) s = bind_res (soc_write s a w v strb) (\<lambda>(r, s). Inr ((r, 0), s))"
| "soc_exec OpTick s = bind_res (soc_tick s) (\<lambda>s. Inr ((AXI_RESP_OKAY, 0), s))"
| "soc_exec (OpInput bs) s = Inr ((AXI_RESP_OKAY, 0), (fst s, (snd s)\<lparr>h_stdin := h_stdin (snd s) @ bs\<rparr>))"

fun soc_trace :: "soc_op list \<Rightarrow> store \<Rightarrow> fault + (soc_obs list \<times> store)" where
  "soc_trace [] s = Inr ([], s)"
| "soc_trace (op # ops) s =
     bind_res (soc_exec op s) (\<lambda>((r, v), s1).
     bind_res (soc_trace ops s1) (\<lambda>(tr, s2). Inr ((r, v, soc_wires s1) # tr, s2)))"

fun spec_exec :: "soc_op \<Rightarrow> soc_spec \<Rightarrow> (axi_resp_e \<times> uint32) \<times> soc_spec" where
  "spec_exec (OpRead a w) t = (spec_read t a w, t)"
| "spec_exec (OpWrite a w v strb) t = (let (r, t) = spec_write t a w v strb in ((r, 0), t))"
| "spec_exec OpTick t = ((AXI_RESP_OKAY, 0), spec_tick t)"
| "spec_exec (OpInput bs) t = ((AXI_RESP_OKAY, 0), t\<lparr>sp_stdin := sp_stdin t @ bs\<rparr>)"

fun spec_trace :: "soc_op list \<Rightarrow> soc_spec \<Rightarrow> soc_obs list \<times> soc_spec" where
  "spec_trace [] t = ([], t)"
| "spec_trace (op # ops) t =
     (let ((r, v), t1) = spec_exec op t; (tr, t2) = spec_trace ops t1 in ((r, v, spec_wires t1) # tr, t2))"

lemma exec_step: "soc_exec op s = Inr (x, s') \<Longrightarrow> soc_step s op s'"
proof (cases op)
  case (OpRead a w)
  assume e: "soc_exec op s = Inr (x, s')"
  obtain r q s1 where r: "soc_read s a w (Some 0) = Inr (r, q, s1)" "s' = s1"
    using e OpRead by (auto simp: res_simps split: option.splits)
  with OpRead show ?thesis using do_read by blast
next
  case (OpWrite a w v strb)
  assume "soc_exec op s = Inr (x, s')"
  with OpWrite obtain r where "soc_write s a w v strb = Inr (r, s')" by (auto simp: res_simps)
  with OpWrite show ?thesis using do_write by blast
next
  case OpTick
  assume "soc_exec op s = Inr (x, s')"
  with OpTick have "soc_tick s = Inr s'" by (auto simp: res_simps)
  with OpTick show ?thesis using do_tick by blast
next
  case (OpInput bs)
  assume "soc_exec op s = Inr (x, s')"
  with OpInput show ?thesis using do_input [of "fst s" "snd s" bs] by auto
qed

lemma exec_spec:
  assumes "sys_inv s"
  shows "\<exists>s'. soc_exec op s = Inr (fst (spec_exec op (soc_abs s)), s') \<and>
    soc_abs s' = snd (spec_exec op (soc_abs s)) \<and> sys_inv s'"
proof -
  have i: "soc_inv s" using assms by (simp only: sys_inv_def)
  have "\<exists>s'. soc_exec op s = Inr (fst (spec_exec op (soc_abs s)), s') \<and> soc_abs s' = snd (spec_exec op (soc_abs s))"
  proof (cases op)
    case (OpRead a w)
    with soc_read_spec [OF i, of a w] show ?thesis by (intro exI [of _ s]) (simp split: prod.splits)
  next
    case (OpWrite a w v strb)
    from soc_write_spec [OF i, of a w v strb] obtain s' where
      "soc_write s a w v strb = Inr (fst (spec_write (soc_abs s) a w v strb), s')"
      "soc_abs s' = snd (spec_write (soc_abs s) a w v strb)" .
    with OpWrite show ?thesis by (simp split: prod.splits)
  next
    case OpTick
    have "soc_tick s = Inr (ticked s)" using assms soc_tick_ticked unfolding sys_inv_def by blast
    with OpTick tick_spec [OF assms] show ?thesis by simp
  next
    case (OpInput bs)
    then show ?thesis by (simp add: soc_abs_def dram_bytes_def)
  qed
  with exec_step step_sys_inv assms show ?thesis by metis
qed

lemma trace_spec:
  "sys_inv s \<Longrightarrow>
   \<exists>s'. soc_trace ops s = Inr (fst (spec_trace ops (soc_abs s)), s') \<and>
     soc_abs s' = snd (spec_trace ops (soc_abs s)) \<and> sys_inv s'"
proof (induction ops arbitrary: s)
  case (Cons op ops)
  from exec_spec [OF Cons.prems] obtain s1 where
    s1: "soc_exec op s = Inr (fst (spec_exec op (soc_abs s)), s1)"
      "soc_abs s1 = snd (spec_exec op (soc_abs s))" "sys_inv s1" by blast
  have w: "soc_wires s1 = spec_wires (soc_abs s1)" using wires_spec s1(3) unfolding sys_inv_def by blast
  obtain r v t1 where e: "spec_exec op (soc_abs s) = ((r, v), t1)" by (metis surj_pair)
  obtain tr t2 where t: "spec_trace ops t1 = (tr, t2)" by fastforce
  obtain s2 where "soc_trace ops s1 = Inr (tr, s2)" "soc_abs s2 = t2" "sys_inv s2"
    using Cons.IH [OF s1(3)] s1(2) e t by auto
  then show ?case using s1 e t w by simp
qed simp

end
