(* ===== verification/SocContract.thy ===== *)
theory SocContract
  imports SocSpec
begin

text \<open>
  The contract of the SoC towards the processor: runs refine the abstract machine of
  \<open>SocSpec\<close> from the constructed state on, and the type of what a read delivers.
\<close>

section \<open>Refinement\<close>

text \<open>The abstract machine after construction: cleared memory, a counter at zero, the comparator
  at its largest value and no interrupt source raised or enabled.\<close>

definition spec0 :: "stream option \<Rightarrow> host \<Rightarrow> soc_spec" where
  "spec0 f h =
     \<lparr>sp_mem = \<lambda>i. 0, sp_time = 0, sp_cmp = 0xFFFFFFFFFFFFFFFF, sp_soft = False, sp_rx = None,
      sp_stdin = h_stdin h, sp_pend = False, sp_enab = False,
      sp_out = h_out h (case f of Some g \<Rightarrow> g | None \<Rightarrow> Stdout), sp_fail = h_putfail h\<rparr>"

lemma abs_soc0: "soc_abs (soc0 f, h) = spec0 f h"
  by (simp add: soc_abs_def spec0_def soc0_def abs_rx_def out_stream_def dram_bytes_def arr_zero_def fun_eq_iff)

text \<open>C1: The constructed SoC implements its contract: for every sequence of bus reads, bus writes
  (any address, width, value and strobe), ticks and terminal input, the C model runs to the end
  without a fault, and the responses, the read values and the three interrupt wires after each
  operation are those of the abstract machine, whose state is the abstraction of the final
  state.  The abstract machine refuses an access whose end is at or past the top of the address
  space and states with which error, as the 32-bit end address of the code decides it (C36).\<close>

theorem soc_refines_spec:
  "\<exists>s. soc_trace ops (soc0 f, h) = Inr (fst (spec_trace ops (spec0 f h)), s) \<and>
    soc_abs s = snd (spec_trace ops (spec0 f h))"
  using trace_spec [OF sys_inv_soc0, of ops f h] by (auto simp: abs_soc0)

text \<open>At a concrete run: the timer is set to fire at the second tick, a byte arrives and is read,
  and an access past the top is refused.\<close>

lemma soc_refines_spec_witness:
  "\<exists>s. soc_trace [OpWrite 0x02004000 4 2 0xF, OpWrite 0x02004004 4 0 0xF, OpTick, OpTick, OpRead 0x10001008 4,
          OpRead 0xFFFFFFFE 4]
        (soc0 None, host0\<lparr>h_stdin := [Some 65]\<rparr>) =
     Inr ([(AXI_RESP_OKAY, 0, False, False, False), (AXI_RESP_OKAY, 0, False, False, False),
           (AXI_RESP_OKAY, 0, False, False, False), (AXI_RESP_OKAY, 0, False, True, False),
           (AXI_RESP_OKAY, 65, False, True, False), (AXI_RESP_SLVERR, 0, False, True, False)], s)"
proof -
  let ?ops = "[OpWrite 0x02004000 4 2 0xF, OpWrite 0x02004004 4 0 0xF, OpTick, OpTick, OpRead 0x10001008 4,
    OpRead 0xFFFFFFFE 4]"
  let ?h = "host0\<lparr>h_stdin := [Some 65]\<rparr>"
  from soc_refines_spec [of ?ops None ?h] obtain s where
    "soc_trace ?ops (soc0 None, ?h) = Inr (fst (spec_trace ?ops (spec0 None ?h)), s)" by blast
  moreover have "fst (spec_trace ?ops (spec0 None ?h)) =
      [(AXI_RESP_OKAY, 0, False, False, False), (AXI_RESP_OKAY, 0, False, False, False),
       (AXI_RESP_OKAY, 0, False, False, False), (AXI_RESP_OKAY, 0, False, True, False),
       (AXI_RESP_OKAY, 65, False, True, False), (AXI_RESP_SLVERR, 0, False, True, False)]"
    by (simp add: spec0_def spec_write_def spec_read_def spec_serve_write_def spec_serve_read_def spec_past_top_def
        decode_defs spec_done_def spec_tick_def spec_answer_def spec_wires_def word64_def axi_width_def Let_def)
      (simp add: word_le_nat_alt)
  ultimately show ?thesis by auto
qed

section \<open>The type of a read\<close>

lemma le_value_fits:
  assumes "axi_width w"
  shows "unat (le_value at off (unat w)) < 256 ^ unat w"
proof -
  have b: "bit (b :: uint8) n \<Longrightarrow> n < 8" for b n using bit_imp_le_length [of b n] by simp
  have "take_bit (8 * n) (le_value at off n) = le_value at off n" if n: "n \<in> {1, 2, 4}" for n
  proof -
    consider "n = 1" | "n = 2" | "n = 4" using n by blast
    then show ?thesis
    proof cases
      case 1
      show ?thesis unfolding 1 le_value_widths by (rule bit_eqI) (auto simp: bit_simps dest: b)
    next
      case 2
      show ?thesis unfolding 2 le_value_widths by (rule bit_eqI) (auto simp: bit_simps dest: b)
    next
      case 3
      then show ?thesis by (simp add: take_bit_word_eq_self)
    qed
  qed
  from this [of "unat w"] have t: "take_bit (8 * unat w) (le_value at off (unat w)) = le_value at off (unat w)"
    using assms by (auto simp: axi_width_def)
  have "unat (take_bit (8 * unat w) (le_value at off (unat w))) < 2 ^ (8 * unat w)"
    by (simp add: unsigned_take_bit_eq)
  with t show ?thesis by (simp add: power_mult)
qed

text \<open>The devices, one by one.\<close>

lemma rom_fits:
  assumes "rom_inv r" "BootROM_MmioDevice_read r off w (Some v0) = Inr (AXI_RESP_OKAY, q, r')"
  shows "axi_width w \<and> (\<exists>v. q = Some v \<and> unat v < 256 ^ unat w)"
proof (cases "axi_width w \<and> unat off + unat w \<le> 4096")
  case True
  with assms rom_read_okay [of r w off v0] le_value_fits show ?thesis by auto
next
  case False
  with assms rom_read_slverr [OF False, of r "Some v0"] show ?thesis by simp
qed

lemma dram_fits:
  assumes "dram_inv d" "DRAM_MmioDevice_read d off w (Some v0) = Inr (AXI_RESP_OKAY, q, d')"
  shows "axi_width w \<and> (\<exists>v. q = Some v \<and> unat v < 256 ^ unat w)"
proof (cases "dram_access_ok d off w")
  case True
  with assms dram_read_okay(1) [OF assms(1) True, of v0] le_value_fits show ?thesis
    by (auto simp: dram_access_ok_def)
next
  case False
  with assms dram_read_slverr [OF False, of "Some v0"] show ?thesis by simp
qed

lemma word_fits: "unat (v :: uint32) < 256 ^ unat (4 :: size_t)"
  using unsigned_less [of v] by simp

lemma clint_fits:
  assumes "Clint_MmioDevice_read c off w (Some v0) = Inr (AXI_RESP_OKAY, q, c')"
  shows "axi_width w \<and> (\<exists>v. q = Some v \<and> unat v < 256 ^ unat w)"
  using assms word_fits by (auto simp: clint_read_reg axi_width_def split: option.splits if_splits)

lemma irq_fits:
  assumes "IrqAgg_MmioDevice_read g off w (Some v0) = Inr (AXI_RESP_OKAY, q, g')"
  shows "axi_width w \<and> (\<exists>v. q = Some v \<and> unat v < 256 ^ unat w)"
  using assms word_fits by (auto simp: IrqAgg_MmioDevice_read_def axi_width_def split: if_splits)

lemma uart_fits:
  assumes "UART_MmioDevice_read u off w (Some v0) = Inr (AXI_RESP_OKAY, q, u')"
  shows "axi_width w \<and> (\<exists>v. q = Some v \<and> unat v < 256 ^ unat w)"
proof -
  have "unat v < 256 \<Longrightarrow> axi_width w \<Longrightarrow> unat v < 256 ^ unat w" for v :: uint32
    by (auto simp: axi_width_def)
  moreover have "unat (ucast (b :: uint8) :: uint32) < 256" for b
    using le_less_trans [OF take_bit_nat_less_eq_self [of 32 "unat b"], of 256] unsigned_less [of b, where 'a = nat]
    by (simp add: unsigned_ucast_eq)
  ultimately show ?thesis
    using assms by (auto simp: UART_MmioDevice_read_def uart_consts axi_width_def Let_def split: if_splits prod.splits)
qed

text \<open>C17: Every read that the bus answers with success has one of the widths 1, 2 and 4 and
  delivers a value of that width: below \<open>256 ^ width\<close>, whichever device answers, at any address
  (also past the top of the address space).\<close>

theorem read_fits_width:
  assumes "soc_inv s" "soc_read s a w (Some v0) = Inr (AXI_RESP_OKAY, q, s')"
  shows "axi_width w \<and> (\<exists>v. q = Some v \<and> unat v < 256 ^ unat w)"
proof -
  have i: "rom_inv (boot_rom (fst s))" "dram_inv (dram (fst s))"
    using assms(1) by (simp_all add: soc_inv_def rom_inv_def)
  note rd = soc_read_def MemoryMap_read_def MmioDevice_read_def vtbl_defs lift_read_def lens_defs
  obtain u where u: "find_unit (memmap (fst s)) a w = Some u"
    using assms(2) by (cases "find_unit (memmap (fst s)) a w") (simp_all add: rd)
  show ?thesis
  proof (cases "u_device u")
    case Ref_BootROM
    with assms(2) u show ?thesis by (auto simp: rd res_simps dest: rom_fits [OF i(1)])
  next
    case Ref_Clint
    with assms(2) u show ?thesis by (auto simp: rd res_simps dest: clint_fits)
  next
    case Ref_UART
    with assms(2) u show ?thesis by (auto simp: rd res_simps dest: uart_fits)
  next
    case Ref_IrqAgg
    with assms(2) u show ?thesis by (auto simp: rd res_simps dest: irq_fits)
  next
    case Ref_DRAM
    with assms(2) u show ?thesis by (auto simp: rd res_simps dest: dram_fits [OF i(2)])
  qed
qed

text \<open>Witness: a half-word of the boot stub.\<close>

lemma read_fits_width_witness:
  "\<exists>v. soc_read (soc0 None, host0) 0 2 (Some 7) = Inr (AXI_RESP_OKAY, Some v, (soc0 None, host0)) \<and> unat v < 65536"
proof -
  let ?s = "(soc0 None, host0)"
  have i: "soc_inv ?s" using sys_inv_soc0 by (simp only: sys_inv_def)
  have "find_unit (memmap (fst ?s)) 0 2 = Some \<lparr>u_base = 0, u_size = 0x1000, u_device = Ref_BootROM\<rparr>"
    by (simp add: soc0_def find_unit_def soc_map_def)
  moreover have "rom_inv (boot_rom (fst ?s))" by (simp add: soc0_def rom_inv_def)
  ultimately obtain v where r: "soc_read ?s 0 2 (Some 7) = Inr (AXI_RESP_OKAY, Some v, ?s)"
    using rom_read_okay [of "boot_rom (fst ?s)" 2 0 7]
    by (auto simp: soc_read_def MemoryMap_read_def MmioDevice_read_def vtbl_defs lift_read_def lens_defs axi_width_def)
  with read_fits_width [OF i r] show ?thesis by simp
qed

end
