(* ===== verification/DpiBoot.thy ===== *)
theory DpiBoot
  imports Dpi SocContract
begin

text \<open>
  The bridge after a successful initialisation with a program: constructor, loader and bus
  composed.  The loader changes nothing but the memory, so the bridge owns a SoC whose
  abstraction is the constructed machine with the program's image in memory, and everything the
  testbench sees from then on is what the abstract machine of \<open>SocSpec\<close> answers.
\<close>

subsection \<open>The loader changes memory only\<close>

definition soc_rest :: "store \<Rightarrow> store" where
  "soc_rest s = put_dram \<lparr>model = DRAM_MODEL_IDEAL, backing = arr_zero 0, size_bytes = 0\<rparr> s"

lemma soc_rest_put: "soc_rest (put_dram d s) = soc_rest s"
  by (simp add: soc_rest_def lens_defs)

lemma rest_word_write:
  assumes "soc_inv s" "0x80000000 \<le> unat a" "unat a + unat w \<le> 0x84000000" "unat a mod unat w = 0" "axi_width w"
    and "w = 4 \<longrightarrow> strb = 0xF" "soc_write s a w v strb = Inr (r, s')"
  shows "soc_rest s' = soc_rest s"
  using soc_write_dram [of s a w strb v] assms by (auto simp: dram_addr_def soc_rest_put)

interpretation soc_mem_rest: byte_bus soc_write "\<lambda>s. soc_inv s \<and> soc_rest s = k" dram_view "0x80000000" "0x84000000" for k
proof (unfold_locales, goal_cases)
  case 1
  show ?case by simp
next
  case (2 s a v)
  then have i: "soc_inv s" by simp
  from soc_mem.word_write [OF i 2(2-4), of v] obtain s' where "soc_write s a 4 v 0xF = Inr (AXI_RESP_OKAY, s')" "soc_inv s'"
    "dram_view s' = (\<lambda>j. if unat a \<le> j \<and> j < unat a + 4 then le_byte v (j - unat a) else dram_view s j)"
    by blast
  with rest_word_write [of s a 4 "0xF" v AXI_RESP_OKAY s'] 2 show ?case by (auto simp: axi_width_def)
next
  case (3 s a v strb)
  then have i: "soc_inv s" by simp
  from soc_mem.byte_write [OF i 3(2,3), of v strb] obtain s' where "soc_write s a 1 v strb = Inr (AXI_RESP_OKAY, s')" "soc_inv s'"
    "dram_view s' = (if bit strb 0 then (dram_view s)(unat a := le_byte v 0) else dram_view s)"
    by blast
  with rest_word_write [of s a 1 strb v AXI_RESP_OKAY s'] 3 show ?case by (auto simp: axi_width_def)
qed

text \<open>The abstraction of a loaded SoC.\<close>

lemma abs_rest:
  assumes "soc_rest (t', h') = soc_rest (t, h)"
  shows "soc_abs (t', h') = (soc_abs (t, h))\<lparr>sp_mem := dram_bytes (t', h')\<rparr>"
    and "ticker t' = ticker t" "irq_agg t' = irq_agg t" "uart t' = uart t" "h' = h"
proof -
  have d: "t'\<lparr>dram := d\<rparr> = t\<lparr>dram := d\<rparr>" "h' = h" if "d = \<lparr>model = DRAM_MODEL_IDEAL, backing = arr_zero 0, size_bytes = 0\<rparr>" for d
    using assms that by (simp_all add: soc_rest_def lens_defs)
  have "clint (t'\<lparr>dram := d\<rparr>) = clint (t\<lparr>dram := d\<rparr>)" "uart (t'\<lparr>dram := d\<rparr>) = uart (t\<lparr>dram := d\<rparr>)"
    "irq_agg (t'\<lparr>dram := d\<rparr>) = irq_agg (t\<lparr>dram := d\<rparr>)" "ticker (t'\<lparr>dram := d\<rparr>) = ticker (t\<lparr>dram := d\<rparr>)"
    if "d = \<lparr>model = DRAM_MODEL_IDEAL, backing = arr_zero 0, size_bytes = 0\<rparr>" for d
    using d(1) [OF that] by simp_all
  then have e: "clint t' = clint t" "uart t' = uart t" "irq_agg t' = irq_agg t" "ticker t' = ticker t"
    by simp_all
  show "ticker t' = ticker t" "irq_agg t' = irq_agg t" "uart t' = uart t" "h' = h" using e d(2) by simp_all
  show "soc_abs (t', h') = (soc_abs (t, h))\<lparr>sp_mem := dram_bytes (t', h')\<rparr>"
    using e d(2) by (simp add: soc_abs_def out_stream_def)
qed

definition view_mem :: "(nat \<Rightarrow> uint8) \<Rightarrow> nat \<Rightarrow> uint8" where
  "view_mem m i = m (i + 0x80000000)"

lemma dram_bytes_view: "dram_bytes s = view_mem (dram_view s)"
  by (simp add: view_mem_def dram_view_def fun_eq_iff)

lemma calloc_granted:
  "heap_grant n h \<Longrightarrow> heap_calloc n (h\<lparr>h_open := i\<rparr>) =
     (True, h\<lparr>h_open := i, h_alloc := tl (h_alloc h), h_live := h_live h + 1\<rparr>)"
proof -
  assume g: "heap_grant n h"
  have a: "h_alloc (h\<lparr>h_open := i\<rparr>) = h_alloc h" "h_live (h\<lparr>h_open := i\<rparr>) = h_live h" by simp_all
  have "heap_grant n (h\<lparr>h_open := i\<rparr>) = heap_grant n h" by (simp only: heap_grant_def a)
  with g show ?thesis by (simp only: heap_calloc_def a if_True)
qed

lemma load_elf_abs:
  assumes "sys_inv (t, h)" "elf_header h path = Some (f, eh)" "phdrs_ok 0x80000000 0x84000000 f eh"
    and "heap_grant (of_nat CHUNK) h"
  shows "\<exists>t' h'. SnakeSoC_load_elf path (t, h) p = Inr (None, map_option (\<lambda>_. ELF_LOADER_DRAM_BASE) p, (t', h')) \<and>
    sys_inv (t', h') \<and> soc_abs (t', h') = (soc_abs (t, h))\<lparr>sp_mem := view_mem (elf_image f eh (dram_view (t, h)))\<rparr>"
proof -
  have i: "soc_inv (t, h)" using assms(1) by (simp only: sys_inv_def)
  define h1 where "h1 = h\<lparr>h_open := h_open h + 1, h_alloc := tl (h_alloc h), h_live := h_live h + 1\<rparr>"
  have c: "heap_calloc (of_nat CHUNK) (h\<lparr>h_open := h_open h + 1\<rparr>) = (True, h1)"
    unfolding h1_def by (rule calloc_granted [OF assms(4)])
  have "soc_inv (t, h1)" using i soc_inv_host by blast
  then obtain s' where s': "load_phdrs soc_write eh 0 (f\<lparr>f_pos := sizeof_Ehdr\<rparr>) (t, h1) = Inr (None, s')"
    "soc_inv s'" "soc_rest s' = soc_rest (t, h1)" "dram_view s' = elf_image f eh (dram_view (t, h1))"
    using soc_mem_rest.phdrs_spec [of "f\<lparr>f_pos := sizeof_Ehdr\<rparr>" eh "(t, h1)" "soc_rest (t, h1)" 0] assms(3)
    by (auto simp: elf_image_def)
  obtain t' h2 where s2: "s' = (t', h2)" by (metis surj_pair)
  note r = abs_rest [OF s'(3) [unfolded s2]]
  obtain h' where h': "end_load s' = (t', h')" "h_stdin h' = h_stdin h" "h_out h' = h_out h" "h_putfail h' = h_putfail h"
    using r(5) by (auto simp: s2 end_load_def host_fclose_def heap_free_def h1_def)
  have "SnakeSoC_load_elf path (t, h) p = Inr (None, map_option (\<lambda>_. ELF_LOADER_DRAM_BASE) p, (t', h'))"
    using s'(1) c h'(1) load_elf_header [OF assms(2) elf_header_fs [OF assms(2)], of soc_write t p]
      elf_header_entry [OF assms(2)] by (simp add: SnakeSoC_load_elf_def)
  moreover have "sys_inv (t', h')"
    using assms(1) s'(2) r soc_inv_host [of t' h2 h'] by (simp add: sys_inv_def s2)
  moreover have "dram_bytes (t', h') = view_mem (elf_image f eh (dram_view (t, h)))"
    using s'(4) dram_view_host [of t' h2 h'] dram_view_host [of t h1 h] by (simp add: dram_bytes_view s2)
  then have "soc_abs (t', h') = (soc_abs (t, h))\<lparr>sp_mem := view_mem (elf_image f eh (dram_view (t, h)))\<rparr>"
    using r(1,4) h' by (simp add: soc_abs_def out_stream_def dram_bytes_def)
  ultimately show ?thesis by blast
qed

subsection \<open>Initialisation\<close>

lemma chunk_granted:
  assumes "next_allocs_ok 9 h" "h_alloc h' = drop 8 (h_alloc h)"
  shows "heap_grant (of_nat CHUNK) h'"
proof -
  have "take (Suc 0) (drop 8 xs) = drop 8 (take 9 xs)" for xs :: "bool list"
    by (simp add: drop_take)
  then have "next_allocs_ok (Suc 0) h'"
    using assms by (auto simp: next_allocs_ok_def list_all_iff dest: in_set_dropD)
  moreover have "unat (of_nat CHUNK :: size_t) < 2 ^ 63" by (simp add: CHUNK_def)
  ultimately show ?thesis by (rule next_grant)
qed

lemma host_io_sel:
  assumes "host_io h' = host_io h"
  shows "h_fs h' = h_fs h" "h_stdin h' = h_stdin h" "h_out h' = h_out h" "h_putfail h' = h_putfail h"
proof -
  have "h_fs (host_io k) = h_fs k" "h_stdin (host_io k) = h_stdin k" "h_out (host_io k) = h_out k"
    "h_putfail (host_io k) = h_putfail k" for k
    by (simp_all add: host_io_def)
  then show "h_fs h' = h_fs h" "h_stdin h' = h_stdin h" "h_out h' = h_out h" "h_putfail h' = h_putfail h"
    using assms by metis+
qed

text \<open>The machine the testbench starts with: the constructed one with the file's segments in memory.\<close>

definition dpi_spec :: "host \<Rightarrow> cfile \<Rightarrow> Elf32_Ehdr \<Rightarrow> soc_spec" where
  "dpi_spec h f eh = (spec0 (Some Stdout) h)\<lparr>sp_mem := view_mem (elf_overlay f eh (\<lambda>_. 0))\<rparr>"

lemma zero_view: "dram_view (soc0 f, h) = (\<lambda>_. 0)"
  by (simp add: dram_view_def dram_bytes_def soc0_def arr_zero_def fun_eq_iff)

lemma init_loads:
  assumes "next_allocs_ok 9 h" "path \<noteq> []" "elf_header h path = Some (f, eh)" "phdrs_ok 0x80000000 0x84000000 f eh"
    and "segs_whole f eh"
  shows "\<exists>t' h'. dpi_snake_soc_init (Some path) (None, h) = Inr (None, Some t', h') \<and> sys_inv (t', h') \<and>
    soc_abs (t', h') = dpi_spec h f eh"
proof -
  have "next_allocs_ok 8 h" using assms(1) by (auto simp: next_allocs_ok_def list_all_length)
  then obtain h1 where c: "SnakeSoC_ctor (Some Stdout) h = Inr (None, Some (soc0 (Some Stdout)), h1)"
      "h_alloc h1 = drop 8 (h_alloc h)" "host_io h1 = host_io h"
    using ctor_all_ok by blast
  note io = host_io_sel [OF c(3)]
  have "elf_header h1 path = Some (f, eh)" using assms(3) io(1) by (simp add: elf_header_def)
  from load_elf_abs [OF sys_inv_soc0 [of "Some Stdout"] this assms(4) chunk_granted [OF assms(1) c(2)], where p = "Some 0"]
  obtain t' h' where l: "SnakeSoC_load_elf path (soc0 (Some Stdout), h1) (Some 0) =
        Inr (None, Some ELF_LOADER_DRAM_BASE, (t', h'))" "sys_inv (t', h')"
      "soc_abs (t', h') = (soc_abs (soc0 (Some Stdout), h1))\<lparr>sp_mem := view_mem (elf_image f eh (dram_view (soc0 (Some Stdout), h1)))\<rparr>"
    by auto
  have "dpi_snake_soc_init (Some path) (None, h) = Inr (None, Some t', h')"
    using c(1) l(1) assms(2) by (simp add: dpi_snake_soc_init_def)
  moreover have "soc_abs (t', h') = dpi_spec h f eh"
    unfolding l(3) abs_soc0 zero_view dpi_spec_def elf_image_whole [OF assms(4,5)] using io by (simp add: spec0_def)
  ultimately show ?thesis using l(2) by blast
qed

subsection \<open>Calls and what they return\<close>

text \<open>The bus access behind a call of the testbench.\<close>

fun dpi_access :: "dpi_op \<Rightarrow> soc_op option" where
  "dpi_access DpiTick = Some OpTick"
| "dpi_access (DpiRead a w) = Some (OpRead a (scast w))"
| "dpi_access (DpiWrite a w v strb) = Some (OpWrite a (scast w) v strb)"
| "dpi_access _ = None"

text \<open>What the testbench gets back from a call, and from the three wire functions after it.\<close>

type_synonym dpi_obs = "nat \<times> uint32 \<times> nat \<times> nat \<times> nat"

definition dpi_wires :: "dpi_state \<Rightarrow> nat \<times> nat \<times> nat" where
  "dpi_wires s = (dpi_snake_soc_msip s, dpi_snake_soc_mtip s, dpi_snake_soc_meip s)"

fun dpi_call :: "dpi_op \<Rightarrow> dpi_state \<Rightarrow> fault + ((nat \<times> uint32) \<times> dpi_state)" where
  "dpi_call (DpiRead a w) s = bind_res (dpi_snake_soc_read a w (Some 0) s) (\<lambda>(r, q, s).
     case q of None \<Rightarrow> Inl NullDeref | Some v \<Rightarrow> Inr ((r, v), s))"
| "dpi_call (DpiWrite a w v strb) s = bind_res (dpi_snake_soc_write a w v strb s) (\<lambda>(r, s). Inr ((r, 0), s))"
| "dpi_call op s = bind_res (dpi_do op s) (\<lambda>s. Inr ((0, 0), s))"

fun dpi_trace :: "dpi_op list \<Rightarrow> dpi_state \<Rightarrow> fault + (dpi_obs list \<times> dpi_state)" where
  "dpi_trace [] s = Inr ([], s)"
| "dpi_trace (op # ops) s =
     bind_res (dpi_call op s) (\<lambda>((r, v), s1).
     bind_res (dpi_trace ops s1) (\<lambda>(tr, s2). Inr ((r, v, dpi_wires s1) # tr, s2)))"

definition as_dpi :: "soc_obs \<Rightarrow> dpi_obs" where
  "as_dpi = (\<lambda>(r, v, a, b, c). (axi_resp_code r, v, of_bool a, of_bool b, of_bool c))"

lemma dpi_wires_soc: "dpi_wires (Some (fst s), snd s) = (\<lambda>(a, b, c). (of_bool a, of_bool b, of_bool c)) (soc_wires s)"
  by (simp add: dpi_wires_def soc_wires_def dpi_snake_soc_msip_def dpi_snake_soc_mtip_def dpi_snake_soc_meip_def of_bool_def)

lemma dpi_call_soc:
  assumes "dpi_access op = Some sop" "soc_exec sop (t, h) = Inr ((r, v), (t', h'))"
  shows "dpi_call op (Some t, h) = Inr ((axi_resp_code r, v), (Some t', h'))"
proof (cases op)
  case (DpiRead a w)
  have "soc_read (t, h) a (scast w) (Some 0) = Inr (r, Some v, (t', h'))"
    using assms DpiRead by (auto simp: res_simps split: option.splits)
  with DpiRead show ?thesis by (simp add: dpi_snake_soc_read_def)
qed (use assms in \<open>auto simp: dpi_snake_soc_write_def dpi_snake_soc_tick_def res_simps\<close>)

lemma dpi_trace_soc:
  "those (map dpi_access ops) = Some sops \<Longrightarrow> soc_trace sops (t, h) = Inr (tr, (t', h')) \<Longrightarrow>
   dpi_trace ops (Some t, h) = Inr (map as_dpi tr, (Some t', h'))"
proof (induction ops arbitrary: sops t h tr)
  case (Cons op ops)
  obtain sop rest where o: "dpi_access op = Some sop" "those (map dpi_access ops) = Some rest" "sops = sop # rest"
    using Cons.prems(1) by (auto split: option.splits)
  obtain r v t1 h1 tr1 where e: "soc_exec sop (t, h) = Inr ((r, v), (t1, h1))" "soc_trace rest (t1, h1) = Inr (tr1, (t', h'))"
      "tr = (r, v, soc_wires (t1, h1)) # tr1"
    using Cons.prems(2) by (auto simp: o(3) res_simps)
  have "dpi_trace ops (Some t1, h1) = Inr (map as_dpi tr1, (Some t', h'))"
    using Cons.IH [of rest t1 h1 tr1] o(2) e(2) by simp
  with dpi_call_soc [OF o(1) e(1)] dpi_wires_soc [of "(t1, h1)"] show ?case
    by (simp add: e(3) as_dpi_def split: prod.splits)
qed simp

text \<open>What a bridge without a SoC answers: a decode error with the value zero, no wire raised.\<close>

fun dpi_idle :: "dpi_op \<Rightarrow> dpi_obs" where
  "dpi_idle (DpiRead a w) = (axi_resp_code AXI_RESP_DECERR, 0, 0, 0, 0)"
| "dpi_idle (DpiWrite a w v strb) = (axi_resp_code AXI_RESP_DECERR, 0, 0, 0, 0)"
| "dpi_idle op = (0, 0, 0, 0, 0)"

lemma idle_call: "dpi_access op \<noteq> None \<Longrightarrow> \<exists>r v. dpi_call op (None, h) = Inr ((r, v), (None, h)) \<and> dpi_idle op = (r, v, 0, 0, 0)"
  by (cases op) (simp_all add: dpi_snake_soc_read_def dpi_snake_soc_write_def dpi_snake_soc_tick_def)

lemma idle_trace:
  "list_all (\<lambda>op. dpi_access op \<noteq> None) ops \<Longrightarrow> dpi_trace ops (None, h) = Inr (map dpi_idle ops, (None, h))"
proof (induction ops)
  case (Cons op ops)
  then have a: "dpi_access op \<noteq> None" "dpi_trace ops (None, h) = Inr (map dpi_idle ops, (None, h))" by simp_all
  obtain r v where "dpi_call op (None, h) = Inr ((r, v), (None, h))" "dpi_idle op = (r, v, 0, 0, 0)"
    using idle_call [OF a(1)] by blast
  with a(2) show ?case
    by (simp add: dpi_wires_def dpi_snake_soc_msip_def dpi_snake_soc_mtip_def dpi_snake_soc_meip_def
        del: dpi_call.simps dpi_idle.simps)
qed simp

end
