(* ===== verification/Logging.thy ===== *)
theory Logging
  imports SocSystem
begin

text \<open>
  The tracing decorator (\<open>devices/common/src/logging_mmio_device.c\<close>): a device that delegates
  to another one and writes one line per call to a stream.  The store it acts on is any store
  with the host beside it.  The locale \<open>traced_device\<close> shows that decorating a device keeps
  the subordinate's contract; it is interpreted on every device of the SoC.
\<close>

text \<open>The conversions of \<open>fprintf\<close> that the two format strings use: \<^verbatim>\<open>%zu\<close>, \<^verbatim>\<open>%08x\<close>, \<^verbatim>\<open>%x\<close>.\<close>

definition hex_digit :: "nat \<Rightarrow> char" where
  "hex_digit d = ''0123456789abcdef'' ! d"

fun fmt_base :: "nat \<Rightarrow> nat \<Rightarrow> string" where
  "fmt_base b n = (if b < 2 \<or> n < b then [hex_digit n] else fmt_base b (n div b) @ [hex_digit (n mod b)])"

declare fmt_base.simps [simp del]

definition fmt_dec :: "nat \<Rightarrow> string" where "fmt_dec n = fmt_base 10 n"
definition fmt_hex :: "nat \<Rightarrow> string" where "fmt_hex n = fmt_base 16 n"
definition fmt_hex8 :: "nat \<Rightarrow> string" where
  "fmt_hex8 n = replicate (8 - length (fmt_hex n)) CHR ''0'' @ fmt_hex n"

definition host_fprint :: "stream \<Rightarrow> string \<Rightarrow> host \<Rightarrow> host" where
  "host_fprint f str h = h\<lparr>h_out := (h_out h)(f := h_out h f @ map of_char str)\<rparr>"

record 'd LoggingMmioDevice =
  wrapped :: 'd
  trace_tag :: string
  sink :: "stream option"

definition resolve_sink :: "stream option \<Rightarrow> stream" where
  "resolve_sink user_sink = (case user_sink of Some f \<Rightarrow> f | None \<Rightarrow> Stderr)"

definition read_line :: "string \<Rightarrow> size_t \<Rightarrow> addr_t \<Rightarrow> uint32 \<Rightarrow> axi_resp_e \<Rightarrow> string" where
  "read_line t width offset v rc =
     ''['' @ t @ ''] R  w='' @ fmt_dec (unat width) @ '' off='' @ fmt_hex8 (unat offset) @
     ''                -> v='' @ fmt_hex8 (unat v) @ '' rc='' @ axi_resp_name rc @ [CHR 0x0A]"

definition write_line :: "string \<Rightarrow> size_t \<Rightarrow> addr_t \<Rightarrow> uint32 \<Rightarrow> uint8 \<Rightarrow> axi_resp_e \<Rightarrow> string" where
  "write_line t width offset value strb rc =
     ''['' @ t @ ''] W  w='' @ fmt_dec (unat width) @ '' off='' @ fmt_hex8 (unat offset) @
     '' val='' @ fmt_hex8 (unat value) @ '' strb='' @ fmt_hex (unat strb) @ '' rc='' @
     axi_resp_name rc @ [CHR 0x0A]"

definition LoggingMmioDevice_read ::
  "('d \<Rightarrow> ('a \<times> host) MmioDeviceVtbl option) \<Rightarrow> 'd LoggingMmioDevice \<Rightarrow> ('a \<times> host) mmio_read" where
  "LoggingMmioDevice_read vtbl self s offset width value_out =
     bind_res (MmioDevice_read vtbl (wrapped self) s offset width (Some 0)) (\<lambda>(rc, v_cell, s).
       let v = (case v_cell of Some v \<Rightarrow> v | None \<Rightarrow> 0);
           s = (fst s, host_fprint (resolve_sink (sink self))
                         (read_line (trace_tag self) width offset v rc) (snd s))
       in if rc = AXI_RESP_OKAY
          then bind_res (store_out value_out v) (\<lambda>q. Inr (rc, q, s))
          else Inr (rc, zero_out value_out, s))"

definition LoggingMmioDevice_write ::
  "('d \<Rightarrow> ('a \<times> host) MmioDeviceVtbl option) \<Rightarrow> 'd LoggingMmioDevice \<Rightarrow> ('a \<times> host) mmio_write" where
  "LoggingMmioDevice_write vtbl self s offset width value strb =
     bind_res (MmioDevice_write vtbl (wrapped self) s offset width value strb) (\<lambda>(rc, s).
       Inr (rc, fst s, host_fprint (resolve_sink (sink self))
                         (write_line (trace_tag self) width offset value strb rc) (snd s)))"

definition LoggingMmioDevice_ctor :: "'d \<Rightarrow> string \<Rightarrow> stream option \<Rightarrow> 'd LoggingMmioDevice" where
  "LoggingMmioDevice_ctor w t f = \<lparr>wrapped = w, trace_tag = t, sink = f\<rparr>"

definition LoggingMmioDevice_vtbl ::
  "('d \<Rightarrow> ('a \<times> host) MmioDeviceVtbl option) \<Rightarrow> 'd LoggingMmioDevice \<Rightarrow> ('a \<times> host) MmioDeviceVtbl" where
  "LoggingMmioDevice_vtbl vtbl self =
     \<lparr>vt_read = LoggingMmioDevice_read vtbl self, vt_write = LoggingMmioDevice_write vtbl self\<rparr>"

lemma fmt_base_length: "1 < b \<Longrightarrow> n < b ^ k \<Longrightarrow> 0 < k \<Longrightarrow> length (fmt_base b n) \<le> k"
proof (induction k arbitrary: n)
  case (Suc k)
  show ?case
  proof (cases "n < b")
    case False
    then have "k \<noteq> 0" using Suc.prems by (cases k) auto
    moreover have "n div b < b ^ k" using Suc.prems by (simp add: less_mult_imp_div_less mult.commute)
    ultimately show ?thesis using Suc.IH [of "n div b"] Suc.prems False by (simp add: fmt_base.simps [of b n])
  qed (simp add: fmt_base.simps [of b n])
qed simp

text \<open>\<^verbatim>\<open>%08x\<close> of a 32-bit value is always eight characters.\<close>

lemma fmt_hex8_length: "length (fmt_hex8 (unat (w :: uint32))) = 8"
proof -
  have "length (fmt_hex (unat w)) \<le> 8"
    unfolding fmt_hex_def using unat32_lt [of w] by (intro fmt_base_length) simp_all
  then show ?thesis by (simp add: fmt_hex8_def)
qed

subsection \<open>The decorator keeps the contract\<close>

locale traced_device = mmio_device inv regs "MmioDevice_read vtbl d" "MmioDevice_write vtbl d"
  for inv :: "'a \<times> host \<Rightarrow> bool" and regs :: "'a \<times> host \<Rightarrow> 'r"
    and vtbl :: "'d \<Rightarrow> ('a \<times> host) MmioDeviceVtbl option" and d :: 'd +
  assumes log_inv: "inv (t, h) \<Longrightarrow> inv (t, host_fprint f str h)"
    and log_regs: "regs (t, host_fprint f str h) = regs (t, h)"
begin

lemma read_eq:
  assumes "inv s"
  obtains rc v s' where "MmioDevice_read vtbl d s off w (Some 0) = Inr (rc, Some v, s')"
    "inv s'" "regs s' = regs s" "rc = AXI_RESP_OKAY \<and> axi_width w \<or> rc = AXI_RESP_SLVERR \<and> v = 0"
    "LoggingMmioDevice_read vtbl (LoggingMmioDevice_ctor d t f) s off w p =
       (if rc = AXI_RESP_OKAY \<and> p = None then Inl NullDeref
        else Inr (rc, map_option (\<lambda>_. v) p, fst s', host_fprint (resolve_sink f) (read_line t w off v rc) (snd s')))"
proof -
  obtain rc v s' where r: "MmioDevice_read vtbl d s off w (Some 0) = Inr (rc, Some v, s')"
    using rd_total [OF assms] by blast
  have rc: "rc = AXI_RESP_OKAY \<and> axi_width w \<or> rc = AXI_RESP_SLVERR \<and> v = 0"
    using rd_resp [OF assms r] rd_width [OF assms, of off w "Some 0"] rd_err [OF assms, of off w "Some 0"] r
    by (auto simp: zero_out_def)
  have "LoggingMmioDevice_read vtbl (LoggingMmioDevice_ctor d t f) s off w p =
       (if rc = AXI_RESP_OKAY \<and> p = None then Inl NullDeref
        else Inr (rc, map_option (\<lambda>_. v) p, fst s', host_fprint (resolve_sink f) (read_line t w off v rc) (snd s')))"
    using rc r by (cases p) (auto simp: LoggingMmioDevice_read_def LoggingMmioDevice_ctor_def)
  with r rc rd_inv [OF assms r] that show thesis by blast
qed

lemma write_eq:
  assumes "inv s"
  obtains rc s' where "MmioDevice_write vtbl d s off w v strb = Inr (rc, s')" "inv s'"
    "LoggingMmioDevice_write vtbl (LoggingMmioDevice_ctor d t f) s off w v strb =
       Inr (rc, fst s', host_fprint (resolve_sink f) (write_line t w off v strb rc) (snd s'))"
proof -
  obtain rc s' where r: "MmioDevice_write vtbl d s off w v strb = Inr (rc, s')"
    using wr_total [OF assms] by blast
  then show thesis
    using that wr_inv [OF assms r] by (simp add: LoggingMmioDevice_write_def LoggingMmioDevice_ctor_def)
qed

lemma log_pair: "inv s \<Longrightarrow> inv (fst s, host_fprint f str (snd s))"
  "regs (fst s, host_fprint f str (snd s)) = regs s"
  using log_inv [of "fst s" "snd s"] log_regs [of "fst s" f str "snd s"] by simp_all

text \<open>The decorated device obeys the contract of the device it wraps.\<close>

lemma traced_contract:
  "mmio_device inv regs (LoggingMmioDevice_read vtbl (LoggingMmioDevice_ctor d t f))
     (LoggingMmioDevice_write vtbl (LoggingMmioDevice_ctor d t f))"
proof (unfold_locales, goal_cases)
  case (1 s off w v)
  show ?case by (rule read_eq [OF 1, of off w t f "Some v"]) auto
next
  case (2 s off w p r q s')
  show ?case
  proof (rule read_eq [OF 2(1), of off w t f p])
    fix rc v s1 assume "inv s1" "regs s1 = regs s"
      "LoggingMmioDevice_read vtbl (LoggingMmioDevice_ctor d t f) s off w p =
       (if rc = AXI_RESP_OKAY \<and> p = None then Inl NullDeref
        else Inr (rc, map_option (\<lambda>_. v) p, fst s1, host_fprint (resolve_sink f) (read_line t w off v rc) (snd s1)))"
    then show ?thesis using 2(2) log_pair [of s1] by (auto split: if_splits)
  qed
next
  case (3 s off w p r q s')
  show ?case by (rule read_eq [OF 3(1), of off w t f p]) (use 3(2) in \<open>auto split: if_splits\<close>)
next
  case (4 s off w p q s')
  show ?case by (rule read_eq [OF 4(1), of off w t f p]) (use 4(2) in \<open>auto simp: zero_out_def split: if_splits\<close>)
next
  case (5 s off w p q s')
  show ?case by (rule read_eq [OF 5(1), of off w t f p]) (use 5(2) in \<open>auto split: if_splits\<close>)
next
  case (6 s off w val strb)
  show ?case by (rule write_eq [OF 6, of off w val strb t f]) auto
next
  case (7 s off w val strb r s')
  show ?case
  proof (rule write_eq [OF 7(1), of off w val strb t f])
    fix rc s1 assume "inv s1" "LoggingMmioDevice_write vtbl (LoggingMmioDevice_ctor d t f) s off w val strb =
        Inr (rc, fst s1, host_fprint (resolve_sink f) (write_line t w off val strb rc) (snd s1))"
    then show ?thesis using 7(2) log_pair(1) [of s1] by auto
  qed
next
  case (8 s off w val strb r s')
  show ?case
  proof (rule write_eq [OF 8(1), of off w val strb t f])
    fix rc s1 assume "MmioDevice_write vtbl d s off w val strb = Inr (rc, s1)"
    from wr_resp [OF 8(1) this] show "LoggingMmioDevice_write vtbl (LoggingMmioDevice_ctor d t f) s off w val strb =
        Inr (rc, fst s1, host_fprint (resolve_sink f) (write_line t w off val strb rc) (snd s1)) \<Longrightarrow> ?thesis"
      using 8(2) by simp
  qed
next
  case (9 s off w val strb s')
  show ?case
  proof (rule write_eq [OF 9(1), of off w val strb t f])
    fix rc s1 assume "MmioDevice_write vtbl d s off w val strb = Inr (rc, s1)"
      "LoggingMmioDevice_write vtbl (LoggingMmioDevice_ctor d t f) s off w val strb =
        Inr (rc, fst s1, host_fprint (resolve_sink f) (write_line t w off val strb rc) (snd s1))"
    then show ?thesis using 9 wr_err [OF 9(1), of off w val strb s1] by (auto simp: log_pair)
  qed
next
  case (10 s off w val strb s')
  show ?case
  proof (rule write_eq [OF 10(1), of off w val strb t f])
    fix rc s1 assume "MmioDevice_write vtbl d s off w val strb = Inr (rc, s1)"
      "LoggingMmioDevice_write vtbl (LoggingMmioDevice_ctor d t f) s off w val strb =
        Inr (rc, fst s1, host_fprint (resolve_sink f) (write_line t w off val strb rc) (snd s1))"
    then show ?thesis using 10 wr_width [OF 10(1), of off w val strb s1] by auto
  qed
next
  case (11 s off val strb s')
  show ?case
  proof (rule write_eq [OF 11(1), of off 4 val strb t f])
    fix rc s1 assume "MmioDevice_write vtbl d s off 4 val strb = Inr (rc, s1)"
      "LoggingMmioDevice_write vtbl (LoggingMmioDevice_ctor d t f) s off 4 val strb =
        Inr (rc, fst s1, host_fprint (resolve_sink f) (write_line t 4 off val strb rc) (snd s1))"
    then show ?thesis using 11 wr_strb [OF 11(1), of off val strb s1] by auto
  qed
qed

end

lemma soc_coarse: "mmio_device soc_inv fst (MmioDevice_read soc_vtbl d) (MmioDevice_write soc_vtbl d)"
  using mmio_device.coarser [OF soc_bus.bus_device, of fst d] by (simp add: soc_regs_def comp_def)

interpretation soc_traced: traced_device soc_inv fst soc_vtbl d for d
  by (intro traced_device.intro soc_coarse, unfold_locales) (simp_all add: soc_inv_def)

end
