(* ===== verification/RtString.thy ===== *)
theory RtString
  imports Prelude
begin

text \<open>
  The string functions of the target's runtime (\<open>runtime/src/stdlib/string.c\<close>) over the
  target's memory: a byte at every 32-bit address, pointers that wrap like the address
  arithmetic of the machine.  \<open>size_t\<close> is 32 bits there.  The scans for a terminator need
  not end when there is none, so they are partial functions; on a terminated string they are
  total and equal to the list functions they stand for.
\<close>

type_synonym memory = "addr_t \<Rightarrow> uint8"

function memcpy_loop :: "addr_t \<Rightarrow> addr_t \<Rightarrow> nat \<Rightarrow> nat \<Rightarrow> memory \<Rightarrow> memory" where
  "memcpy_loop d s n i m =
     (if i < n then memcpy_loop d s n (Suc i) (m(d + of_nat i := m (s + of_nat i))) else m)"
  by pat_completeness auto
termination by (relation "measure (\<lambda>(d, s, n, i, m). n - i)") auto

definition rt_memcpy :: "addr_t \<Rightarrow> addr_t \<Rightarrow> uint32 \<Rightarrow> memory \<Rightarrow> addr_t \<times> memory" where
  "rt_memcpy dst src n m = (dst, memcpy_loop dst src (unat n) 0 m)"

function memset_loop :: "addr_t \<Rightarrow> uint8 \<Rightarrow> nat \<Rightarrow> nat \<Rightarrow> memory \<Rightarrow> memory" where
  "memset_loop d cb n i m =
     (if i < n then memset_loop d cb n (Suc i) (m(d + of_nat i := cb)) else m)"
  by pat_completeness auto
termination by (relation "measure (\<lambda>(d, cb, n, i, m). n - i)") auto

definition rt_memset :: "addr_t \<Rightarrow> uint32 \<Rightarrow> uint32 \<Rightarrow> memory \<Rightarrow> addr_t \<times> memory" where
  "rt_memset dst c n m = (dst, memset_loop dst (ucast c) (unat n) 0 m)"

partial_function (option) strlen_loop :: "memory \<Rightarrow> addr_t \<Rightarrow> addr_t option" where
  "strlen_loop m p = (if m p \<noteq> 0 then strlen_loop m (p + 1) else Some p)"

definition rt_strlen :: "memory \<Rightarrow> addr_t \<Rightarrow> uint32 option" where
  "rt_strlen m s = map_option (\<lambda>p. p - s) (strlen_loop m s)"

partial_function (option) strcmp_loop :: "memory \<Rightarrow> addr_t \<Rightarrow> addr_t \<Rightarrow> (addr_t \<times> addr_t) option" where
  "strcmp_loop m a b =
     (if m a \<noteq> 0 \<and> m a = m b then strcmp_loop m (a + 1) (b + 1) else Some (a, b))"

definition rt_strcmp :: "memory \<Rightarrow> addr_t \<Rightarrow> addr_t \<Rightarrow> int option" where
  "rt_strcmp m a b = map_option (\<lambda>(a, b). uint (m a) - uint (m b)) (strcmp_loop m a b)"

function strncpy_copy :: "addr_t \<Rightarrow> addr_t \<Rightarrow> nat \<Rightarrow> nat \<Rightarrow> memory \<Rightarrow> nat \<times> memory" where
  "strncpy_copy d s n i m =
     (if i < n \<and> m (s + of_nat i) \<noteq> 0
      then strncpy_copy d s n (Suc i) (m(d + of_nat i := m (s + of_nat i))) else (i, m))"
  by pat_completeness auto
termination by (relation "measure (\<lambda>(d, s, n, i, m). n - i)") auto

definition rt_strncpy :: "addr_t \<Rightarrow> addr_t \<Rightarrow> uint32 \<Rightarrow> memory \<Rightarrow> addr_t \<times> memory" where
  "rt_strncpy dst src n m =
     (let (i, m) = strncpy_copy dst src (unat n) 0 m in (dst, memset_loop dst 0 (unat n) i m))"

declare memcpy_loop.simps [simp del] memset_loop.simps [simp del] strncpy_copy.simps [simp del]
  strlen_loop.simps [code] strcmp_loop.simps [code]

subsection \<open>Regions and strings\<close>

text \<open>\<open>n\<close> bytes from an address that do not wrap; \<open>bytes_at\<close> lists them.\<close>

definition region :: "addr_t \<Rightarrow> nat \<Rightarrow> bool" where
  "region a n \<longleftrightarrow> unat a + n \<le> 2 ^ 32"

definition bytes_at :: "memory \<Rightarrow> addr_t \<Rightarrow> nat \<Rightarrow> uint8 list" where
  "bytes_at m a n = map (\<lambda>i. m (a + of_nat i)) [0..<n]"

definition inside :: "addr_t \<Rightarrow> nat \<Rightarrow> addr_t \<Rightarrow> bool" where
  "inside a n x \<longleftrightarrow> unat a \<le> unat x \<and> unat x < unat a + n"

text \<open>A terminated string with the given content.\<close>

definition cstring :: "memory \<Rightarrow> addr_t \<Rightarrow> uint8 list \<Rightarrow> bool" where
  "cstring m a bs \<longleftrightarrow> region a (Suc (length bs)) \<and> 0 \<notin> set bs \<and>
     bytes_at m a (Suc (length bs)) = bs @ [0]"

lemma region_unat: "region a n \<Longrightarrow> i < n \<Longrightarrow> unat (a + of_nat i) = unat a + i"
proof -
  assume "region a n" "i < n"
  then have "unat a + i < 2 ^ 32" by (simp add: region_def)
  moreover from this have "unat (of_nat i :: addr_t) = i" by (simp add: unat_of_nat)
  ultimately show ?thesis by (simp add: unat_word_ariths)
qed

lemma region_inj: "region a n \<Longrightarrow> i < n \<Longrightarrow> j < n \<Longrightarrow> a + of_nat i = a + of_nat j \<longleftrightarrow> i = j"
  using region_unat [of a n i] region_unat [of a n j] by (metis add_left_cancel)

lemma region_inside:
  assumes "region a n"
  shows "inside a n x \<longleftrightarrow> (\<exists>i < n. x = a + of_nat i)"
proof
  assume "inside a n x"
  then have le: "unat a \<le> unat x" and lt: "unat x - unat a < n" by (auto simp: inside_def)
  have "unat (a + of_nat (unat x - unat a)) = unat x"
    using region_unat [OF assms lt] le by simp
  then have "x = a + of_nat (unat x - unat a)" by (metis unsigned_word_eqI)
  with lt show "\<exists>i < n. x = a + of_nat i" by blast
next
  assume "\<exists>i < n. x = a + of_nat i"
  then show "inside a n x" using region_unat [OF assms] by (auto simp: inside_def)
qed

lemma cstring_nth:
  assumes "cstring m a bs"
  shows "i < length bs \<Longrightarrow> m (a + of_nat i) = bs ! i" "m (a + of_nat (length bs)) = 0"
    "i < length bs \<Longrightarrow> bs ! i \<noteq> 0"
proof -
  have e: "map (\<lambda>i. m (a + of_nat i)) [0..<Suc (length bs)] = bs @ [0]" and z: "0 \<notin> set bs"
    using assms by (simp_all add: cstring_def bytes_at_def del: upt_Suc)
  have "m (a + of_nat i) = (bs @ [0]) ! i" if "i < Suc (length bs)" for i
    using arg_cong [OF e, of "\<lambda>xs. xs ! i"] that by (simp del: upt_Suc)
  then show "i < length bs \<Longrightarrow> m (a + of_nat i) = bs ! i" "m (a + of_nat (length bs)) = 0"
    by (simp_all add: nth_append)
  show "i < length bs \<Longrightarrow> bs ! i \<noteq> 0" using z by (metis nth_mem)
qed

subsection \<open>Copying and filling\<close>

lemma memset_loop_spec:
  assumes "region d n" "i \<le> n"
  shows "memset_loop d cb n i m x = (if \<exists>k. i \<le> k \<and> k < n \<and> x = d + of_nat k then cb else m x)"
  using assms(2)
proof (induction "n - i" arbitrary: i m)
  case 0
  then show ?case by (subst memset_loop.simps) auto
next
  case (Suc k)
  then have i: "i < n" and k: "k = n - Suc i" by auto
  have split: "(\<exists>k. i \<le> k \<and> k < n \<and> x = d + of_nat k) \<longleftrightarrow>
      x = d + of_nat i \<or> (\<exists>k. Suc i \<le> k \<and> k < n \<and> x = d + of_nat k)"
    using i by (metis Suc_leD le_antisym not_less_eq_eq order_refl)
  show ?case
    unfolding split using Suc.hyps(1) [OF k, of "m(d + of_nat i := cb)"] i
    by (auto simp: memset_loop.simps [of d cb n i])
qed

text \<open>Copying forward between regions that do not overlap.\<close>

lemma memcpy_loop_spec:
  assumes "region d n" "region s n" "\<And>i j. i < n \<Longrightarrow> j < n \<Longrightarrow> d + of_nat i \<noteq> s + of_nat j" "i \<le> n"
  shows "(\<forall>k. i \<le> k \<and> k < n \<longrightarrow> memcpy_loop d s n i m (d + of_nat k) = m (s + of_nat k)) \<and>
    (\<forall>x. (\<forall>k. i \<le> k \<and> k < n \<longrightarrow> x \<noteq> d + of_nat k) \<longrightarrow> memcpy_loop d s n i m x = m x)"
  using assms(4)
proof (induction "n - i" arbitrary: i m)
  case 0
  then have "memcpy_loop d s n i m = m" by (simp add: memcpy_loop.simps [of d s i i])
  with 0 show ?case by auto
next
  case (Suc c)
  then have i: "i < n" and c: "c = n - Suc i" by auto
  let ?m = "m(d + of_nat i := m (s + of_nat i))"
  have unf: "memcpy_loop d s n i m = memcpy_loop d s n (Suc i) ?m"
    using i by (simp add: memcpy_loop.simps [of d s n i])
  have IH: "\<And>k. Suc i \<le> k \<and> k < n \<Longrightarrow> memcpy_loop d s n (Suc i) ?m (d + of_nat k) = ?m (s + of_nat k)"
    "\<And>x. \<forall>k. Suc i \<le> k \<and> k < n \<longrightarrow> x \<noteq> d + of_nat k \<Longrightarrow> memcpy_loop d s n (Suc i) ?m x = ?m x"
    using Suc.hyps(1) [OF c, of ?m] i by auto
  have src: "?m (s + of_nat k) = m (s + of_nat k)" if "k < n" for k
    using assms(3) [OF i that] by (auto dest: sym)
  have first: "memcpy_loop d s n (Suc i) ?m (d + of_nat i) = m (s + of_nat i)"
    using IH(2) [of "d + of_nat i"] region_inj [OF assms(1)] i by auto
  show ?case
    unfolding unf
  proof (intro conjI allI impI)
    fix k assume "i \<le> k \<and> k < n"
    then show "memcpy_loop d s n (Suc i) ?m (d + of_nat k) = m (s + of_nat k)"
      using first IH(1) [of k] src [of k] by (cases "k = i") auto
  next
    fix x assume x: "\<forall>k. i \<le> k \<and> k < n \<longrightarrow> x \<noteq> d + of_nat k"
    then have "memcpy_loop d s n (Suc i) ?m x = ?m x" by (intro IH(2)) auto
    then show "memcpy_loop d s n (Suc i) ?m x = m x" using x i by auto
  qed
qed

text \<open>\<open>memcpy\<close> and \<open>memset\<close> in closed form on regions that do not wrap.\<close>

lemma rt_memset_bytes:
  assumes "region d (unat n)"
  shows "rt_memset d c n m = (d, \<lambda>x. if inside d (unat n) x then ucast c else m x)"
  using memset_loop_spec [OF assms, of 0 "ucast c" m] region_inside [OF assms]
  by (auto simp: rt_memset_def fun_eq_iff)

definition disjoint_regions :: "addr_t \<Rightarrow> nat \<Rightarrow> addr_t \<Rightarrow> nat \<Rightarrow> bool" where
  "disjoint_regions a n b k \<longleftrightarrow> unat a + n \<le> unat b \<or> unat b + k \<le> unat a"

lemma rt_memcpy_bytes:
  assumes "region d (unat n)" "region s (unat n)" "disjoint_regions d (unat n) s (unat n)"
    and "rt_memcpy d s n m = (p, m')"
  shows "p = d \<and> bytes_at m' d (unat n) = bytes_at m s (unat n) \<and> (\<forall>x. \<not> inside d (unat n) x \<longrightarrow> m' x = m x)"
proof -
  have ne: "d + of_nat i \<noteq> s + of_nat j" if "i < unat n" "j < unat n" for i j
    using region_unat [OF assms(1) that(1)] region_unat [OF assms(2) that(2)] assms(3) that
    by (auto simp: disjoint_regions_def dest: arg_cong [where f = unat])
  show ?thesis
    using memcpy_loop_spec [OF assms(1,2) ne, of 0 m] assms(4) region_inside [OF assms(1)]
    by (auto simp: rt_memcpy_def bytes_at_def)
qed

subsection \<open>Scanning\<close>

lemma strlen_loop_spec:
  "i \<le> length bs \<Longrightarrow> cstring m a bs \<Longrightarrow> strlen_loop m (a + of_nat i) = Some (a + of_nat (length bs))"
proof (induction "length bs - i" arbitrary: i)
  case 0
  then show ?case using cstring_nth(2) [OF 0(3)] by (subst strlen_loop.simps) simp
next
  case (Suc k)
  then have i: "i < length bs" and k: "k = length bs - Suc i" by auto
  have "m (a + of_nat i) \<noteq> 0" using cstring_nth(1,3) [OF Suc.prems(2) i] by simp
  then show ?case
    using Suc.hyps(1) [OF k _ Suc.prems(2)] i by (subst strlen_loop.simps) (simp add: ac_simps)
qed

lemma rt_strlen_spec: "cstring m a bs \<Longrightarrow> rt_strlen m a = Some (of_nat (length bs))"
  using strlen_loop_spec [of 0 bs m a] by (simp add: rt_strlen_def)

text \<open>Comparison of two byte lists: the difference at the first position where they differ,
  a missing byte counting as the terminator.\<close>

fun byte_cmp :: "uint8 list \<Rightarrow> uint8 list \<Rightarrow> int" where
  "byte_cmp [] [] = 0"
| "byte_cmp [] (b # bs) = - uint b"
| "byte_cmp (a # as) [] = uint a"
| "byte_cmp (a # as) (b # bs) = (if a = b then byte_cmp as bs else uint a - uint b)"

lemma cstring_drop:
  assumes "cstring m a (b # bs)"
  shows "m a = b" "b \<noteq> 0" "cstring m (a + 1) bs"
proof -
  have r: "region a (Suc (Suc (length bs)))" and z: "b \<noteq> 0" "0 \<notin> set bs"
    and e: "map (\<lambda>i. m (a + of_nat i)) [0..<Suc (Suc (length bs))] = b # bs @ [0]"
    using assms by (auto simp: cstring_def bytes_at_def simp del: upt_Suc)
  show "m a = b" using cstring_nth(1) [OF assms, of 0] by simp
  show "b \<noteq> 0" by (rule z(1))
  have "unat (a + 1) = unat a + 1" using region_unat [OF r, of 1] by simp
  then have "region (a + 1) (Suc (length bs))" using r by (simp add: region_def)
  moreover have "bytes_at m (a + 1) (Suc (length bs)) = bs @ [0]"
    using e by (simp add: bytes_at_def upt_conv_Cons map_Suc_upt [symmetric] comp_def add.assoc del: upt_Suc)
  ultimately show "cstring m (a + 1) bs" using z(2) by (simp add: cstring_def)
qed

lemma cstring_nil: "cstring m a [] \<Longrightarrow> m a = 0"
  using cstring_nth(2) [of m a "[]"] by simp

lemma rt_strcmp_spec: "cstring m a as \<Longrightarrow> cstring m b bs \<Longrightarrow> rt_strcmp m a b = Some (byte_cmp as bs)"
proof (induction as bs arbitrary: a b rule: byte_cmp.induct)
  case 1
  then show ?case
    using cstring_nil [OF 1(1)] cstring_nil [OF 1(2)]
    by (simp add: rt_strcmp_def strcmp_loop.simps [of m a b])
next
  case (2 c cs)
  then show ?case
    using cstring_nil [OF 2(1)] cstring_drop [OF 2(2)] by (auto simp: rt_strcmp_def strcmp_loop.simps [of m a b])
next
  case (3 c cs)
  then show ?case
    using cstring_nil [OF 3(2)] cstring_drop [OF 3(1)] by (auto simp: rt_strcmp_def strcmp_loop.simps [of m a b])
next
  case (4 c cs c' cs')
  note d = cstring_drop [OF 4(2)] cstring_drop [OF 4(3)]
  show ?case
  proof (cases "c = c'")
    case True
    then show ?thesis using d 4(1) [OF True d(3) d(6)] by (simp add: rt_strcmp_def strcmp_loop.simps [of m a b])
  next
    case False
    then show ?thesis using d by (simp add: rt_strcmp_def strcmp_loop.simps [of m a b])
  qed
qed

subsection \<open>Bounded copy\<close>

lemma strncpy_copy_spec:
  assumes "cstring m0 s bs" "region d n" "\<And>i j. i < n \<Longrightarrow> j \<le> length bs \<Longrightarrow> d + of_nat i \<noteq> s + of_nat j"
    and "i \<le> n" "i \<le> length bs" "\<And>j. j \<le> length bs \<Longrightarrow> m (s + of_nat j) = m0 (s + of_nat j)"
  shows "\<exists>m'. strncpy_copy d s n i m = (min n (length bs), m') \<and>
    (\<forall>x. m' x = (if \<exists>k. i \<le> k \<and> k < min n (length bs) \<and> x = d + of_nat k
                then bs ! (THE k. k < n \<and> x = d + of_nat k) else m x))"
  using assms(4-6)
proof (induction "min n (length bs) - i" arbitrary: i m)
  case 0
  then have i: "i = min n (length bs)" by auto
  have "\<not> (i < n \<and> m (s + of_nat i) \<noteq> 0)"
    using i cstring_nth(2) [OF assms(1)] 0(4) [of "length bs"] by (auto simp: min_def split: if_splits)
  then have "strncpy_copy d s n i m = (i, m)" by (subst strncpy_copy.simps) auto
  with i show ?case by (auto simp: min_def)
next
  case (Suc c)
  then have i: "i < n" "i < length bs" and c: "c = min n (length bs) - Suc i" by auto
  have mi: "m (s + of_nat i) = bs ! i" "bs ! i \<noteq> 0"
    using Suc.prems(3) [of i] cstring_nth(1,3) [OF assms(1) i(2)] i(2) by auto
  let ?m = "m(d + of_nat i := bs ! i)"
  have keep: "?m (s + of_nat j) = m0 (s + of_nat j)" if "j \<le> length bs" for j
    using assms(3) [OF i(1) that] Suc.prems(3) [OF that] by (auto dest: sym)
  obtain m' where m': "strncpy_copy d s n (Suc i) ?m = (min n (length bs), m')"
    "\<forall>x. m' x = (if \<exists>k. Suc i \<le> k \<and> k < min n (length bs) \<and> x = d + of_nat k
                then bs ! (THE k. k < n \<and> x = d + of_nat k) else ?m x)"
    using Suc.hyps(1) [OF c Suc_leI [OF i(1)] Suc_leI [OF i(2)] keep] by blast
  have the: "(THE k. k < n \<and> d + of_nat i = d + of_nat k) = i"
    using region_inj [OF assms(2) i(1)] i(1) by (intro the_equality) blast+
  have split: "(\<exists>k. i \<le> k \<and> k < min n (length bs) \<and> x = d + of_nat k) \<longleftrightarrow>
      x = d + of_nat i \<or> (\<exists>k. Suc i \<le> k \<and> k < min n (length bs) \<and> x = d + of_nat k)" for x
    using i by (metis Suc_leD le_antisym min_less_iff_conj not_less_eq_eq order_refl)
  have "strncpy_copy d s n i m = (min n (length bs), m')"
    using i mi m'(1) by (subst strncpy_copy.simps) simp
  moreover have "\<forall>x. m' x = (if \<exists>k. i \<le> k \<and> k < min n (length bs) \<and> x = d + of_nat k
                then bs ! (THE k. k < n \<and> x = d + of_nat k) else m x)"
    unfolding split using m'(2) the by auto
  ultimately show ?case by blast
qed

lemma rt_strncpy_spec:
  assumes "cstring m s bs" "region d (unat n)" "disjoint_regions d (unat n) s (Suc (length bs))"
    and "rt_strncpy d s n m = (p, m')"
  shows "p = d \<and> bytes_at m' d (unat n) = take (unat n) (bs @ replicate (unat n) 0) \<and>
    (\<forall>x. \<not> inside d (unat n) x \<longrightarrow> m' x = m x)"
proof -
  let ?n = "unat n"
  have sr: "region s (Suc (length bs))" using assms(1) by (simp add: cstring_def)
  have ne: "d + of_nat i \<noteq> s + of_nat j" if "i < ?n" "j \<le> length bs" for i j
    using region_unat [OF assms(2) that(1)] region_unat [OF sr, of j] assms(3) that
    by (auto simp: disjoint_regions_def dest: arg_cong [where f = unat])
  obtain m1 where m1: "strncpy_copy d s ?n 0 m = (min ?n (length bs), m1)"
    "\<And>x. m1 x = (if \<exists>k. 0 \<le> k \<and> k < min ?n (length bs) \<and> x = d + of_nat k
                then bs ! (THE k. k < ?n \<and> x = d + of_nat k) else m x)"
    using strncpy_copy_spec [OF assms(1,2) ne, of 0 m] by auto
  have m': "p = d" "m' = memset_loop d 0 ?n (min ?n (length bs)) m1"
    using assms(4) m1(1) by (auto simp: rt_strncpy_def)
  have the: "(THE k. k < ?n \<and> d + of_nat i = d + of_nat k) = i" if "i < ?n" for i
    using region_inj [OF assms(2) that] that by (intro the_equality) blast+
  have val: "m' x = (if \<exists>k. min ?n (length bs) \<le> k \<and> k < ?n \<and> x = d + of_nat k then 0 else m1 x)" for x
    unfolding m'(2) by (rule memset_loop_spec [OF assms(2)]) simp
  have pos: "m' (d + of_nat k) = (if k < length bs then bs ! k else 0)" if "k < ?n" for k
  proof (cases "k < length bs")
    case True
    have "\<not> (\<exists>k'. min ?n (length bs) \<le> k' \<and> k' < ?n \<and> d + of_nat k = d + of_nat k')"
      using True that region_inj [OF assms(2) that] by auto
    moreover have "m1 (d + of_nat k) = bs ! k" using True that the [OF that] by (auto simp: m1(2))
    ultimately show ?thesis using True by (simp only: val if_False if_True)
  next
    case False
    then have "\<exists>k'. min ?n (length bs) \<le> k' \<and> k' < ?n \<and> d + of_nat k = d + of_nat k'"
      using that by (intro exI [of _ k]) simp
    then show ?thesis using False by (simp only: val if_True if_False)
  qed
  have "bytes_at m' d ?n = take ?n (bs @ replicate ?n 0)"
    unfolding bytes_at_def using pos by (intro nth_equalityI) (auto simp: nth_append)
  moreover have "m' x = m x" if "\<not> inside d ?n x" for x
    using that unfolding region_inside [OF assms(2)] val m1(2) by auto
  ultimately show ?thesis using m'(1) by blast
qed

end
