(* ===== verification/RtMalloc.thy ===== *)
theory RtMalloc
  imports Prelude
begin

text \<open>
  The bump allocator of the target's runtime (\<open>runtime/src/stdlib/stdlib.c\<close>).  \<open>size_t\<close>,
  \<open>unsigned\<close> and addresses have 32 bits on the target; the boundaries \<open>_sheap\<close> and \<open>_eheap\<close>
  are the linker's and hence arguments.  The address comparison is the one the processor makes,
  so \<open>heap_ptr + aligned\<close> wraps.  A client is a run of requests and releases; the run carries
  the blocks it holds, in the order of allocation.
\<close>

record heap_state =
  heap_ptr :: addr_t
  allocated_cnt :: uint32

definition heap0 :: heap_state where
  "heap0 = \<lparr>heap_ptr = 0, allocated_cnt = 0\<rparr>"

definition heap_init_if_needed :: "addr_t \<Rightarrow> heap_state \<Rightarrow> heap_state" where
  "heap_init_if_needed sheap h = (if heap_ptr h = 0 then h\<lparr>heap_ptr := sheap\<rparr> else h)"

definition rt_malloc :: "addr_t \<Rightarrow> addr_t \<Rightarrow> uint32 \<Rightarrow> heap_state \<Rightarrow> addr_t \<times> heap_state" where
  "rt_malloc sheap eheap sz h =
     (let h = heap_init_if_needed sheap h;
          aligned = (sz + 3) AND NOT 3
      in if heap_ptr h + aligned > eheap then (0, h)
         else let p = heap_ptr h;
                  h = h\<lparr>heap_ptr := heap_ptr h + aligned\<rparr>;
                  h = h\<lparr>allocated_cnt := allocated_cnt h + 1\<rparr>
              in (p, h))"

definition rt_free :: "addr_t \<Rightarrow> addr_t \<Rightarrow> heap_state \<Rightarrow> heap_state" where
  "rt_free sheap ptr h =
     (let h = (if allocated_cnt h > 0 then h\<lparr>allocated_cnt := allocated_cnt h - 1\<rparr> else h)
      in if allocated_cnt h = 0 then h\<lparr>heap_ptr := sheap\<rparr> else h)"

subsection \<open>Alignment\<close>

lemma and_not_3: "(w :: uint32) AND NOT 3 = push_bit 2 (drop_bit 2 w)"
proof -
  have m: "(3 :: uint32) = mask 2" by (simp add: mask_eq_exp_minus_1)
  show ?thesis unfolding m by (rule bit_eqI) (auto simp: bit_simps not_less dest!: le_Suc_ex)
qed

definition round4 :: "nat \<Rightarrow> nat" where
  "round4 n = 4 * ((n + 3) div 4)"

lemma unat_and_not_3: "unat ((w :: uint32) AND NOT 3) = 4 * (unat w div 4)"
proof -
  have "unat w div 4 * 4 \<le> unat w" by simp
  with unat32_lt [of w] have l: "4 * (unat w div 4) < 4294967296" by linarith
  show ?thesis
    unfolding and_not_3 push_bit_eq_mult drop_bit_eq_div
    using l by (simp add: unat_word_ariths unat_div)
qed

lemma aligned_unat: "unat (sz :: uint32) + 3 < 2 ^ 32 \<Longrightarrow> unat ((sz + 3) AND NOT 3) = round4 (unat sz)"
  by (simp only: unat_and_not_3 round4_def) (simp add: unat_word_ariths)

lemma round4_bounds: "n \<le> round4 n" "round4 n < n + 4" "round4 n mod 4 = 0" "round4 n \<le> n + 3"
proof -
  have "4 * ((n + 3) div 4) + (n + 3) mod 4 = n + 3" "(n + 3) mod 4 < 4" by simp_all
  then show "n \<le> round4 n" "round4 n < n + 4" "round4 n \<le> n + 3" unfolding round4_def by linarith+
  show "round4 n mod 4 = 0" by (simp add: round4_def)
qed

subsection \<open>The blocks a client holds\<close>

type_synonym blocks = "(nat \<times> nat) list"

text \<open>The blocks lie one after the other between two addresses, each rounded up to words.\<close>

fun chain :: "nat \<Rightarrow> blocks \<Rightarrow> nat \<Rightarrow> bool" where
  "chain lo [] hi \<longleftrightarrow> lo \<le> hi"
| "chain lo ((p, n) # bs) hi \<longleftrightarrow> lo \<le> p \<and> p mod 4 = 0 \<and> 0 < n \<and> chain (p + round4 n) bs hi"

definition apart_blocks :: "nat \<times> nat \<Rightarrow> nat \<times> nat \<Rightarrow> bool" where
  "apart_blocks b c \<longleftrightarrow> fst b + snd b \<le> fst c \<or> fst c + snd c \<le> fst b"

lemma chain_mono: "chain lo bs hi \<Longrightarrow> lo' \<le> lo \<Longrightarrow> chain lo' bs hi"
  by (cases bs) auto

lemma chain_upto: "chain lo bs hi \<Longrightarrow> hi \<le> hi' \<Longrightarrow> chain lo bs hi'"
  by (induction lo bs hi rule: chain.induct) auto

lemma chain_le: "chain lo bs hi \<Longrightarrow> lo \<le> hi"
  by (induction lo bs hi rule: chain.induct) auto

lemma chain_in: "chain lo bs hi \<Longrightarrow> b \<in> set bs \<Longrightarrow>
  lo \<le> fst b \<and> fst b + round4 (snd b) \<le> hi \<and> fst b mod 4 = 0 \<and> 0 < snd b"
  by (induction lo bs hi rule: chain.induct) (auto dest: chain_le)

lemma chain_snoc: "chain lo bs p \<Longrightarrow> p mod 4 = 0 \<Longrightarrow> 0 < n \<Longrightarrow> chain lo (bs @ [(p, n)]) (p + round4 n)"
  by (induction lo bs p rule: chain.induct) auto

lemma chain_remove: "chain lo bs hi \<Longrightarrow> chain lo (remove1 b bs) hi"
proof (induction lo bs hi rule: chain.induct)
  case (2 lo p n bs hi)
  then show ?case using chain_mono [of "p + round4 n" bs hi lo] by auto
qed simp

lemma chain_length: "chain lo bs hi \<Longrightarrow> lo + 4 * length bs \<le> hi"
proof (induction lo bs hi rule: chain.induct)
  case (2 lo p n bs hi)
  then have "4 \<le> round4 n" using div_le_mono [of 4 "n + 3" 4] by (simp add: round4_def)
  with 2 show ?case by auto
qed simp

lemma chain_apart: "chain lo bs hi \<Longrightarrow> i < j \<Longrightarrow> j < length bs \<Longrightarrow> apart_blocks (bs ! i) (bs ! j)"
proof (induction lo bs hi arbitrary: i j rule: chain.induct)
  case (2 lo p n bs hi)
  obtain k where j: "j = Suc k" using 2 by (cases j) auto
  show ?case
  proof (cases i)
    case 0
    have "bs ! k \<in> set bs" using 2(4) j by simp
    with 2(2) chain_in [of "p + round4 n" bs hi "bs ! k"] round4_bounds(1) [of n] 0 j show ?thesis
      by (auto simp: apart_blocks_def)
  next
    case (Suc i')
    with 2 j show ?thesis by auto
  qed
qed simp

subsection \<open>Runs of a client\<close>

datatype heap_op = Malloc uint32 | Free addr_t

text \<open>A request a client makes: not empty, and so small that the address arithmetic of
  \<open>malloc\<close> does not wrap.\<close>

definition request_ok :: "addr_t \<Rightarrow> uint32 \<Rightarrow> bool" where
  "request_ok eheap sz \<longleftrightarrow> 0 < unat sz \<and> unat eheap + unat sz + 3 < 2 ^ 32"

inductive heap_step :: "addr_t \<Rightarrow> addr_t \<Rightarrow> heap_state \<times> blocks \<Rightarrow> heap_op \<Rightarrow> heap_state \<times> blocks \<Rightarrow> bool"
  for sheap eheap where
  granted: "rt_malloc sheap eheap sz h = (p, h') \<Longrightarrow> request_ok eheap sz \<Longrightarrow> p \<noteq> 0 \<Longrightarrow>
    heap_step sheap eheap (h, bs) (Malloc sz) (h', bs @ [(unat p, unat sz)])"
| refused: "rt_malloc sheap eheap sz h = (0, h') \<Longrightarrow> request_ok eheap sz \<Longrightarrow>
    heap_step sheap eheap (h, bs) (Malloc sz) (h', bs)"
| released: "(unat p, n) \<in> set bs \<Longrightarrow>
    heap_step sheap eheap (h, bs) (Free p) (rt_free sheap p h, remove1 (unat p, n) bs)"

inductive heap_run :: "addr_t \<Rightarrow> addr_t \<Rightarrow> heap_state \<times> blocks \<Rightarrow> heap_op list \<Rightarrow> heap_state \<times> blocks \<Rightarrow> bool"
  for sheap eheap where
  none: "heap_run sheap eheap s [] s"
| more: "heap_step sheap eheap s op s1 \<Longrightarrow> heap_run sheap eheap s1 ops s' \<Longrightarrow> heap_run sheap eheap s (op # ops) s'"

definition heap_bounds :: "addr_t \<Rightarrow> addr_t \<Rightarrow> bool" where
  "heap_bounds sheap eheap \<longleftrightarrow> sheap \<noteq> 0 \<and> unat sheap mod 4 = 0 \<and> sheap \<le> eheap"

definition heap_inv :: "addr_t \<Rightarrow> addr_t \<Rightarrow> heap_state \<times> blocks \<Rightarrow> bool" where
  "heap_inv sheap eheap s \<longleftrightarrow>
     (let h = heap_init_if_needed sheap (fst s)
      in unat (heap_ptr h) mod 4 = 0 \<and> heap_ptr h \<le> eheap \<and>
         chain (unat sheap) (snd s) (unat (heap_ptr h)) \<and> unat (allocated_cnt h) = length (snd s) \<and>
         (snd s = [] \<longrightarrow> heap_ptr h = sheap))"

lemma heap_inv0: "heap_bounds sheap eheap \<Longrightarrow> heap_inv sheap eheap (heap0, [])"
  by (simp add: heap_inv_def heap0_def heap_init_if_needed_def heap_bounds_def)

lemma init_twice [simp]:
  "heap_init_if_needed sheap (heap_init_if_needed sheap h) = heap_init_if_needed sheap h"
  by (simp add: heap_init_if_needed_def)

text \<open>What \<open>malloc\<close> answers to such a request.\<close>

lemma malloc_cases:
  assumes b: "heap_bounds sheap eheap" and i: "heap_inv sheap eheap (h, bs)" and r: "request_ok eheap sz"
  defines "q \<equiv> heap_ptr (heap_init_if_needed sheap h)"
  shows "rt_malloc sheap eheap sz h =
     (if unat q + round4 (unat sz) \<le> unat eheap
      then (q, (heap_init_if_needed sheap h)\<lparr>heap_ptr := q + ((sz + 3) AND NOT 3),
                 allocated_cnt := allocated_cnt h + 1\<rparr>)
      else (0, heap_init_if_needed sheap h))"
    and "unat (q + ((sz + 3) AND NOT 3)) = unat q + round4 (unat sz)" and "q \<noteq> 0"
proof -
  have a: "unat ((sz + 3) AND NOT 3) = round4 (unat sz)" using r by (intro aligned_unat) (simp add: request_ok_def)
  have q: "unat q \<le> unat eheap" "unat sheap \<le> unat q"
    using i chain_le by (auto simp: heap_inv_def q_def Let_def word_le_nat_alt)
  show sum: "unat (q + ((sz + 3) AND NOT 3)) = unat q + round4 (unat sz)"
    using q a r round4_bounds(4) [of "unat sz"] by (subst unat_plus_simple [THEN iffD1])
      (auto simp: request_ok_def no_olen_add_nat)
  have "0 < unat sheap" using b by (simp add: heap_bounds_def unat_gt_0)
  with q(2) show "q \<noteq> 0" by auto
  have c: "allocated_cnt (heap_init_if_needed sheap h) = allocated_cnt h" by (simp add: heap_init_if_needed_def)
  show "rt_malloc sheap eheap sz h =
     (if unat q + round4 (unat sz) \<le> unat eheap
      then (q, (heap_init_if_needed sheap h)\<lparr>heap_ptr := q + ((sz + 3) AND NOT 3),
                 allocated_cnt := allocated_cnt h + 1\<rparr>)
      else (0, heap_init_if_needed sheap h))"
    using sum c by (simp add: rt_malloc_def Let_def q_def [symmetric] word_le_nat_alt not_less [symmetric] word_less_nat_alt)
qed

text \<open>When \<open>malloc\<close> refuses, for a request of any size: the test is on 32-bit addresses.\<close>

lemma malloc_null_iff:
  assumes b: "heap_bounds sheap eheap" and i: "heap_inv sheap eheap (h, bs)" and m: "rt_malloc sheap eheap sz h = (p, h')"
  shows "((p = 0) = (unat eheap <
      (unat (heap_ptr (heap_init_if_needed sheap h)) + 4 * ((unat sz + 3) mod 2 ^ 32 div 4)) mod 2 ^ 32)) \<and>
    (p = 0 \<longrightarrow> h' = heap_init_if_needed sheap h)"
proof -
  let ?q = "heap_ptr (heap_init_if_needed sheap h)"
  have "unat sheap \<le> unat ?q" using i chain_le by (auto simp: heap_inv_def Let_def)
  moreover have "0 < unat sheap" using b by (simp add: heap_bounds_def unat_gt_0)
  ultimately have q: "?q \<noteq> 0" by auto
  have "unat (sz + 3) = (unat sz + 3) mod 2 ^ 32" by (simp add: unat_word_ariths)
  then have "unat (?q + ((sz + 3) AND NOT 3)) = (unat ?q + 4 * ((unat sz + 3) mod 2 ^ 32 div 4)) mod 2 ^ 32"
    by (simp only: unat_word_ariths(1) unat_and_not_3) simp
  then have "(eheap < ?q + ((sz + 3) AND NOT 3)) =
      (unat eheap < (unat ?q + 4 * ((unat sz + 3) mod 2 ^ 32 div 4)) mod 2 ^ 32)"
    by (simp only: word_less_nat_alt)
  with m q show ?thesis by (auto simp: rt_malloc_def Let_def split: if_splits)
qed

inductive_cases heap_mallocE: "heap_step sheap eheap s (Malloc sz) s'"
inductive_cases heap_freeE: "heap_step sheap eheap s (Free p) s'"

lemma free_inv:
  assumes b: "heap_bounds sheap eheap" and i: "heap_inv sheap eheap (h, bs)" and m: "(unat p, n) \<in> set bs"
  shows "heap_inv sheap eheap (rt_free sheap p h, remove1 (unat p, n) bs)"
proof -
  let ?q = "heap_ptr (heap_init_if_needed sheap h)"
  have c: "allocated_cnt (heap_init_if_needed sheap h) = allocated_cnt h" by (simp add: heap_init_if_needed_def)
  from i have ch: "chain (unat sheap) bs (unat ?q)" "unat ?q mod 4 = 0" "?q \<le> eheap"
      "unat (allocated_cnt h) = length bs"
    by (simp_all add: heap_inv_def Let_def c)
  have pos: "0 < length bs" using m by (cases bs) auto
  then have "allocated_cnt h \<noteq> 0" using ch(4) by auto
  then have dec: "unat (allocated_cnt h - 1) = length bs - 1" using ch(4) by (simp add: unat_minus_one)
  have len: "length (remove1 (unat p, n) bs) = length bs - 1" using m by (simp add: length_remove1)
  show ?thesis
  proof (cases "allocated_cnt h - 1 = 0")
    case True
    then have "length bs - 1 = 0" using dec by (metis unat_eq_0)
    then have "remove1 (unat p, n) bs = []" using len by simp
    then show ?thesis
      using True b \<open>allocated_cnt h \<noteq> 0\<close>
      by (simp add: heap_inv_def rt_free_def Let_def heap_init_if_needed_def heap_bounds_def word_neq_0_conv)
  next
    case False
    then have "length bs - 1 \<noteq> 0" using dec by (metis unat_eq_0)
    then have ne: "remove1 (unat p, n) bs \<noteq> []" using len by auto
    have f: "rt_free sheap p h = h\<lparr>allocated_cnt := allocated_cnt h - 1\<rparr>"
      using False \<open>allocated_cnt h \<noteq> 0\<close> by (simp add: rt_free_def Let_def word_neq_0_conv)
    have "heap_init_if_needed sheap (h\<lparr>allocated_cnt := allocated_cnt h - 1\<rparr>) =
        (heap_init_if_needed sheap h)\<lparr>allocated_cnt := allocated_cnt h - 1\<rparr>"
      by (simp add: heap_init_if_needed_def)
    with ch dec len ne show ?thesis
      by (simp add: heap_inv_def f Let_def chain_remove)
  qed
qed

lemma malloc_inv:
  assumes b: "heap_bounds sheap eheap" and i: "heap_inv sheap eheap (h, bs)" and r: "request_ok eheap sz"
    and m: "rt_malloc sheap eheap sz h = (p, h')"
  shows "heap_inv sheap eheap (h', if p = 0 then bs else bs @ [(unat p, unat sz)])"
proof -
  let ?q = "heap_ptr (heap_init_if_needed sheap h)"
  note mc = malloc_cases [OF b i r]
  show ?thesis
  proof (cases "unat ?q + round4 (unat sz) \<le> unat eheap")
    case False
    then show ?thesis using mc(1) m i by (auto simp: heap_inv_def Let_def)
  next
    case True
    then have p: "p = ?q" and h': "h' = (heap_init_if_needed sheap h)\<lparr>heap_ptr := ?q + ((sz + 3) AND NOT 3),
        allocated_cnt := allocated_cnt h + 1\<rparr>" using mc(1) m by simp_all
    have c: "allocated_cnt (heap_init_if_needed sheap h) = allocated_cnt h" by (simp add: heap_init_if_needed_def)
    from i have ch: "chain (unat sheap) bs (unat ?q)" "unat ?q mod 4 = 0" "unat (allocated_cnt h) = length bs"
      by (simp_all add: heap_inv_def Let_def c)
    have sz: "0 < unat sz" using r by (simp add: request_ok_def)
    have "chain (unat sheap) (bs @ [(unat ?q, unat sz)]) (unat ?q + round4 (unat sz))"
      by (rule chain_snoc [OF ch(1,2) sz])
    moreover have "unat (allocated_cnt h + 1) = Suc (length bs)"
    proof -
      have "4 * length bs \<le> unat eheap" using chain_length [OF ch(1)] True by linarith
      then have "Suc (unat (allocated_cnt h)) < 4294967296" using unat32_lt [of eheap] ch(3) by linarith
      then show ?thesis using ch(3) by (simp add: unat_word_ariths)
    qed
    moreover have "?q + ((sz + 3) AND NOT 3) \<noteq> 0" using mc(2,3) unat_gt_0 [of ?q] by force
    moreover have "(unat ?q + round4 (unat sz)) mod 4 = 0" using ch(2) round4_bounds(3) by (simp add: mod_add_eq [symmetric])
    ultimately show ?thesis
      using True mc(2,3) p h' unfolding heap_inv_def
      by (simp add: heap_init_if_needed_def [of _ "_\<lparr>heap_ptr := _, allocated_cnt := _\<rparr>"] Let_def word_le_nat_alt)
  qed
qed

lemma step_heap_inv:
  assumes "heap_step sheap eheap s op s'" "heap_bounds sheap eheap" "heap_inv sheap eheap s"
  shows "heap_inv sheap eheap s'"
  using assms
proof (induction rule: heap_step.induct)
  case (granted sz h p h' bs)
  then show ?case using malloc_inv [OF granted(4,5,2,1)] by simp
next
  case (refused sz h h' bs)
  then show ?case using malloc_inv [OF refused(3,4,2,1)] by simp
next
  case (released p n bs h)
  then show ?case by (intro free_inv)
qed

lemma run_heap_inv:
  "heap_run sheap eheap s ops s' \<Longrightarrow> heap_bounds sheap eheap \<Longrightarrow> heap_inv sheap eheap s \<Longrightarrow> heap_inv sheap eheap s'"
  by (induction rule: heap_run.induct) (auto dest: step_heap_inv)

lemma inv_blocks:
  assumes "heap_inv sheap eheap (h, bs)"
  shows "i < j \<Longrightarrow> j < length bs \<Longrightarrow> apart_blocks (bs ! i) (bs ! j)"
    and "b \<in> set bs \<Longrightarrow> unat sheap \<le> fst b \<and> fst b + snd b \<le> unat eheap \<and> fst b mod 4 = 0"
    and "bs = [] \<Longrightarrow> heap_ptr (heap_init_if_needed sheap h) = sheap"
proof -
  let ?q = "heap_ptr (heap_init_if_needed sheap h)"
  from assms have ch: "chain (unat sheap) bs (unat ?q)" "unat ?q \<le> unat eheap" "bs = [] \<longrightarrow> ?q = sheap"
    by (simp_all add: heap_inv_def Let_def word_le_nat_alt)
  show "i < j \<Longrightarrow> j < length bs \<Longrightarrow> apart_blocks (bs ! i) (bs ! j)" using chain_apart [OF ch(1)] by blast
  show "b \<in> set bs \<Longrightarrow> unat sheap \<le> fst b \<and> fst b + snd b \<le> unat eheap \<and> fst b mod 4 = 0"
    using chain_in [OF ch(1), of b] round4_bounds(1) [of "snd b"] ch(2) by linarith
  show "bs = [] \<Longrightarrow> ?q = sheap" using ch(3) by blast
qed

lemma malloc_run_total:
  assumes "request_ok eheap sz"
  shows "\<exists>s'. heap_step sheap eheap s (Malloc sz) s'"
proof -
  obtain h bs where s: "s = (h, bs)" by (cases s)
  obtain p h' where m: "rt_malloc sheap eheap sz h = (p, h')" by fastforce
  show ?thesis using granted [OF m assms] refused [of sheap eheap sz h h'] m assms s by (cases "p = 0") blast+
qed

end
