(* ===== verification/RtStdio.thy ===== *)
theory RtStdio
  imports Prelude
begin

text \<open>
  The formatted output of the target's runtime (\<open>runtime/src/stdlib/stdio.c\<close>), over the one
  symbol it is linked against, \<open>uart_putc\<close>, given as the argument \<open>pc\<close>.  C strings are the
  lists of their bytes before the terminator, a variadic argument is an \<open>int\<close>-sized word or a
  string pointer (\<open>None\<close> is \<open>NULL\<close>).  \<open>int\<close> has 32 bits and the width of \<open>long\<close> is a
  parameter of the signed printer: 32 on the target, where the negation of the smallest \<open>int\<close> is
  undefined, and 64 on the host that runs the tests.  The locale \<open>putc_port\<close> is the contract of the
  output symbol; in it every routine equals a pure rendering function.
\<close>

datatype va_arg = VInt uint32 | VStr "uint8 list option"

type_synonym 's putc = "uint8 \<Rightarrow> 's \<Rightarrow> fault + 's"

definition rt_putchar :: "'s putc \<Rightarrow> uint32 \<Rightarrow> 's \<Rightarrow> fault + (uint32 \<times> 's)" where
  "rt_putchar pc c s = bind_res (pc (ucast c) s) (\<lambda>s. Inr (c, s))"

text \<open>\<^verbatim>\<open>while (*s != '\0') uart_putc(*s++);\<close>\<close>

fun emit_str :: "'s putc \<Rightarrow> uint8 list \<Rightarrow> 's \<Rightarrow> fault + 's" where
  "emit_str pc [] s = Inr s"
| "emit_str pc (c # cs) s = bind_res (pc c s) (emit_str pc cs)"

definition rt_puts :: "'s putc \<Rightarrow> uint8 list \<Rightarrow> 's \<Rightarrow> fault + (uint32 \<times> 's)" where
  "rt_puts pc str s = bind_res (emit_str pc str s) (\<lambda>s. bind_res (pc 10 s) (\<lambda>s. Inr (0, s)))"

lemma word_div_less: "(10 :: uint32) \<le> v \<Longrightarrow> unat (v div 10) < unat v"
  by (simp add: unat_div word_le_nat_alt)

lemma word_shift_less: "(16 :: uint32) \<le> v \<Longrightarrow> unat (drop_bit 4 v) < unat v"
  by (simp add: drop_bit_eq_div unat_div word_le_nat_alt)

function emit_dec_unsigned :: "'s putc \<Rightarrow> uint32 \<Rightarrow> 's \<Rightarrow> fault + 's" where
  "emit_dec_unsigned pc v s =
     bind_res (if v \<ge> 10 then emit_dec_unsigned pc (v div 10) s else Inr s)
       (pc (48 + ucast (v mod 10)))"
  by pat_completeness auto
termination
  by (relation "measure (\<lambda>(pc, v, s). unat v)") (auto simp: word_div_less)

function emit_hex_lower :: "'s putc \<Rightarrow> uint32 \<Rightarrow> 's \<Rightarrow> fault + 's" where
  "emit_hex_lower pc v s =
     bind_res (if v \<ge> 16 then emit_hex_lower pc (drop_bit 4 v) s else Inr s)
       (let nibble = v AND 0xF in pc (if nibble < 10 then 48 + ucast nibble else 97 + ucast (nibble - 10)))"
  by pat_completeness auto
termination
  by (relation "measure (\<lambda>(pc, v, s). unat v)") (auto simp: word_shift_less)

text \<open>The absolute value as the code computes it.\<close>

definition abs32 :: "uint32 \<Rightarrow> uint32" where
  "abs32 v = (if sint v < 0 then - v else v)"

lemma neg_uint:
  assumes "(v :: uint32) \<noteq> 0"
  shows "uint (- v) = 2 ^ 32 - uint v"
proof -
  have u: "0 < uint v" "uint v < 2 ^ 32" using assms uint_lt2p [of v] by (simp_all add: word_neq_0_conv word_less_def)
  have "uint (- v) = (- uint v) mod 2 ^ 32" by (simp add: uint_word_ariths)
  also have "\<dots> = 2 ^ 32 - uint v" using u by (simp add: zmod_zminus1_eq_if)
  finally show ?thesis .
qed

lemma sint32: "sint (v :: uint32) = (if uint v < 2 ^ 31 then uint v else uint v - 2 ^ 32)"
proof -
  have s: "sint v = (uint v + 2 ^ 31) mod 2 ^ 32 - 2 ^ 31"
    by (simp add: sint_uint signed_take_bit_eq_take_bit_shift take_bit_eq_mod)
  have u: "0 \<le> uint v" "uint v < 2 ^ 32" using uint_lt2p [of v] by simp_all
  show ?thesis
  proof (cases "uint v < 2 ^ 31")
    case True
    then show ?thesis using u s by simp
  next
    case False
    then have "(uint v + 2 ^ 31) mod 2 ^ 32 = uint v + 2 ^ 31 - 2 ^ 32"
      using u by (simp add: mod_pos_geq)
    then show ?thesis using False s by simp
  qed
qed

lemma abs32_unat: "unat (abs32 v) = nat (abs (sint v))"
proof (cases "uint v < 2 ^ 31")
  case True
  then have "sint v = uint v" by (simp add: sint32)
  moreover have "0 \<le> uint v" by simp
  ultimately have "\<not> sint v < 0" "abs (sint v) = uint v" by linarith+
  then show ?thesis by (simp add: abs32_def)
next
  case False
  have u: "uint v < 2 ^ 32" using uint_lt2p [of v] by simp
  from False have s: "sint v = uint v - 2 ^ 32" by (simp add: sint32)
  have "v \<noteq> 0" using False by auto
  then have n: "uint (- v) = 2 ^ 32 - uint v" by (rule neg_uint)
  have "sint v < 0" "abs (sint v) = 2 ^ 32 - uint v" using s u by linarith+
  then show ?thesis using arg_cong [OF n, of nat] by (simp add: abs32_def)
qed

text \<open>The recursive call passes the quotient as an \<open>int\<close>; it is not negative.\<close>

lemma quotient_nonneg: "\<not> sint ((w :: uint32) div 10) < 0"
proof -
  have "unat (w div 10) < 2 ^ 31" using unat32_lt [of w] by (simp add: unat_div)
  then have "uint (w div 10) < 2 ^ 31" by (metis nat_less_numeral_power_cancel_iff nat_uint_eq)
  then show ?thesis by (simp add: sint32)
qed

lemma abs_quotient: "unat (abs32 (w div 10)) = unat w div 10"
  using quotient_nonneg [of w] by (simp add: abs32_def unat_div)

text \<open>\<^verbatim>\<open>-(long)value\<close>: C defines the negation when a \<open>long\<close> of \<open>l\<close> bits represents the result, and
  the cast to \<open>unsigned int\<close> takes it modulo \<open>2 ^ 32\<close>.\<close>

definition neg_long :: "nat \<Rightarrow> int \<Rightarrow> fault + int" where
  "neg_long l i = (if - (2 ^ (l - 1)) \<le> - i \<and> - i < 2 ^ (l - 1) then Inr (- i) else Inl Undefined)"

definition dec_abs :: "nat \<Rightarrow> uint32 \<Rightarrow> fault + uint32" where
  "dec_abs l value = bind_res (neg_long l (sint value)) (\<lambda>i. Inr (word_of_int i))"

lemma dec_abs_Inr: "dec_abs l value = Inr a \<Longrightarrow> a = - value"
proof -
  have "(word_of_int (- sint value) :: uint32) = - value" by (simp flip: wi_hom_neg)
  then show "dec_abs l value = Inr a \<Longrightarrow> a = - value" by (auto simp: dec_abs_def neg_long_def split: if_splits)
qed

lemma bind_res_cong [fundef_cong]:
  "m = m' \<Longrightarrow> (\<And>x. m' = Inr x \<Longrightarrow> f x = g x) \<Longrightarrow> bind_res m f = bind_res m' g"
  by (cases m') simp_all

text \<open>The routine where \<open>int\<close> has 32 bits and \<open>long\<close> has \<open>l\<close>: 32 on the target, 64 on the host that
  runs the tests.\<close>

function emit_dec_signed_at :: "nat \<Rightarrow> 's putc \<Rightarrow> uint32 \<Rightarrow> 's \<Rightarrow> fault + 's" where
  "emit_dec_signed_at l pc value s =
     bind_res (if sint value < 0
               then bind_res (pc 45 s) (\<lambda>s. bind_res (dec_abs l value) (\<lambda>absv. Inr (absv, s)))
               else Inr (value, s))
       (\<lambda>(absv, s). bind_res (if absv \<ge> 10 then emit_dec_signed_at l pc (absv div 10) s else Inr s)
              (pc (48 + ucast (absv mod 10))))"
  by pat_completeness auto
termination
proof (relation "measure (\<lambda>(l, pc, v, s). unat (abs32 v))", goal_cases)
  case (2 l pc v s p absv s')
  have "absv = abs32 v"
  proof (cases "sint v < 0")
    case True
    with 2(1,2) show ?thesis by (cases "pc 45 s") (auto simp: abs32_def bind_res_Inr dest!: dec_abs_Inr)
  next
    case False
    with 2(1,2) show ?thesis by (auto simp: abs32_def)
  qed
  with 2(3) show ?case by (simp add: word_le_nat_alt abs_quotient)
qed simp

definition emit_dec_signed :: "'s putc \<Rightarrow> uint32 \<Rightarrow> 's \<Rightarrow> fault + 's" where
  "emit_dec_signed = emit_dec_signed_at 32"

declare emit_dec_unsigned.simps [simp del] emit_hex_lower.simps [simp del] emit_dec_signed_at.simps [simp del]

text \<open>\<open>va_arg(args, int)\<close> and \<open>va_arg(args, const char * )\<close>.\<close>

fun va_int :: "va_arg list \<Rightarrow> fault + (uint32 \<times> va_arg list)" where
  "va_int (VInt v # args) = Inr (v, args)"
| "va_int args = Inl Undefined"

fun va_str :: "va_arg list \<Rightarrow> fault + (uint8 list option \<times> va_arg list)" where
  "va_str (VStr p # args) = Inr (p, args)"
| "va_str args = Inl Undefined"

definition null_str :: "uint8 list" where
  "null_str = map of_char ''(null)''"

text \<open>One conversion: the character after the \<open>%\<close>, which the caller has checked to be there.\<close>

definition conversion :: "'s putc \<Rightarrow> uint8 \<Rightarrow> va_arg list \<Rightarrow> 's \<Rightarrow> fault + (va_arg list \<times> 's)" where
  "conversion pc f args s =
     (let int_conv = (\<lambda>emit. bind_res (va_int args) (\<lambda>(v, args). bind_res (emit v s) (\<lambda>s. Inr (args, s))))
      in if f = of_char CHR ''c'' then int_conv (\<lambda>v. pc (ucast v))
         else if f = of_char CHR ''d'' then int_conv (emit_dec_signed pc)
         else if f = of_char CHR ''u'' then int_conv (emit_dec_unsigned pc)
         else if f = of_char CHR ''x'' then int_conv (emit_hex_lower pc)
         else if f = of_char CHR ''s''
         then bind_res (va_str args) (\<lambda>(p, args).
                bind_res (emit_str pc (case p of None \<Rightarrow> null_str | Some str \<Rightarrow> str) s) (\<lambda>s. Inr (args, s)))
         else if f = of_char CHR ''%'' then bind_res (pc (of_char CHR ''%'') s) (\<lambda>s. Inr (args, s))
         else bind_res (pc (of_char CHR ''%'') s) (\<lambda>s. bind_res (pc f s) (\<lambda>s. Inr (args, s))))"

fun printf_from :: "'s putc \<Rightarrow> uint8 list \<Rightarrow> va_arg list \<Rightarrow> 's \<Rightarrow> fault + 's" where
  "printf_from pc [] args s = Inr s"
| "printf_from pc (c # cs) args s =
     (if c \<noteq> of_char CHR ''%'' then bind_res (pc c s) (printf_from pc cs args)
      else (case cs of [] \<Rightarrow> Inr s
            | f # fs \<Rightarrow> bind_res (conversion pc f args s) (\<lambda>(args, s). printf_from pc fs args s)))"

definition rt_printf :: "'s putc \<Rightarrow> uint8 list \<Rightarrow> va_arg list \<Rightarrow> 's \<Rightarrow> fault + (uint32 \<times> 's)" where
  "rt_printf pc fmt args s = bind_res (printf_from pc fmt args s) (\<lambda>s. Inr (0, s))"

subsection \<open>The rendered text\<close>

text \<open>Digits of a number in a base, most significant first, and the number they denote.\<close>

fun digits :: "nat \<Rightarrow> nat \<Rightarrow> nat list" where
  "digits b n = (if b < 2 \<or> n < b then [n] else digits b (n div b) @ [n mod b])"

declare digits.simps [simp del]

definition denotes :: "nat \<Rightarrow> nat list \<Rightarrow> nat" where
  "denotes b ds = foldl (\<lambda>a d. a * b + d) 0 ds"

lemma digits_denote: "denotes b (digits b n) = n"
proof (induction b n rule: digits.induct)
  case (1 b n)
  then show ?case
    by (auto simp: digits.simps [of b n] denotes_def)
qed

lemma digits_bound: "1 < b \<Longrightarrow> d \<in> set (digits b n) \<Longrightarrow> d < b"
proof (induction b n rule: digits.induct)
  case (1 b n)
  then show ?case by (auto simp: digits.simps [of b n] split: if_splits)
qed

lemma digits_lead: "1 < b \<Longrightarrow> digits b n \<noteq> [] \<and> (hd (digits b n) = 0 \<longrightarrow> n = 0)"
proof (induction b n rule: digits.induct)
  case (1 b n)
  then show ?case
    by (auto simp: digits.simps [of b n] div_eq_0_iff hd_append)
qed

definition ascii_digit :: "nat \<Rightarrow> uint8" where
  "ascii_digit d = (if d < 10 then 48 + of_nat d else 87 + of_nat d)"

definition dec_text :: "nat \<Rightarrow> uint8 list" where "dec_text n = map ascii_digit (digits 10 n)"
definition hex_text :: "nat \<Rightarrow> uint8 list" where "hex_text n = map ascii_digit (digits 16 n)"
definition sdec_text :: "int \<Rightarrow> uint8 list" where
  "sdec_text i = (if i < 0 then [45] else []) @ dec_text (nat (abs i))"

text \<open>The rendering of a format with its arguments; \<open>None\<close> where C leaves the call undefined.\<close>

definition render_conv :: "uint8 \<Rightarrow> va_arg list \<Rightarrow> (uint8 list \<times> va_arg list) option" where
  "render_conv f args =
     (if f \<in> {of_char CHR ''c'', of_char CHR ''d'', of_char CHR ''u'', of_char CHR ''x''}
      then (case args of VInt v # as \<Rightarrow>
              if f = of_char CHR ''c'' then Some ([ucast v], as)
              else if f = of_char CHR ''d'' then (if v = 0x80000000 then None else Some (sdec_text (sint v), as))
              else if f = of_char CHR ''u'' then Some (dec_text (unat v), as)
              else Some (hex_text (unat v), as)
            | _ \<Rightarrow> None)
      else if f = of_char CHR ''s''
      then (case args of VStr p # as \<Rightarrow> Some (case p of None \<Rightarrow> null_str | Some str \<Rightarrow> str, as) | _ \<Rightarrow> None)
      else if f = of_char CHR ''%'' then Some ([f], args)
      else Some ([of_char CHR ''%'', f], args))"

fun render :: "uint8 list \<Rightarrow> va_arg list \<Rightarrow> uint8 list option" where
  "render [] args = Some []"
| "render (c # cs) args =
     (if c \<noteq> of_char CHR ''%'' then map_option ((#) c) (render cs args)
      else (case cs of [] \<Rightarrow> Some []
            | f # fs \<Rightarrow> (case render_conv f args of None \<Rightarrow> None
                | Some (bs, args) \<Rightarrow> map_option ((@) bs) (render fs args))))"

subsection \<open>Every routine is the emission of a text\<close>

lemma digit_char: "48 + ucast (v mod 10 :: uint32) = ascii_digit (unat v mod 10)"
proof -
  have "(ucast (v mod 10) :: uint8) = of_nat (unat (v mod 10))" by (rule of_nat_unat [symmetric])
  then show ?thesis by (simp only: ascii_digit_def unat_mod) simp
qed

lemma nibble_unat: "unat ((v :: uint32) AND 0xF) = unat v mod 16"
proof -
  have f: "(0xF :: uint32) = mask 4" by (simp add: mask_eq_exp_minus_1)
  show ?thesis unfolding f take_bit_eq_mask [symmetric] unsigned_take_bit_eq by (simp add: take_bit_eq_mod)
qed

lemma nibble_char:
  fixes v :: uint32
  shows "(if (v AND 0xF) < 10 then 48 + ucast (v AND 0xF) else 97 + ucast ((v AND 0xF) - 10)) =
    ascii_digit (unat v mod 16)"
proof -
  let ?x = "v AND 0xF"
  have u: "(ucast w :: uint8) = of_nat (unat w)" for w :: uint32 by (rule of_nat_unat [symmetric])
  show ?thesis
  proof (cases "?x < 10")
    case True
    moreover from this have "unat v mod 16 < 10" by (simp add: word_less_nat_alt nibble_unat)
    ultimately show ?thesis by (simp only: if_True u nibble_unat ascii_digit_def)
  next
    case False
    then have ge: "10 \<le> unat ?x" by (simp add: word_less_nat_alt)
    then have "unat (?x - 10) = unat ?x - 10" by (simp add: unat_sub word_le_nat_alt)
    moreover have "(of_nat (unat ?x) :: uint8) = of_nat (unat ?x - 10) + 10"
      using ge by (metis le_add_diff_inverse2 of_nat_add of_nat_numeral)
    ultimately have "97 + (ucast (?x - 10) :: uint8) = 87 + of_nat (unat ?x)"
      by (simp only: u) simp
    moreover have "\<not> unat v mod 16 < 10" using ge by (simp only: nibble_unat not_less)
    ultimately show ?thesis using False by (simp only: if_False nibble_unat ascii_digit_def)
  qed
qed

lemma emit_append: "emit_str pc (bs @ cs) s = bind_res (emit_str pc bs s) (emit_str pc cs)"
proof (induction bs arbitrary: s)
  case (Cons b bs)
  then show ?case by (cases "pc b s") simp_all
qed simp

lemma emit_one: "emit_str pc [c] s = pc c s"
  by (cases "pc c s") simp_all

text \<open>A routine that does the same as writing the given bytes one by one, whatever the output
  symbol is and does.\<close>

definition prints :: "'s putc \<Rightarrow> ('s \<Rightarrow> fault + 's) \<Rightarrow> uint8 list \<Rightarrow> bool" where
  "prints pc f bs \<longleftrightarrow> (\<forall>s. f s = emit_str pc bs s)"

lemma prints_one: "prints pc (pc c) [c]"
  by (simp only: prints_def emit_one simp_thms)

lemma prints_then: "prints pc f bs \<Longrightarrow> prints pc g cs \<Longrightarrow> prints pc (\<lambda>s. bind_res (f s) g) (bs @ cs)"
proof -
  assume "prints pc f bs" "prints pc g cs"
  then have "f = emit_str pc bs" "g = emit_str pc cs" by (auto simp: prints_def)
  then show "prints pc (\<lambda>s. bind_res (f s) g) (bs @ cs)" by (simp add: prints_def emit_append)
qed

lemma prints_eq: "prints pc f bs \<Longrightarrow> (\<And>s. g s = f s) \<Longrightarrow> bs = cs \<Longrightarrow> prints pc g cs"
  by (simp add: prints_def)

lemma dec_unsigned_prints: "prints pc (emit_dec_unsigned pc v) (dec_text (unat v))"
proof (induction "unat v" arbitrary: v rule: less_induct)
  case less
  have d: "prints pc (pc (48 + ucast (v mod 10))) [ascii_digit (unat v mod 10)]"
    unfolding digit_char by (rule prints_one)
  show ?case
  proof (cases "v \<ge> 10")
    case True
    then have "prints pc (emit_dec_unsigned pc (v div 10)) (dec_text (unat (v div 10)))"
      using less word_div_less by blast
    then show ?thesis
      by (rule prints_eq [OF prints_then [OF _ d]])
        (use True in \<open>simp_all add: emit_dec_unsigned.simps [of pc v] dec_text_def digits.simps [of 10 "unat v"]
          unat_div word_le_nat_alt\<close>)
  next
    case False
    then show ?thesis
      by (intro prints_eq [OF d])
        (simp_all add: emit_dec_unsigned.simps [of pc v] dec_text_def digits.simps [of 10 "unat v"] word_le_nat_alt)
  qed
qed

lemma hex_lower_prints: "prints pc (emit_hex_lower pc v) (hex_text (unat v))"
proof (induction "unat v" arbitrary: v rule: less_induct)
  case less
  let ?n = "v AND 0xF"
  have d: "prints pc (pc (if ?n < 10 then 48 + ucast ?n else 97 + ucast (?n - 10))) [ascii_digit (unat v mod 16)]"
    unfolding nibble_char by (rule prints_one)
  show ?case
  proof (cases "v \<ge> 16")
    case True
    then have "prints pc (emit_hex_lower pc (drop_bit 4 v)) (hex_text (unat (drop_bit 4 v)))"
      using less word_shift_less by blast
    then show ?thesis
      by (rule prints_eq [OF prints_then [OF _ d]])
        (use True in \<open>simp_all add: emit_hex_lower.simps [of pc v] hex_text_def digits.simps [of 16 "unat v"]
          drop_bit_eq_div unat_div word_le_nat_alt Let_def\<close>)
  next
    case False
    then show ?thesis
      by (intro prints_eq [OF d])
        (simp_all add: emit_hex_lower.simps [of pc v] hex_text_def digits.simps [of 16 "unat v"] word_le_nat_alt Let_def)
  qed
qed

lemma dec_signed_nonneg: "sint v \<ge> 0 \<Longrightarrow> prints pc (emit_dec_signed_at l pc v) (dec_text (unat v))"
proof (induction "unat v" arbitrary: v rule: less_induct)
  case less
  have d: "prints pc (pc (48 + ucast (v mod 10))) [ascii_digit (unat v mod 10)]"
    unfolding digit_char by (rule prints_one)
  show ?case
  proof (cases "v \<ge> 10")
    case True
    have "prints pc (emit_dec_signed_at l pc (v div 10)) (dec_text (unat (v div 10)))"
      using less(1) [of "v div 10"] word_div_less [OF True] quotient_nonneg [of v] by simp
    then show ?thesis
      by (rule prints_eq [OF prints_then [OF _ d]])
        (use True less(2) in \<open>simp_all add: emit_dec_signed_at.simps [of l pc v] dec_text_def
          digits.simps [of 10 "unat v"] unat_div word_le_nat_alt\<close>)
  next
    case False
    then show ?thesis
      by (intro prints_eq [OF d])
        (use less(2) in \<open>simp_all add: emit_dec_signed_at.simps [of l pc v] dec_text_def
          digits.simps [of 10 "unat v"] word_le_nat_alt\<close>)
  qed
qed

text \<open>The digits of a negative number, once its negation has a value: those of the absolute value,
  whose top bit is set only for the smallest number.\<close>

lemma neg_long_ok:
  assumes "32 \<le> l" "l = 32 \<longrightarrow> v \<noteq> 0x80000000" "sint (v :: uint32) < 0"
  shows "dec_abs l v = Inr (- v)"
proof -
  have s: "sint v = uint v - 2 ^ 32" "2 ^ 31 \<le> uint v" using assms(3) by (simp_all add: sint32 split: if_splits)
  have m: "v = 0x80000000" if "sint v = - (2 ^ 31)"
    by (rule unsigned_word_eqI) (use s(1) that in simp)
  have "- sint v < 2 ^ (l - 1)"
  proof (cases "l = 32")
    case True
    then have "sint v \<noteq> - (2 ^ 31)" using assms(2) m by blast
    with s True show ?thesis by simp
  next
    case False
    then have "(2 :: int) ^ 32 \<le> 2 ^ (l - 1)" using assms(1) by (intro power_increasing) simp_all
    with s show ?thesis by simp
  qed
  moreover have "- (2 ^ (l - 1)) \<le> - sint v" using assms(3) by (meson less_imp_le neg_le_0_iff_le order_trans zero_le_numeral zero_le_power neg_0_le_iff_le)
  ultimately have "neg_long l (sint v) = Inr (- sint v)" by (simp add: neg_long_def)
  moreover have "(word_of_int (- sint v) :: uint32) = - v" by (simp flip: wi_hom_neg)
  ultimately show ?thesis by (simp add: dec_abs_def)
qed

text \<open>One level of digits: the quotient that is passed on is never negative.\<close>

lemma dec_digits_print:
  "prints pc (\<lambda>s. bind_res (if a \<ge> 10 then emit_dec_signed_at l pc (a div 10) s else Inr s)
     (pc (48 + ucast (a mod 10)))) (dec_text (unat a))"
proof -
  have d: "prints pc (pc (48 + ucast (a mod 10))) [ascii_digit (unat a mod 10)]"
    unfolding digit_char by (rule prints_one)
  show ?thesis
  proof (cases "a \<ge> 10")
    case True
    have "prints pc (emit_dec_signed_at l pc (a div 10)) (dec_text (unat (a div 10)))"
      using dec_signed_nonneg [of "a div 10"] quotient_nonneg [of a] by simp
    then show ?thesis
      by (rule prints_eq [OF prints_then [OF _ d]])
        (use True in \<open>simp_all add: dec_text_def digits.simps [of 10 "unat a"] unat_div word_le_nat_alt\<close>)
  next
    case False
    then show ?thesis
      by (intro prints_eq [OF d]) (simp_all add: dec_text_def digits.simps [of 10 "unat a"] word_le_nat_alt)
  qed
qed

lemma dec_signed_at_prints:
  assumes "32 \<le> l" "l = 32 \<longrightarrow> v \<noteq> 0x80000000"
  shows "prints pc (emit_dec_signed_at l pc v) (sdec_text (sint v))"
proof (cases "sint v < 0")
  case False
  then have "unat v = nat (abs (sint v))" using abs32_unat [of v] by (simp add: abs32_def)
  then show ?thesis using False dec_signed_nonneg [of v] by (simp add: sdec_text_def)
next
  case True
  let ?g = "\<lambda>s. bind_res (if - v \<ge> 10 then emit_dec_signed_at l pc (- v div 10) s else Inr s) (pc (48 + ucast (- v mod 10)))"
  have "emit_dec_signed_at l pc v s = bind_res (pc 45 s) ?g" for s
    using True neg_long_ok [OF assms True] by (cases "pc 45 s") (simp_all add: emit_dec_signed_at.simps [of l pc v])
  moreover have "sdec_text (sint v) = [45] @ dec_text (unat (- v))"
    using True abs32_unat [of v] by (simp add: sdec_text_def abs32_def)
  ultimately show ?thesis
    using prints_eq [OF prints_then [OF prints_one dec_digits_print [of pc "- v" l]], where g = "emit_dec_signed_at l pc v"]
    by simp
qed

lemma dec_signed_prints: "v \<noteq> 0x80000000 \<Longrightarrow> prints pc (emit_dec_signed pc v) (sdec_text (sint v))"
  unfolding emit_dec_signed_def by (rule dec_signed_at_prints) simp_all

text \<open>With a 32-bit \<open>long\<close> the smallest \<open>int\<close> always ends in an error: the sign is written, then the
  negation is undefined.\<close>

lemma dec_signed_min: "emit_dec_signed pc 0x80000000 s = bind_res (pc 45 s) (\<lambda>_. Inl Undefined)"
proof -
  have "dec_abs 32 0x80000000 = Inl Undefined" by (simp add: dec_abs_def neg_long_def sint32)
  then show ?thesis unfolding emit_dec_signed_def
    by (cases "pc 45 s") (simp_all add: emit_dec_signed_at.simps [of 32 pc "0x80000000"] sint32)
qed

lemma bind_undefined: "\<exists>e. bind_res (bind_res m (\<lambda>_. Inl Undefined)) f = Inl e"
  by (cases m) simp_all

lemma bind_assoc: "bind_res (bind_res m f) g = bind_res m (\<lambda>x. bind_res (f x) g)"
  by (cases m) simp_all

lemma printsD: "prints pc f bs \<Longrightarrow> f s = emit_str pc bs s"
  by (simp add: prints_def)

lemma conversion_prints:
  assumes "render_conv f args = Some (bs, args')"
  shows "conversion pc f args s = bind_res (emit_str pc bs s) (\<lambda>s. Inr (args', s))"
proof -
  have two: "emit_str pc [x, y] s = bind_res (pc x s) (pc y)" for x y
  proof -
    have "emit_str pc [y] = pc y" by (rule ext) (rule emit_one)
    then show ?thesis using emit_append [of pc "[x]" "[y]" s] by (simp only: emit_one append.simps)
  qed
  show ?thesis
    using assms
    by (auto simp: render_conv_def conversion_def printsD [OF dec_unsigned_prints] printsD [OF hex_lower_prints]
        printsD [OF dec_signed_prints] emit_one two bind_assoc simp del: emit_str.simps
        split: if_splits list.splits va_arg.splits)
qed

lemma conversion_undefined:
  assumes "render_conv f args = None"
  shows "\<exists>e. conversion pc f args s = Inl e"
  using assms dec_signed_min [of pc s] bind_undefined [of "pc 45 s"]
  by (auto simp: render_conv_def conversion_def split: if_splits list.splits va_arg.splits)

text \<open>\<open>printf\<close> is the emission of its rendering, and ends in an error where C leaves it undefined.\<close>

lemma printf_from_prints:
  "case render fmt args of Some bs \<Rightarrow> printf_from pc fmt args s = emit_str pc bs s
   | None \<Rightarrow> \<exists>e. printf_from pc fmt args s = Inl e"
proof (induction fmt args arbitrary: s rule: render.induct)
  case (2 c cs args)
  show ?case
  proof (cases "c \<noteq> of_char CHR ''%''")
    case True
    with 2(1) [OF True] show ?thesis by (cases "pc c s") (auto split: option.splits)
  next
    case False
    show ?thesis
    proof (cases cs)
      case Nil
      with False show ?thesis by simp
    next
      case (Cons f fs)
      show ?thesis
      proof (cases "render_conv f args")
        case None
        with False Cons conversion_undefined [OF None, of pc s] show ?thesis by auto
      next
        case (Some x)
        obtain b1 args1 where x: "x = (b1, args1)" by (cases x)
        have ih: "case render fs args1 of Some bs \<Rightarrow> printf_from pc fs args1 s = emit_str pc bs s
            | None \<Rightarrow> \<exists>e. printf_from pc fs args1 s = Inl e" for s
          by (rule 2(2) [OF _ Cons Some]) (use False x in simp_all)
        show ?thesis
          using False Cons Some x ih conversion_prints [OF Some [unfolded x], of pc s]
          by (cases "emit_str pc b1 s") (auto simp: emit_append split: option.splits)
      qed
    qed
  qed
qed simp

lemma printf_from_rendered: "printf_from pc fmt args s = Inr s' \<Longrightarrow> \<exists>bs. render fmt args = Some bs \<and> emit_str pc bs s = Inr s'"
  using printf_from_prints [where fmt = fmt and args = args and pc = pc and s = s] by (auto split: option.splits)

subsection \<open>Output through a port that accepts every byte\<close>

locale putc_port =
  fixes pc :: "'s putc"
    and ok :: "'s \<Rightarrow> bool"
    and written :: "'s \<Rightarrow> uint8 list"
  assumes port: "ok s \<Longrightarrow> \<exists>s'. pc c s = Inr s' \<and> ok s' \<and> written s' = written s @ [c]"
begin

text \<open>A routine that writes exactly the given bytes.\<close>

definition emits :: "('s \<Rightarrow> fault + 's) \<Rightarrow> uint8 list \<Rightarrow> bool" where
  "emits f bs \<longleftrightarrow> (\<forall>s. ok s \<longrightarrow> (\<exists>s'. f s = Inr s' \<and> ok s' \<and> written s' = written s @ bs))"

lemma emit_str_written: "ok s \<Longrightarrow> \<exists>s'. emit_str pc bs s = Inr s' \<and> ok s' \<and> written s' = written s @ bs"
proof (induction bs arbitrary: s)
  case (Cons b bs)
  then obtain s1 where "pc b s = Inr s1" "ok s1" "written s1 = written s @ [b]" using port by blast
  with Cons.IH [of s1] show ?case by auto
qed simp

lemma prints_emits: "prints pc f bs \<Longrightarrow> emits f bs"
  using emit_str_written by (simp add: prints_def emits_def)

lemmas emit_dec_unsigned_emits = prints_emits [OF dec_unsigned_prints]
lemmas emit_hex_lower_emits = prints_emits [OF hex_lower_prints]
lemmas emit_dec_signed_emits = prints_emits [OF dec_signed_prints]

lemma rt_printf_emits:
  "render fmt args = Some bs \<Longrightarrow> ok s \<Longrightarrow>
   \<exists>s'. rt_printf pc fmt args s = Inr (0, s') \<and> ok s' \<and> written s' = written s @ bs"
  using printf_from_prints [where fmt = fmt and args = args and pc = pc and s = s] emit_str_written [of s bs] by (auto simp: rt_printf_def)

lemma rt_puts_emits: "ok s \<Longrightarrow> \<exists>s'. rt_puts pc str s = Inr (0, s') \<and> ok s' \<and> written s' = written s @ str @ [10]"
proof -
  assume s: "ok s"
  obtain s1 where s1: "emit_str pc str s = Inr s1" "ok s1" "written s1 = written s @ str"
    using emit_str_written [OF s] by blast
  obtain s2 where "pc 10 s1 = Inr s2" "ok s2" "written s2 = written s1 @ [10]" using port [OF s1(2)] by blast
  with s1 show ?thesis by (simp add: rt_puts_def)
qed

end

subsection \<open>What the output symbol keeps\<close>

text \<open>A property of the state that one call of the output symbol keeps is kept by every routine.\<close>

locale putc_frame =
  fixes pc :: "'s putc" and kept :: "'s \<Rightarrow> bool"
  assumes keeps: "kept s \<Longrightarrow> pc c s = Inr s' \<Longrightarrow> kept s'"
begin

lemma emit_str_keeps: "emit_str pc cs s = Inr s' \<Longrightarrow> kept s \<Longrightarrow> kept s'"
  by (induction cs arbitrary: s) (auto simp: res_simps dest: keeps)

lemma rt_printf_keeps: "rt_printf pc fmt args s = Inr (r, s') \<Longrightarrow> kept s \<Longrightarrow> kept s'"
  by (auto simp: rt_printf_def res_simps dest!: printf_from_rendered intro: emit_str_keeps)

end

end
