(* ===== verification/RtMock.thy ===== *)
theory RtMock
  imports RtMalloc RtStdio
begin

text \<open>
  The host-side stand-in for the hardware layer used by the runtime's unit tests
  (\<open>runtime/host_tests/mock_hal.c\<close>): the capture buffer, the receive ring, and the reset of the
  bump allocator.  The arrays have the length of their C declarations; an index outside is a
  fault.  The reset loop counts to 64 KB, so its counter is the same at 32 and at 64 bits; the
  allocator is the one of \<open>RtMalloc\<close>, at the width of the target.
\<close>

definition MOCK_UART_CAP :: nat where "MOCK_UART_CAP = 4096"
definition MOCK_RX_CAP :: nat where "MOCK_RX_CAP = 256"
definition MOCK_HEAP_BYTES :: uint32 where "MOCK_HEAP_BYTES = 64 * 1024"

record mock_hal =
  mock_uart_buf :: "uint8 list"
  mock_uart_pos :: nat
  mock_rx_buf :: "uint8 list"
  mock_rx_head :: nat
  mock_rx_tail :: nat

definition mock0 :: mock_hal where
  "mock0 = \<lparr>mock_uart_buf = replicate MOCK_UART_CAP 0, mock_uart_pos = 0,
            mock_rx_buf = replicate MOCK_RX_CAP 0, mock_rx_head = 0, mock_rx_tail = 0\<rparr>"

definition mock_uart_putc :: "mock_hal putc" where
  "mock_uart_putc c m =
     (if mock_uart_pos m < MOCK_UART_CAP - 1
      then if mock_uart_pos m < length (mock_uart_buf m)
           then Inr (m\<lparr>mock_uart_buf := (mock_uart_buf m)[mock_uart_pos m := c],
                      mock_uart_pos := mock_uart_pos m + 1\<rparr>)
           else Inl OutOfBounds
      else Inr m)"

definition mock_uart_status :: "mock_hal \<Rightarrow> uint32" where
  "mock_uart_status m = 0"

definition mock_try_getc :: "mock_hal \<Rightarrow> fault + (int \<times> mock_hal)" where
  "mock_try_getc m =
     (if mock_rx_head m = mock_rx_tail m then Inr (- 1, m)
      else if mock_rx_head m < length (mock_rx_buf m)
      then let b = mock_rx_buf m ! mock_rx_head m;
               m = m\<lparr>mock_rx_head := (mock_rx_head m + 1) mod MOCK_RX_CAP\<rparr>
           in Inr (uint b, m)
      else Inl OutOfBounds)"

definition mock_getc :: "mock_hal \<Rightarrow> fault + (int \<times> mock_hal)" where
  \<comment> \<open>an empty queue aborts\<close>
  "mock_getc m = bind_res (mock_try_getc m) (\<lambda>(c, m). if c < 0 then Inl Panic else Inr (c, m))"

text \<open>The captured text as the C string the tests compare: terminated at the position.\<close>

definition mock_uart_get :: "mock_hal \<Rightarrow> fault + (uint8 list \<times> mock_hal)" where
  "mock_uart_get m =
     (if mock_uart_pos m < length (mock_uart_buf m)
      then let m = m\<lparr>mock_uart_buf := (mock_uart_buf m)[mock_uart_pos m := 0]\<rparr>
           in Inr (takeWhile (\<lambda>c. c \<noteq> 0) (mock_uart_buf m), m)
      else Inl OutOfBounds)"

definition mock_uart_len :: "mock_hal \<Rightarrow> nat" where
  "mock_uart_len m = mock_uart_pos m"

definition mock_uart_reset :: "mock_hal \<Rightarrow> mock_hal" where
  "mock_uart_reset m = m\<lparr>mock_uart_pos := 0\<rparr>"

definition mock_heap_size :: uint32 where
  "mock_heap_size = MOCK_HEAP_BYTES"

text \<open>\<open>halt\<close> and \<open>terminate\<close> leave through the host's \<open>exit\<close>.\<close>

definition mock_halt :: "uint32 \<Rightarrow> fault + 'a" where
  "mock_halt code = Inl (Halt code)"

definition mock_terminate :: "uint32 \<Rightarrow> fault + 'a" where
  "mock_terminate code = mock_halt code"

function mock_heap_reset_from :: "addr_t \<Rightarrow> uint32 \<Rightarrow> heap_state \<Rightarrow> heap_state" where
  "mock_heap_reset_from sheap i h =
     (if i < MOCK_HEAP_BYTES then mock_heap_reset_from sheap (i + 4) (rt_free sheap 0 h) else h)"
  by pat_completeness auto
termination
proof (relation "measure (\<lambda>(sheap, i, h). unat MOCK_HEAP_BYTES - unat i)", simp)
  fix sheap i :: uint32 and h
  assume "i < MOCK_HEAP_BYTES"
  then have "unat i < 65536" by (simp add: MOCK_HEAP_BYTES_def word_less_nat_alt)
  then show "((sheap, i + 4, rt_free sheap 0 h), sheap, i, h)
      \<in> measure (\<lambda>(sheap, i, h). unat MOCK_HEAP_BYTES - unat i)"
    by (simp add: MOCK_HEAP_BYTES_def unat_word_ariths)
qed

declare mock_heap_reset_from.simps [simp del]

definition mock_heap_reset :: "addr_t \<Rightarrow> heap_state \<Rightarrow> heap_state" where
  "mock_heap_reset sheap h = mock_heap_reset_from sheap 0 h"

subsection \<open>Capture\<close>

definition mock_ok :: "mock_hal \<Rightarrow> bool" where
  "mock_ok m \<longleftrightarrow> length (mock_uart_buf m) = MOCK_UART_CAP \<and> mock_uart_pos m < MOCK_UART_CAP"

definition captured :: "mock_hal \<Rightarrow> uint8 list" where
  "captured m = take (mock_uart_pos m) (mock_uart_buf m)"

lemma mock_putc_captures:
  assumes "mock_ok m"
  shows "\<exists>m'. mock_uart_putc c m = Inr m' \<and> mock_ok m' \<and>
    captured m' = take (MOCK_UART_CAP - 1) (captured m @ [c])"
proof (cases "mock_uart_pos m < 4095")
  case True
  with assms show ?thesis
    by (auto simp: mock_uart_putc_def mock_ok_def captured_def MOCK_UART_CAP_def take_Suc_conv_app_nth)
next
  case False
  with assms have "mock_uart_pos m = 4095" by (simp add: mock_ok_def MOCK_UART_CAP_def)
  with assms show ?thesis
    by (simp add: mock_uart_putc_def mock_ok_def captured_def MOCK_UART_CAP_def)
qed

lemma take_take_append: "take n (take n xs @ ys) = take n (xs @ ys)"
  by (cases "n \<le> length xs") auto

lemma mock_emit_captures:
  "mock_ok m \<Longrightarrow> \<exists>m'. emit_str mock_uart_putc bs m = Inr m' \<and> mock_ok m' \<and>
     captured m' = take (MOCK_UART_CAP - 1) (captured m @ bs)"
proof (induction bs arbitrary: m)
  case Nil
  then show ?case by (auto simp: captured_def mock_ok_def MOCK_UART_CAP_def)
next
  case (Cons c bs)
  obtain m1 where m1: "mock_uart_putc c m = Inr m1" "mock_ok m1"
      "captured m1 = take (MOCK_UART_CAP - 1) (captured m @ [c])"
    using mock_putc_captures [OF Cons.prems] by blast
  obtain m2 where "emit_str mock_uart_putc bs m1 = Inr m2" "mock_ok m2"
      "captured m2 = take (MOCK_UART_CAP - 1) (captured m1 @ bs)"
    using Cons.IH [OF m1(2)] by blast
  with m1 take_take_append [of "MOCK_UART_CAP - 1" "captured m @ [c]" bs] show ?case by simp
qed

subsection \<open>Resetting the allocator\<close>

lemma free_count: "unat (allocated_cnt (rt_free sheap p h)) = unat (allocated_cnt h) - 1"
  by (auto simp: rt_free_def Let_def word_neq_0_conv unat_minus_one)

lemma free_resets: "allocated_cnt (rt_free sheap p h) = 0 \<Longrightarrow> heap_ptr (rt_free sheap p h) = sheap"
  by (auto simp: rt_free_def Let_def)

lemma reset_from_count:
  assumes "unat i + 4 * n = 65536"
  shows "mock_heap_reset_from sheap i h = (rt_free sheap 0 ^^ n) h"
  using assms
proof (induction n arbitrary: i h)
  case 0
  then show ?case by (simp add: mock_heap_reset_from.simps [of sheap i h] MOCK_HEAP_BYTES_def word_less_nat_alt)
next
  case (Suc n)
  then have "i < MOCK_HEAP_BYTES" "unat (i + 4) + 4 * n = 65536"
    by (simp_all add: MOCK_HEAP_BYTES_def word_less_nat_alt unat_word_ariths)
  with Suc.IH [of "i + 4" "rt_free sheap 0 h"] show ?case
    by (simp add: mock_heap_reset_from.simps [of sheap i h] funpow_swap1)
qed

lemma frees_count: "unat (allocated_cnt ((rt_free sheap p ^^ n) h)) = unat (allocated_cnt h) - n"
  by (induction n) (simp_all add: free_count)

lemma heap_reset_spec:
  "heap_ptr (mock_heap_reset sheap h) = (if unat (allocated_cnt h) \<le> 16384 then sheap else heap_ptr h)"
proof -
  have r: "mock_heap_reset sheap h = (rt_free sheap 0 ^^ 16384) h"
    unfolding mock_heap_reset_def by (rule reset_from_count) simp
  show ?thesis
  proof (cases "unat (allocated_cnt h) \<le> 16384")
    case True
    have "unat (allocated_cnt ((rt_free sheap 0 ^^ Suc 16383) h)) = 0"
      using True by (simp only: frees_count)
    then have "allocated_cnt ((rt_free sheap 0 ^^ Suc 16383) h) = 0" by (metis unat_eq_0)
    then have "allocated_cnt (rt_free sheap 0 ((rt_free sheap 0 ^^ 16383) h)) = 0" by (simp only: funpow.simps o_apply)
    from free_resets [OF this] have "heap_ptr ((rt_free sheap 0 ^^ Suc 16383) h) = sheap"
      by (simp only: funpow.simps o_apply)
    moreover have "Suc 16383 = 16384" by simp
    ultimately show ?thesis using True r by (simp only: if_True)
  next
    case False
    have "n \<le> 16384 \<Longrightarrow> heap_ptr ((rt_free sheap 0 ^^ n) h) = heap_ptr h" for n
    proof (induction n)
      case (Suc n)
      have "unat (allocated_cnt ((rt_free sheap 0 ^^ Suc n) h)) \<noteq> 0"
        using False Suc.prems by (simp only: frees_count)
      then have "allocated_cnt ((rt_free sheap 0 ^^ Suc n) h) \<noteq> 0" by (metis unat_eq_0)
      then have "heap_ptr (rt_free sheap 0 ((rt_free sheap 0 ^^ n) h)) = heap_ptr ((rt_free sheap 0 ^^ n) h)"
        by (simp only: funpow.simps o_apply) (simp add: rt_free_def Let_def split: if_splits)
      with Suc show ?case by (simp only: funpow.simps o_apply)
    qed simp
    from this [of 16384] r False show ?thesis by (simp only: if_False order_refl)
  qed
qed

end
