(* ===== verification/RtHal.thy ===== *)
theory RtHal
  imports SocSystem RtStdio
begin

text \<open>
  The hardware layer of the target's runtime (\<open>runtime/src/hal\<close>) over the SoC's bus: the
  processor's word loads and stores, the UART routines and \<open>halt\<close>.  An access that does not
  answer \<open>OKAY\<close> traps the processor, which the sources do not handle: it is \<open>Panic\<close>.  The
  polling loop of \<open>uart_getc\<close> lets the hardware run between two polls (\<open>env\<close>), and need not
  end.  The output routine is an instance of \<open>putc_port\<close>, so every byte \<open>printf\<close> renders
  reaches the host's stream.
\<close>

definition mmio_lw :: "addr_t \<Rightarrow> store \<Rightarrow> fault + (uint32 \<times> store)" where
  "mmio_lw a s = bind_res (soc_read s a 4 (Some 0)) (\<lambda>(r, q, s).
     if r = AXI_RESP_OKAY then (case q of Some v \<Rightarrow> Inr (v, s) | None \<Rightarrow> Inl NullDeref) else Inl Panic)"

definition mmio_sw :: "addr_t \<Rightarrow> uint32 \<Rightarrow> store \<Rightarrow> fault + store" where
  "mmio_sw a v s = bind_res (soc_write s a 4 v 0xF) (\<lambda>(r, s).
     if r = AXI_RESP_OKAY then Inr s else Inl Panic)"

definition HAL_UART_TX_DATA :: addr_t where "HAL_UART_TX_DATA = 0x10001000"
definition HAL_UART_STATUS :: addr_t where "HAL_UART_STATUS = 0x10001004"
definition HAL_UART_RX_DATA :: addr_t where "HAL_UART_RX_DATA = 0x10001008"
definition UART_STATUS_RX_VALID :: uint32 where "UART_STATUS_RX_VALID = push_bit 1 1"

lemmas hal_consts = HAL_UART_TX_DATA_def HAL_UART_STATUS_def HAL_UART_RX_DATA_def UART_STATUS_RX_VALID_def

definition uart_putc :: "store putc" where
  "uart_putc c s = mmio_sw HAL_UART_TX_DATA (ucast c) s"

definition uart_status :: "store \<Rightarrow> fault + (uint32 \<times> store)" where
  "uart_status s = mmio_lw HAL_UART_STATUS s"

text \<open>The part shared by the two input routines: peek the byte, then pop it.\<close>

definition uart_take :: "store \<Rightarrow> fault + (int \<times> store)" where
  "uart_take s = bind_res (mmio_lw HAL_UART_RX_DATA s) (\<lambda>(v, s).
     let byte = (ucast (v AND 0xFF) :: uint8)
     in bind_res (mmio_sw HAL_UART_STATUS UART_STATUS_RX_VALID s) (\<lambda>s. Inr (uint byte, s)))"

definition uart_try_getc :: "store \<Rightarrow> fault + (int \<times> store)" where
  "uart_try_getc s = bind_res (mmio_lw HAL_UART_STATUS s) (\<lambda>(st, s).
     if st AND UART_STATUS_RX_VALID = 0 then Inr (- 1, s) else uart_take s)"

partial_function (option) uart_poll :: "(store \<Rightarrow> store) \<Rightarrow> store \<Rightarrow> (fault + store) option" where
  "uart_poll env s =
     (case mmio_lw HAL_UART_STATUS s of
        Inl e \<Rightarrow> Some (Inl e)
      | Inr x \<Rightarrow> if fst x AND UART_STATUS_RX_VALID = 0 then uart_poll env (env (snd x))
                 else Some (Inr (snd x)))"

definition uart_getc :: "(store \<Rightarrow> store) \<Rightarrow> store \<Rightarrow> (fault + (int \<times> store)) option" where
  "uart_getc env s = map_option (\<lambda>r. bind_res r uart_take) (uart_poll env s)"

definition rt_halt :: "uint32 \<Rightarrow> fault + 'a" where
  "rt_halt code = Inl (Halt code)"

definition rt_terminate :: "uint32 \<Rightarrow> fault + 'a" where
  "rt_terminate code = rt_halt code"

definition rt_exit :: "uint32 \<Rightarrow> fault + 'a" where
  "rt_exit code = rt_halt code"

text \<open>\<open>RUNTIME_ASSERT\<close>: the file name, line and condition are the arguments of the message.\<close>

definition assert_fmt :: "uint8 list" where
  "assert_fmt = map of_char (''ASSERT FAIL: %s:%d %s'' @ [CHR 0x0A])"

definition runtime_assert ::
  "'s putc \<Rightarrow> bool \<Rightarrow> uint8 list \<Rightarrow> uint32 \<Rightarrow> uint8 list \<Rightarrow> 's \<Rightarrow> fault + 's" where
  "runtime_assert pc cond file line text s =
     (if \<not> cond
      then bind_res (rt_printf pc assert_fmt [VStr (Some file), VInt line, VStr (Some text)] s) (\<lambda>_. rt_halt 1)
      else Inr s)"

subsection \<open>Loads and stores at the UART\<close>

lemma uart_unit:
  "find_unit soc_map 0x10001000 4 = Some \<lparr>u_base = 0x10001000, u_size = 12, u_device = Ref_UART\<rparr>"
  "find_unit soc_map 0x10001004 4 = Some \<lparr>u_base = 0x10001000, u_size = 12, u_device = Ref_UART\<rparr>"
  "find_unit soc_map 0x10001008 4 = Some \<lparr>u_base = 0x10001000, u_size = 12, u_device = Ref_UART\<rparr>"
  by (simp_all add: find_unit_def soc_map_def)

lemma lw_status:
  "memmap (fst s) = soc_map \<Longrightarrow> mmio_lw HAL_UART_STATUS s = Inr (if rx_valid (uart (fst s)) then 2 else 0, s)"
  by (cases s) (simp add: mmio_lw_def hal_consts soc_read_def MemoryMap_read_def uart_unit MmioDevice_read_def
      vtbl_defs lift_read_def lens_defs UART_MmioDevice_read_def uart_consts)

lemma lw_rx_data:
  "memmap (fst s) = soc_map \<Longrightarrow>
   mmio_lw HAL_UART_RX_DATA s = Inr (if rx_valid (uart (fst s)) then ucast (rx_byte (uart (fst s))) else 0, s)"
  by (cases s) (simp add: mmio_lw_def hal_consts soc_read_def MemoryMap_read_def uart_unit MmioDevice_read_def
      vtbl_defs lift_read_def lens_defs UART_MmioDevice_read_def uart_consts)

definition uart_popped :: "store \<Rightarrow> store" where
  "uart_popped s = ((fst s)\<lparr>uart := (uart (fst s))\<lparr>rx_valid := False, rx_byte := 0\<rparr>\<rparr>, snd s)"

lemma sw_pop:
  "memmap (fst s) = soc_map \<Longrightarrow> mmio_sw HAL_UART_STATUS UART_STATUS_RX_VALID s = Inr (uart_popped s)"
  by (cases s) (simp add: mmio_sw_def hal_consts soc_write_def MemoryMap_write_def uart_unit MmioDevice_write_def
      vtbl_defs lift_write_def lens_defs UART_MmioDevice_write_def uart_consts uart_popped_def)

lemma low_byte: "ucast (ucast (b :: uint8) AND 0xFF :: uint32) = b"
proof -
  have m: "(0xFF :: uint32) = mask 8" by (simp add: mask_eq_exp_minus_1)
  show ?thesis unfolding m by (rule bit_eqI) (auto simp: bit_simps)
qed

lemma take_valid:
  "memmap (fst s) = soc_map \<Longrightarrow> rx_valid (uart (fst s)) \<Longrightarrow>
   uart_take s = Inr (uint (rx_byte (uart (fst s))), uart_popped s)"
  by (simp add: uart_take_def lw_rx_data sw_pop low_byte)

lemma try_getc_eq:
  "memmap (fst s) = soc_map \<Longrightarrow>
   uart_try_getc s = Inr (if rx_valid (uart (fst s)) then (uint (rx_byte (uart (fst s))), uart_popped s) else (- 1, s))"
  by (simp add: uart_try_getc_def lw_status take_valid) (simp add: hal_consts)

lemma popped_rx: "rx_valid (uart (fst s)) \<Longrightarrow> rx_bytes s = rx_byte (uart (fst s)) # rx_bytes (uart_popped s)"
  by (simp add: rx_bytes_def rx_stream_def uart_popped_def)

lemma popped_sys_inv: "sys_inv s \<Longrightarrow> sys_inv (uart_popped s)"
  by (simp add: sys_inv_def soc_inv_def uart_popped_def uart_inv_def)

subsection \<open>Blocking input\<close>

text \<open>With the clock running between polls the loop ends as soon as the environment has a byte
  to give: every tick consumes one answer of the terminal.\<close>

lemma ticked_silent:
  assumes "sys_inv s" "\<not> rx_valid (uart (fst s))" "h_stdin (snd s) = None # bs"
  shows "\<not> rx_valid (uart (fst (ticked s))) \<and> h_stdin (snd (ticked s)) = bs"
  using assms
  by (auto simp: sys_inv_def ticked_def UART_Tickable_tick_def terminal_backend_try_read_def host_read1_def)

lemma ticked_sys_inv: "sys_inv s \<Longrightarrow> sys_inv (ticked s)"
  by (rule step_sys_inv [OF do_tick], rule soc_tick_ticked) (simp_all add: sys_inv_def)

lemma poll_ends:
  assumes "sys_inv s" "rx_bytes s \<noteq> []"
  shows "\<exists>s'. uart_poll ticked s = Some (Inr s') \<and> sys_inv s' \<and> rx_valid (uart (fst s')) \<and> rx_bytes s' = rx_bytes s"
  using assms
proof (induction "length (h_stdin (snd s))" arbitrary: s)
  case (0 s)
  then have "rx_valid (uart (fst s))"
    by (auto simp: rx_bytes_def rx_stream_def stdin_bytes_def List.map_filter_simps split: if_splits)
  moreover have "memmap (fst s) = soc_map" using 0 by (simp add: sys_inv_def soc_inv_def)
  ultimately have "uart_poll ticked s = Some (Inr s)"
    by (subst uart_poll.simps) (simp add: lw_status, simp add: hal_consts)
  with 0 \<open>rx_valid (uart (fst s))\<close> show ?case by blast
next
  case (Suc n s)
  have m: "memmap (fst s) = soc_map" using Suc.prems by (simp add: sys_inv_def soc_inv_def)
  show ?case
  proof (cases "rx_valid (uart (fst s))")
    case True
    then have "uart_poll ticked s = Some (Inr s)"
      using m by (subst uart_poll.simps) (simp add: lw_status, simp add: hal_consts)
    with Suc True show ?thesis by blast
  next
    case False
    then have again: "uart_poll ticked s = uart_poll ticked (ticked s)"
      using m by (subst uart_poll.simps) (simp add: lw_status)
    obtain x bs where x: "h_stdin (snd s) = x # bs" using Suc.hyps(2) by (cases "h_stdin (snd s)") auto
    have "n = length (h_stdin (snd (ticked s)))"
    proof (cases x)
      case None
      then show ?thesis using ticked_silent [OF Suc.prems(1) False] x Suc.hyps(2) by auto
    next
      case (Some b)
      then show ?thesis using ticked_receive [OF False, of b bs] x Suc.hyps(2) Suc.prems(1) by (auto simp: sys_inv_def)
    qed
    then show ?thesis
      using Suc.hyps(1) [of "ticked s"] ticked_sys_inv [OF Suc.prems(1)] Suc.prems(2) tick_rx [of s] again by simp
  qed
qed

lemma getc_returns:
  assumes "sys_inv s" "rx_bytes s = b # rest"
  shows "\<exists>s'. uart_getc ticked s = Some (Inr (uint b, s')) \<and> sys_inv s' \<and> rx_bytes s' = rest"
proof -
  obtain s1 where s1: "uart_poll ticked s = Some (Inr s1)" "sys_inv s1" "rx_valid (uart (fst s1))" "rx_bytes s1 = b # rest"
    using poll_ends [OF assms(1)] assms(2) by auto
  then have "memmap (fst s1) = soc_map" by (simp add: sys_inv_def soc_inv_def)
  with s1 take_valid popped_rx [OF s1(3)] popped_sys_inv [OF s1(2)] show ?thesis
    by (simp add: uart_getc_def)
qed

subsection \<open>Output\<close>

text \<open>The state of a SoC whose stream accepts every byte.\<close>

definition out_ok :: "stream \<Rightarrow> store \<Rightarrow> bool" where
  "out_ok f s \<longleftrightarrow> memmap (fst s) = soc_map \<and> h_putfail (snd s) = [] \<and>
     (case uart_out (uart (fst s)) of Some g \<Rightarrow> g | None \<Rightarrow> Stdout) = f"

lemma putc_eq:
  assumes "out_ok f s"
  shows "uart_putc c s = Inr (fst s, (snd s)\<lparr>h_out := (h_out (snd s))(f := h_out (snd s) f @ [c])\<rparr>)"
  using assms
  by (cases s) (auto simp: out_ok_def uart_putc_def mmio_sw_def hal_consts soc_write_def MemoryMap_write_def uart_unit
      MmioDevice_write_def vtbl_defs lift_write_def lens_defs UART_MmioDevice_write_def uart_consts host_fputc_def
      low_byte Let_def split: option.splits)

interpretation hal_out: putc_port uart_putc "out_ok f" "\<lambda>s. h_out (snd s) f" for f
  by unfold_locales (auto simp: putc_eq out_ok_def)

lemma putc_keeps:
  assumes "uart_putc c s = Inr s'" "memmap (fst s) = soc_map"
  shows "fst s' = fst s \<and> h_stdin (snd s') = h_stdin (snd s)"
  using assms
  by (cases s) (auto simp: uart_putc_def mmio_sw_def hal_consts soc_write_def MemoryMap_write_def uart_unit
      MmioDevice_write_def vtbl_defs lift_write_def lens_defs UART_MmioDevice_write_def uart_consts host_fputc_def
      res_simps Let_def split: option.splits list.splits bool.splits if_splits)

interpretation hal_frame: putc_frame uart_putc
  "\<lambda>s. fst s = t \<and> memmap t = soc_map \<and> h_stdin (snd s) = i" for t i
  by unfold_locales (use putc_keeps in metis)

end
