(* ===== verification/AppRtos.thy ===== *)
theory AppRtos
  imports RtHal
begin

text \<open>
  The firmware of the demo (\<open>freertos_demo\<close>): start-up, the interrupt handler, the tasks'
  loop bodies and the fatal hooks, on the SoC's bus.  The kernel is not part of the repository:
  its calls are the fields of a record of functions over an arbitrary kernel state \<open>'k\<close>.  The
  state of the firmware is the SoC with the host, the kernel, the two globals and the trap
  vector.  A task is modelled by its loop body; its interleaving with the handler and the
  hardware is the step relation at the end.
\<close>

record 'k fw =
  world :: store
  ker :: 'k
  uart_rx_sem :: bool
  yield_count :: uint32
  mtvec :: uint32

text \<open>The entry points given to the kernel; a task's argument is \<open>NULL\<close> or a string.\<close>

datatype task_code = ChattyTask | UartRxTask

record 'k rtos =
  sem_create :: "'k \<Rightarrow> bool \<times> 'k"
  sem_give_isr :: "'k \<Rightarrow> bool \<times> 'k"
  sem_take :: "'k \<Rightarrow> bool \<times> 'k"
  task_create :: "task_code \<Rightarrow> string \<Rightarrow> uint16 \<Rightarrow> uint8 list option \<Rightarrow> nat \<Rightarrow> 'k \<Rightarrow> bool \<times> 'k"
  task_delay :: "uint32 \<Rightarrow> 'k \<Rightarrow> 'k"
  ms_to_ticks :: "uint32 \<Rightarrow> uint32"
  yield_isr :: "bool \<Rightarrow> 'k \<Rightarrow> 'k"
  mask_irqs :: "'k \<Rightarrow> 'k"
  scheduler :: "'k fw \<Rightarrow> fault + 'k fw"

definition APP_IRQ_AGG_PENDING :: addr_t where "APP_IRQ_AGG_PENDING = 0x10004000"
definition APP_IRQ_AGG_ENABLE :: addr_t where "APP_IRQ_AGG_ENABLE = 0x10004004"
definition IRQ_BIT_UART_RX :: uint32 where "IRQ_BIT_UART_RX = 1"
definition CLINT_MSIP :: addr_t where "CLINT_MSIP = 0x02000000"
definition MCAUSE_INT_BIT :: uint32 where "MCAUSE_INT_BIT = push_bit 31 1"
definition MCAUSE_CODE_MSI :: uint32 where "MCAUSE_CODE_MSI = 3"
definition MCAUSE_CODE_MEI :: uint32 where "MCAUSE_CODE_MEI = 11"

lemmas app_addrs = APP_IRQ_AGG_PENDING_def APP_IRQ_AGG_ENABLE_def CLINT_MSIP_def
lemmas app_bits = IRQ_BIT_UART_RX_def MCAUSE_INT_BIT_def MCAUSE_CODE_MSI_def MCAUSE_CODE_MEI_def

text \<open>The bytes of a C string literal; \<open>em_dash\<close> is one character in UTF-8.\<close>

definition lit :: "string \<Rightarrow> uint8 list" where
  "lit s = map of_char s"

definition em_dash :: "uint8 list" where
  "em_dash = [0xE2, 0x80, 0x94]"

definition app_printf :: "uint8 list \<Rightarrow> va_arg list \<Rightarrow> 'k fw \<Rightarrow> fault + 'k fw" where
  "app_printf fmt args s =
     bind_res (rt_printf uart_putc fmt args (world s)) (\<lambda>(_, w). Inr (s\<lparr>world := w\<rparr>))"

definition app_sw :: "addr_t \<Rightarrow> uint32 \<Rightarrow> 'k fw \<Rightarrow> fault + 'k fw" where
  "app_sw a v s = bind_res (mmio_sw a v (world s)) (\<lambda>w. Inr (s\<lparr>world := w\<rparr>))"

subsection \<open>Hooks\<close>

definition vAssertCalled :: "'k rtos \<Rightarrow> uint8 list \<Rightarrow> uint32 \<Rightarrow> 'k fw \<Rightarrow> fault + 'k fw" where
  "vAssertCalled k file line s =
     bind_res (app_printf (lit ''[FreeRTOS ASSERT] %s:%d '' @ em_dash @ lit '' halting'' @ [10])
                 [VStr (Some file), VInt line] s) (\<lambda>s.
     let s = s\<lparr>ker := mask_irqs k (ker s)\<rparr> in rt_halt 1)"

definition vApplicationStackOverflowHook :: "'k rtos \<Rightarrow> uint8 list option \<Rightarrow> 'k fw \<Rightarrow> fault + 'k fw" where
  "vApplicationStackOverflowHook k name s =
     bind_res (app_printf (lit ''[FreeRTOS] stack overflow in task '' @ [39] @ lit ''%s'' @ [39, 32] @ em_dash @
                  lit '' halting'' @ [10]) [VStr name] s) (\<lambda>s.
     let s = s\<lparr>ker := mask_irqs k (ker s)\<rparr> in rt_halt 2)"

definition vApplicationMallocFailedHook :: "'k rtos \<Rightarrow> 'k fw \<Rightarrow> fault + 'k fw" where
  "vApplicationMallocFailedHook k s =
     bind_res (app_printf (lit ''[FreeRTOS] pvPortMalloc failed '' @ em_dash @ lit '' halting'' @ [10]) [] s) (\<lambda>s.
     let s = s\<lparr>ker := mask_irqs k (ker s)\<rparr> in rt_halt 3)"

definition configASSERT :: "'k rtos \<Rightarrow> bool \<Rightarrow> uint8 list \<Rightarrow> uint32 \<Rightarrow> 'k fw \<Rightarrow> fault + 'k fw" where
  "configASSERT k x file line s = (if \<not> x then vAssertCalled k file line s else Inr s)"

subsection \<open>The interrupt handler\<close>

definition app_isr_mei :: "'k rtos \<Rightarrow> 'k fw \<Rightarrow> fault + (bool \<times> 'k fw)" where
  "app_isr_mei k s =
     bind_res (mmio_lw APP_IRQ_AGG_PENDING (world s)) (\<lambda>(pend, w).
     let s = s\<lparr>world := w\<rparr>;
         (woken, s) = (if pend AND IRQ_BIT_UART_RX \<noteq> 0 \<and> uart_rx_sem s
                       then (let (wk, q) = sem_give_isr k (ker s) in (wk, s\<lparr>ker := q\<rparr>))
                       else (False, s))
     in bind_res (app_sw APP_IRQ_AGG_PENDING pend s) (\<lambda>s. Inr (woken, s)))"

definition app_irq_handler :: "'k rtos \<Rightarrow> uint32 \<Rightarrow> 'k fw \<Rightarrow> fault + 'k fw" where
  "app_irq_handler k mcause s =
     bind_res
       (if mcause AND MCAUSE_INT_BIT = 0
        then bind_res (app_printf (lit ''[ISR] spurious sync mcause=0x%08x'' @ [10]) [VInt mcause] s)
               (\<lambda>s. rt_halt 4)
        else let code = mcause AND NOT MCAUSE_INT_BIT in
          if code = MCAUSE_CODE_MEI then app_isr_mei k s
          else if code = MCAUSE_CODE_MSI
          then bind_res (app_sw CLINT_MSIP 0 s) (\<lambda>s. Inr (False, s\<lparr>yield_count := yield_count s + 1\<rparr>))
          else bind_res (app_printf (lit ''[ISR] unexpected async mcause=0x%08x'' @ [10]) [VInt mcause] s)
                 (\<lambda>s. rt_halt 5))
       (\<lambda>(woken, s). Inr (s\<lparr>ker := yield_isr k woken (ker s)\<rparr>))"

subsection \<open>Start-up\<close>

definition install_mtvec :: "'k rtos \<Rightarrow> uint32 \<Rightarrow> 'k fw \<Rightarrow> fault + 'k fw" where
  "install_mtvec k handler s =
     bind_res (configASSERT k (handler AND 3 = 0) (lit ''main.c'') 46 s) (\<lambda>s. Inr (s\<lparr>mtvec := handler\<rparr>))"

definition enable_uart_rx_irq :: "'k fw \<Rightarrow> fault + 'k fw" where
  "enable_uart_rx_irq s =
     bind_res (app_sw APP_IRQ_AGG_ENABLE IRQ_BIT_UART_RX s) (\<lambda>s. app_sw APP_IRQ_AGG_PENDING IRQ_BIT_UART_RX s)"

text \<open>\<open>rc = xTaskCreate(code, name, configMINIMAL_STACK_SIZE, pv, prio, NULL); configASSERT(rc == pdPASS);\<close>\<close>

definition configMINIMAL_STACK_SIZE :: uint16 where "configMINIMAL_STACK_SIZE = 128"

definition app_create_task ::
  "'k rtos \<Rightarrow> task_code \<Rightarrow> string \<Rightarrow> uint8 list option \<Rightarrow> nat \<Rightarrow> uint32 \<Rightarrow> 'k fw \<Rightarrow> fault + 'k fw" where
  "app_create_task k code name pv prio line s =
     (let (pass, q) = task_create k code name configMINIMAL_STACK_SIZE pv prio (ker s);
          s = s\<lparr>ker := q\<rparr>
      in configASSERT k pass (lit ''main.c'') line s)"

definition app_main :: "'k rtos \<Rightarrow> uint32 \<Rightarrow> 'k fw \<Rightarrow> fault + (uint32 \<times> 'k fw)" where
  "app_main k handler s =
     bind_res (app_printf (lit ''[boot] main entered'' @ [10]) [] s) (\<lambda>s.
     bind_res (install_mtvec k handler s) (\<lambda>s.
     bind_res (enable_uart_rx_irq s) (\<lambda>s.
     let (made, q) = sem_create k (ker s);
         s = s\<lparr>uart_rx_sem := made, ker := q\<rparr>
     in
     bind_res (configASSERT k (uart_rx_sem s) (lit ''main.c'') 89 s) (\<lambda>s.
     bind_res (app_create_task k ChattyTask ''chatty_A'' (Some (lit ''A'')) 2 94 s) (\<lambda>s.
     bind_res (app_create_task k ChattyTask ''chatty_B'' (Some (lit ''B'')) 2 97 s) (\<lambda>s.
     bind_res (app_create_task k UartRxTask ''uart_rx'' None 3 100 s) (\<lambda>s.
     bind_res (app_printf (lit ''[boot] scheduler starting'' @ [10]) [] s) (\<lambda>s.
     bind_res (scheduler k s) (\<lambda>s.
     bind_res (app_printf (lit ''[boot] scheduler returned '' @ em_dash @ lit '' halting'' @ [10]) [] s) (\<lambda>s.
     Inr (1, s)))))))))))"

subsection \<open>The tasks\<close>

definition chatty_fmt :: "uint8 list" where
  "chatty_fmt = lit ''[%s] tick %u (yields=%u)'' @ [10]"

definition chatty_body :: "'k rtos \<Rightarrow> uint8 list \<Rightarrow> uint32 \<Rightarrow> 'k fw \<Rightarrow> fault + (uint32 \<times> 'k fw)" where
  "chatty_body k tag n s =
     (let period = (if (case tag of [] \<Rightarrow> 0 | c # _ \<Rightarrow> c) = of_char CHR ''A''
                    then ms_to_ticks k 5 else ms_to_ticks k 7)
      in bind_res (app_printf chatty_fmt [VStr (Some tag), VInt n, VInt (yield_count s)] s) (\<lambda>s.
         Inr (n + 1, s\<lparr>ker := task_delay k period (ker s)\<rparr>)))"

definition rx_fmt :: "uint8 list" where
  "rx_fmt = lit ''[RX] event %u byte=0x%02x'' @ [10]"

text \<open>One turn of the draining loop: whether it goes on, and the event counter.\<close>

definition rx_turn :: "uint32 \<Rightarrow> 'k fw \<Rightarrow> fault + (bool \<times> uint32 \<times> 'k fw)" where
  "rx_turn evt s =
     bind_res (uart_try_getc (world s)) (\<lambda>(c, w).
     let s = s\<lparr>world := w\<rparr> in
     if c \<ge> 0
     then bind_res (app_printf rx_fmt [VInt evt, VInt (word_of_int c)] s) (\<lambda>s. Inr (True, evt + 1, s))
     else Inr (False, evt, s))"

partial_function (option) rx_drain ::
  "('k fw \<Rightarrow> 'k fw) \<Rightarrow> uint32 \<Rightarrow> 'k fw \<Rightarrow> (fault + (uint32 \<times> 'k fw)) option" where
  "rx_drain env evt s =
     (case rx_turn evt s of
        Inl e \<Rightarrow> Some (Inl e)
      | Inr x \<Rightarrow> if fst x then rx_drain env (fst (snd x)) (env (snd (snd x)))
                 else Some (Inr (snd x)))"

definition uart_rx_body ::
  "'k rtos \<Rightarrow> ('k fw \<Rightarrow> 'k fw) \<Rightarrow> uint32 \<Rightarrow> 'k fw \<Rightarrow> (fault + (uint32 \<times> 'k fw)) option" where
  "uart_rx_body k env evt s =
     (let (taken, q) = sem_take k (ker s);
          s = s\<lparr>ker := q\<rparr>
      in if taken then rx_drain env evt s else Some (Inr (evt, s)))"

subsection \<open>The registers the firmware uses\<close>

lemma irq_unit:
  "find_unit soc_map 0x10004000 4 = Some \<lparr>u_base = 0x10004000, u_size = 0x1000, u_device = Ref_IrqAgg\<rparr>"
  "find_unit soc_map 0x10004004 4 = Some \<lparr>u_base = 0x10004000, u_size = 0x1000, u_device = Ref_IrqAgg\<rparr>"
  "find_unit soc_map 0x02000000 4 = Some \<lparr>u_base = 0x02000000, u_size = 0x10000, u_device = Ref_Clint\<rparr>"
  by (simp_all add: find_unit_def soc_map_def)

lemma lw_pending:
  "memmap (fst s) = soc_map \<Longrightarrow> mmio_lw APP_IRQ_AGG_PENDING s = Inr (pending (irq_agg (fst s)) AND 1, s)"
  by (cases s) (simp add: mmio_lw_def app_addrs soc_read_def MemoryMap_read_def irq_unit MmioDevice_read_def
      vtbl_defs lift_read_def lens_defs IrqAgg_MmioDevice_read_def irq_consts)

lemma sw_pending:
  "memmap (fst s) = soc_map \<Longrightarrow> mmio_sw APP_IRQ_AGG_PENDING v s =
   Inr ((fst s)\<lparr>irq_agg := (irq_agg (fst s))\<lparr>pending := pending (irq_agg (fst s)) AND NOT (v AND 1)\<rparr>\<rparr>, snd s)"
  by (cases s) (simp add: mmio_sw_def app_addrs soc_write_def MemoryMap_write_def irq_unit MmioDevice_write_def
      vtbl_defs lift_write_def lens_defs IrqAgg_MmioDevice_write_def irq_consts del: bit.de_Morgan_conj)

lemma sw_enable:
  "memmap (fst s) = soc_map \<Longrightarrow> mmio_sw APP_IRQ_AGG_ENABLE v s =
   Inr ((fst s)\<lparr>irq_agg := (irq_agg (fst s))\<lparr>enable := v AND 1\<rparr>\<rparr>, snd s)"
  by (cases s) (simp add: mmio_sw_def app_addrs soc_write_def MemoryMap_write_def irq_unit MmioDevice_write_def
      vtbl_defs lift_write_def lens_defs IrqAgg_MmioDevice_write_def irq_consts)

lemma sw_msip:
  "memmap (fst s) = soc_map \<Longrightarrow> mmio_sw CLINT_MSIP v s =
   Inr ((fst s)\<lparr>clint := (clint (fst s))\<lparr>msip := v AND 1\<rparr>\<rparr>, snd s)"
  by (cases s) (simp add: mmio_sw_def app_addrs soc_write_def MemoryMap_write_def irq_unit MmioDevice_write_def
      vtbl_defs lift_write_def lens_defs Clint_MmioDevice_write_def clint_offsets CLINT_MSIP_MASK_def)

text \<open>The aggregator's register written by the firmware, on the whole store.\<close>

definition with_irq :: "IrqAgg \<Rightarrow> store \<Rightarrow> store" where
  "with_irq a s = ((fst s)\<lparr>irq_agg := a\<rparr>, snd s)"

lemma with_irq_inv:
  "sys_inv s \<Longrightarrow> pending a \<in> {0, 1} \<Longrightarrow> enable a \<in> {0, 1} \<Longrightarrow> \<not> uart_rx_edge a \<Longrightarrow> sys_inv (with_irq a s)"
  by (auto simp: sys_inv_def soc_inv_def irq_inv_def with_irq_def)

lemma sys_inv_irq:
  "sys_inv s \<Longrightarrow> pending (irq_agg (fst s)) \<in> {0, 1} \<and> enable (irq_agg (fst s)) \<in> {0, 1} \<and>
   \<not> uart_rx_edge (irq_agg (fst s)) \<and> memmap (fst s) = soc_map"
  by (auto simp: sys_inv_def soc_inv_def irq_inv_def)

lemma enable_eq:
  assumes "sys_inv (world s)"
  shows "enable_uart_rx_irq s = Inr (s\<lparr>world := with_irq \<lparr>pending = 0, enable = 1, uart_rx_edge = False\<rparr> (world s)\<rparr>)"
  using sys_inv_irq [OF assms]
  by (auto simp: enable_uart_rx_irq_def app_sw_def sw_enable sw_pending IRQ_BIT_UART_RX_def with_irq_def)

definition mcause_mei :: uint32 where "mcause_mei = 0x8000000B"
definition mcause_msi :: uint32 where "mcause_msi = 0x80000003"

text \<open>The external interrupt: the semaphore is given when the bit is pending, and the bit is
  acknowledged.\<close>

lemma isr_mei_eq:
  assumes "sys_inv (world s)"
  shows "app_irq_handler k mcause_mei s =
    (let g = pending (irq_agg (fst (world s))) = 1 \<and> uart_rx_sem s;
         (woken, q) = (if g then sem_give_isr k (ker s) else (False, ker s))
     in Inr (s\<lparr>world := with_irq ((irq_agg (fst (world s)))\<lparr>pending := 0\<rparr>) (world s),
               ker := yield_isr k woken q\<rparr>))"
  using sys_inv_irq [OF assms]
  by (auto simp: app_irq_handler_def app_isr_mei_def lw_pending sw_pending app_sw_def mcause_mei_def app_bits
      with_irq_def Let_def split: prod.splits)

lemma isr_msi_eq:
  assumes "memmap (fst (world s)) = soc_map"
  shows "app_irq_handler k mcause_msi s =
    Inr (s\<lparr>world := ((fst (world s))\<lparr>clint := (clint (fst (world s)))\<lparr>msip := 0\<rparr>\<rparr>, snd (world s)),
           yield_count := yield_count s + 1, ker := yield_isr k False (ker s)\<rparr>)"
  using assms
  by (simp add: app_irq_handler_def sw_msip app_sw_def mcause_msi_def app_bits Let_def)

subsection \<open>Printing and receiving\<close>

lemma sys_inv_cong: "sys_inv w \<Longrightarrow> fst w' = fst w \<Longrightarrow> sys_inv w'"
  by (simp add: sys_inv_def soc_inv_def)

lemma app_printf_frame:
  assumes "app_printf fmt args s = Inr s'" "memmap (fst (world s)) = soc_map"
  shows "\<exists>w. s' = s\<lparr>world := w\<rparr> \<and> fst w = fst (world s) \<and> h_stdin (snd w) = h_stdin (snd (world s))"
proof -
  obtain r w where p: "rt_printf uart_putc fmt args (world s) = Inr (r, w)" "s' = s\<lparr>world := w\<rparr>"
    using assms(1) by (auto simp: app_printf_def res_simps)
  with hal_frame.rt_printf_keeps [OF p(1), of "fst (world s)" "h_stdin (snd (world s))"] assms(2)
  show ?thesis by (intro exI [of _ w]) simp
qed

lemma app_printf_render:
  assumes "render fmt args = Some bs" "out_ok f (world s)"
  shows "\<exists>s'. app_printf fmt args s = Inr s' \<and> out_ok f (world s') \<and>
    h_out (snd (world s')) f = h_out (snd (world s)) f @ bs"
  using hal_out.rt_printf_emits [OF assms] by (auto simp: app_printf_def)

lemma rx_turn_idle:
  "memmap (fst (world s)) = soc_map \<Longrightarrow> \<not> rx_valid (uart (fst (world s))) \<Longrightarrow> rx_turn evt s = Inr (False, evt, s)"
  by (simp add: rx_turn_def try_getc_eq)

lemma rx_turn_byte:
  "memmap (fst (world s)) = soc_map \<Longrightarrow> rx_valid (uart (fst (world s))) \<Longrightarrow>
   rx_turn evt s = bind_res (app_printf rx_fmt [VInt evt, VInt (ucast (rx_byte (uart (fst (world s)))))]
       (s\<lparr>world := uart_popped (world s)\<rparr>)) (\<lambda>s. Inr (True, evt + 1, s))"
  by (simp add: rx_turn_def try_getc_eq)

lemma uart_popped_memmap [simp]: "memmap (fst (uart_popped w)) = memmap (fst w)"
  "irq_agg (fst (uart_popped w)) = irq_agg (fst w)" "rx_valid (uart (fst (uart_popped w))) = False"
  "snd (uart_popped w) = snd w"
  by (simp_all add: uart_popped_def)

lemma rx_turn_frame:
  assumes "rx_turn evt s = Inr (go, evt', s')" "sys_inv (world s)"
  shows "sys_inv (world s') \<and> irq_agg (fst (world s')) = irq_agg (fst (world s)) \<and>
    \<not> rx_valid (uart (fst (world s'))) \<and> ker s' = ker s \<and> uart_rx_sem s' = uart_rx_sem s"
proof (cases "rx_valid (uart (fst (world s)))")
  case False
  with assms rx_turn_idle [of s evt] sys_inv_irq [OF assms(2)] show ?thesis by simp
next
  case True
  have m: "memmap (fst (world s)) = soc_map" using sys_inv_irq [OF assms(2)] by simp
  let ?s1 = "s\<lparr>world := uart_popped (world s)\<rparr>"
  from assms(1) rx_turn_byte [OF m True, of evt]
  have p: "app_printf rx_fmt [VInt evt, VInt (ucast (rx_byte (uart (fst (world s)))))] ?s1 = Inr s'"
    by (auto simp: res_simps)
  obtain w where "s' = ?s1\<lparr>world := w\<rparr>" "fst w = fst (uart_popped (world s))"
    using app_printf_frame [OF p] m by auto
  with popped_sys_inv [OF assms(2)] sys_inv_cong [of "uart_popped (world s)" w] show ?thesis by simp
qed

text \<open>The line printed for an event: the conversions \<open>%0\<close> are not known to \<open>printf\<close>, so the
  byte is not shown.\<close>

definition rx_line :: "uint32 \<Rightarrow> uint8 list" where
  "rx_line evt = lit ''[RX] event '' @ dec_text (unat evt) @ lit '' byte=0x%02x'' @ [10]"

lemma rx_fmt_render: "render rx_fmt [VInt evt, VInt c] = Some (rx_line evt)"
  by (simp add: rx_fmt_def rx_line_def lit_def render_conv_def)

subsection \<open>The draining loop\<close>

text \<open>The clock runs between two turns.\<close>

definition tick_world :: "'k fw \<Rightarrow> 'k fw" where
  "tick_world s = s\<lparr>world := ticked (world s)\<rparr>"

text \<open>What one turn with a byte does, on a stream that accepts every character.\<close>

lemma rx_turn_prints:
  assumes "sys_inv (world s)" "rx_valid (uart (fst (world s)))" "out_ok f (world s)"
  shows "\<exists>s'. rx_turn evt s = Inr (True, evt + 1, s') \<and> sys_inv (world s') \<and> out_ok f (world s') \<and>
    \<not> rx_valid (uart (fst (world s'))) \<and> h_stdin (snd (world s')) = h_stdin (snd (world s)) \<and>
    h_out (snd (world s')) f = h_out (snd (world s)) f @ rx_line evt"
proof -
  have m: "memmap (fst (world s)) = soc_map" using sys_inv_irq [OF assms(1)] by simp
  let ?s1 = "s\<lparr>world := uart_popped (world s)\<rparr>" and ?b = "VInt (ucast (rx_byte (uart (fst (world s)))))"
  have "out_ok f (world ?s1)" using assms(3) by (auto simp: out_ok_def uart_popped_def)
  from app_printf_render [OF rx_fmt_render this] obtain s' where
    p: "app_printf rx_fmt [VInt evt, ?b] ?s1 = Inr s'" "out_ok f (world s')"
      "h_out (snd (world s')) f = h_out (snd (world ?s1)) f @ rx_line evt" by blast
  obtain w where w: "s' = ?s1\<lparr>world := w\<rparr>" "fst w = fst (uart_popped (world s))" "h_stdin (snd w) = h_stdin (snd (world s))"
    using app_printf_frame [OF p(1)] m by auto
  show ?thesis
    using p w rx_turn_byte [OF m assms(2), of evt] popped_sys_inv [OF assms(1)] sys_inv_cong [of "uart_popped (world s)" w]
    by simp
qed

lemma ticked_out_ok: "out_ok f w \<Longrightarrow> out_ok f (ticked w) \<and> h_out (snd (ticked w)) = h_out (snd w)"
  by (auto simp: out_ok_def ticked_def UART_Tickable_tick_def terminal_backend_try_read_def host_read1_def
      split: prod.splits option.splits list.splits)

lemma ticked_stdin:
  "\<not> rx_valid (uart (fst w)) \<Longrightarrow> sys_inv w \<Longrightarrow>
   h_stdin (snd (ticked w)) = tl (h_stdin (snd w)) \<and> (h_stdin (snd w) = [] \<longrightarrow> \<not> rx_valid (uart (fst (ticked w))))"
  by (auto simp: ticked_def sys_inv_def UART_Tickable_tick_def terminal_backend_try_read_def host_read1_def
      split: prod.splits option.splits list.splits)

lemma popped_then:
  assumes "rx_valid (uart (fst w))" "\<not> rx_valid (uart (fst w'))" "h_stdin (snd w') = h_stdin (snd w)"
  shows "rx_bytes w = rx_byte (uart (fst w)) # rx_bytes (ticked w')"
  using assms by (simp add: tick_rx) (simp add: rx_bytes_def rx_stream_def stdin_bytes_def)

fun rx_lines :: "uint32 \<Rightarrow> nat \<Rightarrow> uint8 list" where
  "rx_lines evt 0 = []"
| "rx_lines evt (Suc n) = rx_line evt @ rx_lines (evt + 1) n"

lemma rx_drain_idle:
  "memmap (fst (world s)) = soc_map \<Longrightarrow> \<not> rx_valid (uart (fst (world s))) \<Longrightarrow> rx_drain env evt s = Some (Inr (evt, s))"
  by (subst rx_drain.simps) (simp add: rx_turn_idle)

definition drained :: "stream \<Rightarrow> uint32 \<Rightarrow> 'k fw \<Rightarrow> nat \<Rightarrow> 'k fw \<Rightarrow> bool" where
  "drained f evt s n s' \<longleftrightarrow> rx_drain tick_world evt s = Some (Inr (evt + of_nat n, s')) \<and>
     \<not> rx_valid (uart (fst (world s'))) \<and> n \<le> length (rx_bytes (world s)) \<and>
     (rx_valid (uart (fst (world s))) \<longrightarrow> 0 < n) \<and>
     rx_bytes (world s') = drop n (rx_bytes (world s)) \<and>
     h_out (snd (world s')) f = h_out (snd (world s)) f @ rx_lines evt n"

lemma drained_idle: "sys_inv (world s) \<Longrightarrow> \<not> rx_valid (uart (fst (world s))) \<Longrightarrow> drained f evt s 0 s"
  using sys_inv_irq [of "world s"] by (simp add: drained_def rx_drain_idle)

lemma rx_drain_ends:
  assumes "sys_inv (world s)" "out_ok f (world s)"
  shows "\<exists>n s'. drained f evt s n s'"
  using assms
proof (induction "length (h_stdin (snd (world s)))" arbitrary: s evt rule: less_induct)
  case less
  show ?case
  proof (cases "rx_valid (uart (fst (world s)))")
    case False
    with drained_idle [OF less(2)] show ?thesis by blast
  next
    case True
    obtain s1 where s1: "rx_turn evt s = Inr (True, evt + 1, s1)" "sys_inv (world s1)" "out_ok f (world s1)"
        "\<not> rx_valid (uart (fst (world s1)))" "h_stdin (snd (world s1)) = h_stdin (snd (world s))"
        "h_out (snd (world s1)) f = h_out (snd (world s)) f @ rx_line evt"
      using rx_turn_prints [OF less(2) True less(3), of evt] by blast
    let ?s2 = "tick_world s1"
    have s2: "sys_inv (world ?s2)" "out_ok f (world ?s2)" "h_out (snd (world ?s2)) = h_out (snd (world s1))"
      using ticked_sys_inv [OF s1(2)] ticked_out_ok [OF s1(3)] by (simp_all add: tick_world_def)
    have rx: "rx_bytes (world s) = rx_byte (uart (fst (world s))) # rx_bytes (world ?s2)"
      using popped_then [OF True s1(4,5)] by (simp add: tick_world_def)
    have "\<exists>n s'. drained f (evt + 1) ?s2 n s'"
    proof (cases "h_stdin (snd (world s))")
      case Nil
      then have "\<not> rx_valid (uart (fst (world ?s2)))"
        using ticked_stdin [OF s1(4,2)] s1(5) by (simp add: tick_world_def)
      from drained_idle [OF s2(1) this] show ?thesis by blast
    next
      case (Cons x xs)
      then have "length (h_stdin (snd (world ?s2))) < length (h_stdin (snd (world s)))"
        using ticked_stdin [OF s1(4,2)] s1(5) by (simp add: tick_world_def)
      from less(1) [OF this s2(1,2)] show ?thesis .
    qed
    then obtain n s' where d: "drained f (evt + 1) ?s2 n s'" by blast
    have "rx_drain tick_world evt s = rx_drain tick_world (evt + 1) ?s2"
      by (subst rx_drain.simps) (simp add: s1(1))
    with d rx s2(3) s1(6) have "drained f evt s (Suc n) s'"
      by (simp add: drained_def add.assoc)
    then show ?thesis by blast
  qed
qed

subsection \<open>Handler, tasks and hardware interleaved\<close>

text \<open>The receiving task waits for the semaphore or drains the buffer, and keeps its event counter;
  each printing task, named by its tag, keeps the counter of its lines.  What the kernel
  promises of a binary semaphore is stated over its state by \<open>avail\<close>.\<close>

datatype rx_phase = Waiting | Draining

definition sem_laws :: "'k rtos \<Rightarrow> ('k \<Rightarrow> bool) \<Rightarrow> bool" where
  "sem_laws k avail \<longleftrightarrow>
     (\<forall>q. avail (snd (sem_give_isr k q))) \<and>
     (\<forall>q. fst (sem_take k q) = avail q) \<and>
     (\<forall>b q. avail (yield_isr k b q) = avail q) \<and>
     (\<forall>t q. avail (task_delay k t q) = avail q)"

inductive fw_step ::
  "'k rtos \<Rightarrow> 'k fw \<times> rx_phase \<times> uint32 \<times> (uint8 list \<Rightarrow> uint32) \<Rightarrow> 'k fw \<times> rx_phase \<times> uint32 \<times> (uint8 list \<Rightarrow> uint32) \<Rightarrow> bool" for k where
  fw_tick: "soc_tick (world s) = Inr w \<Longrightarrow> fw_step k (s, ph, n, cn) (s\<lparr>world := w\<rparr>, ph, n, cn)"
| fw_input: "fw_step k (s, ph, n, cn) (s\<lparr>world := (fst (world s), (snd (world s))\<lparr>h_stdin := h_stdin (snd (world s)) @ bs\<rparr>)\<rparr>, ph, n, cn)"
| fw_mei: "SnakeSoC_meip_wire (fst (world s)) \<Longrightarrow> app_irq_handler k mcause_mei s = Inr s' \<Longrightarrow>
    fw_step k (s, ph, n, cn) (s', ph, n, cn)"
| fw_msi: "SnakeSoC_msip_wire (fst (world s)) \<Longrightarrow> app_irq_handler k mcause_msi s = Inr s' \<Longrightarrow>
    fw_step k (s, ph, n, cn) (s', ph, n, cn)"
| fw_chatty: "chatty_body k tag (cn tag) s = Inr (m, s') \<Longrightarrow> fw_step k (s, ph, n, cn) (s', ph, n, cn(tag := m))"
| fw_take: "sem_take k (ker s) = (True, q) \<Longrightarrow> fw_step k (s, Waiting, n, cn) (s\<lparr>ker := q\<rparr>, Draining, n, cn)"
| fw_turn: "rx_turn n s = Inr (go, n', s') \<Longrightarrow>
    fw_step k (s, Draining, n, cn) (s', if go then Draining else Waiting, n', cn)"

definition rx_ready :: "('k \<Rightarrow> bool) \<Rightarrow> 'k fw \<times> rx_phase \<times> uint32 \<times> (uint8 list \<Rightarrow> uint32) \<Rightarrow> bool" where
  "rx_ready avail = (\<lambda>(s, ph, n, cn). sys_inv (world s) \<and> enable (irq_agg (fst (world s))) = 1 \<and> uart_rx_sem s \<and>
     (rx_valid (uart (fst (world s))) \<longrightarrow>
        pending (irq_agg (fst (world s))) = 1 \<or> avail (ker s) \<or> ph = Draining))"

lemma ticked_enable: "enable (irq_agg (fst (ticked w))) = enable (irq_agg (fst w))"
  by (auto simp: ticked_def UART_Tickable_tick_def IrqAgg_Tickable_tick_def IrqAgg_set_uart_rx_edge_def
      split: prod.splits option.splits)

lemma ticked_latch:
  assumes "sys_inv w" "rx_valid (uart (fst (ticked w)))" "\<not> rx_valid (uart (fst w))"
  shows "pending (irq_agg (fst (ticked w))) = 1"
proof -
  from sys_inv_irq [OF assms(1)] have p: "pending (irq_agg (fst w)) \<in> {0, 1}" by blast
  obtain b bs where "h_stdin (snd w) = Some b # bs"
    using assms by (auto simp: ticked_def sys_inv_def UART_Tickable_tick_def terminal_backend_try_read_def host_read1_def
        split: prod.splits option.splits list.splits)
  with ticked_receive [of w b bs] assms p show ?thesis by (auto simp: sys_inv_def)
qed

lemma ticked_ready:
  assumes "sys_inv w" "rx_valid (uart (fst w)) \<longrightarrow> pending (irq_agg (fst w)) = 1 \<or> P" "rx_valid (uart (fst (ticked w)))"
  shows "pending (irq_agg (fst (ticked w))) = 1 \<or> P"
  using ticked_latch [OF assms(1,3)] assms(2) ticked_pending by blast

lemma meip_iff: "sys_inv w \<Longrightarrow> enable (irq_agg (fst w)) = 1 \<Longrightarrow>
   SnakeSoC_meip_wire (fst w) = (pending (irq_agg (fst w)) = 1)"
  using sys_inv_irq [of w] by (auto simp: SnakeSoC_meip_wire_def IrqAgg_meip_def irq_consts)

lemma fw_step_ready:
  assumes "fw_step k c c'" "sem_laws k avail" "rx_ready avail c"
  shows "rx_ready avail c'"
  using assms
proof (induction rule: fw_step.induct)
  case (fw_tick s w ph n cn)
  have i: "sys_inv (world s)" using fw_tick by (simp add: rx_ready_def)
  then have w: "w = ticked (world s)" using fw_tick(1) soc_tick_ticked [of "world s"] by (simp add: sys_inv_def)
  show ?case
    using fw_tick(3) ticked_sys_inv [OF i] ticked_enable [of "world s"]
      ticked_ready [OF i, of "avail (ker s) \<or> ph = Draining"] w
    by (auto simp: rx_ready_def)
next
  case (fw_input s ph n cn bs)
  then show ?case using sys_inv_cong [of "world s"] by (simp add: rx_ready_def)
next
  case (fw_mei s s' ph n cn)
  have i: "sys_inv (world s)" "enable (irq_agg (fst (world s))) = 1" "uart_rx_sem s"
    using fw_mei by (auto simp: rx_ready_def)
  have p: "pending (irq_agg (fst (world s))) = 1" using fw_mei(1) meip_iff [OF i(1,2)] by simp
  obtain wk q where g: "sem_give_isr k (ker s) = (wk, q)" by fastforce
  have s': "s' = s\<lparr>world := with_irq ((irq_agg (fst (world s)))\<lparr>pending := 0\<rparr>) (world s), ker := yield_isr k wk q\<rparr>"
    using fw_mei(2) isr_mei_eq [OF i(1), of k] p i(3) g by simp
  have "avail (yield_isr k wk q)" using fw_mei(3) g unfolding sem_laws_def by (metis snd_conv)
  then show ?case
    using s' i with_irq_inv [OF i(1)] sys_inv_irq [OF i(1)] by (simp add: rx_ready_def with_irq_def)
next
  case (fw_msi s s' ph n cn)
  have i: "sys_inv (world s)" using fw_msi by (auto simp: rx_ready_def)
  have s': "s' = s\<lparr>world := ((fst (world s))\<lparr>clint := (clint (fst (world s)))\<lparr>msip := 0\<rparr>\<rparr>, snd (world s)),
           yield_count := yield_count s + 1, ker := yield_isr k False (ker s)\<rparr>"
    using fw_msi(2) isr_msi_eq [of s k] sys_inv_irq [OF i] by simp
  have "sys_inv (world s')" using i s' by (simp add: sys_inv_def soc_inv_def clint_inv_def)
  then show ?case using fw_msi s' by (simp add: rx_ready_def sem_laws_def)
next
  case (fw_chatty tag cn s m s' ph n)
  have i: "sys_inv (world s)" using fw_chatty by (auto simp: rx_ready_def)
  obtain s1 t where p: "app_printf chatty_fmt [VStr (Some tag), VInt (cn tag), VInt (yield_count s)] s = Inr s1"
    "s' = s1\<lparr>ker := task_delay k t (ker s1)\<rparr>"
    using fw_chatty(1) by (auto simp: chatty_body_def res_simps Let_def)
  obtain w where w: "s1 = s\<lparr>world := w\<rparr>" "fst w = fst (world s)"
    using app_printf_frame [OF p(1)] sys_inv_irq [OF i] by auto
  then show ?case using fw_chatty(2,3) p(2) sys_inv_cong [OF i] by (simp add: rx_ready_def sem_laws_def)
next
  case (fw_take s q n cn)
  then show ?case by (simp add: rx_ready_def)
next
  case (fw_turn n s go n' s' cn)
  have i: "sys_inv (world s)" using fw_turn by (auto simp: rx_ready_def)
  show ?case using fw_turn rx_turn_frame [OF fw_turn(1) i] by (simp add: rx_ready_def)
qed

lemma fw_run_ready:
  "(fw_step k)\<^sup>*\<^sup>* c c' \<Longrightarrow> sem_laws k avail \<Longrightarrow> rx_ready avail c \<Longrightarrow> rx_ready avail c'"
  by (induction rule: rtranclp_induct) (auto dest: fw_step_ready)

lemma enable_ready:
  assumes "sys_inv (world s)" "\<not> rx_valid (uart (fst (world s)))" "enable_uart_rx_irq s = Inr s1"
  shows "rx_ready avail (s1\<lparr>uart_rx_sem := True\<rparr>, Waiting, n, cn)"
  using assms enable_eq [OF assms(1)] with_irq_inv [OF assms(1)] by (auto simp: rx_ready_def with_irq_def)

end
