(* ===== verification/RtSpec.thy ===== *)
theory RtSpec
  imports RtString RtMock AppRtos "HOL-Library.List_Lexorder"
begin

text \<open>
  The properties of the target's runtime and of the demo firmware, each followed by its
  instance at a concrete state.
\<close>

section \<open>Output\<close>

lemma out_ok0: "out_ok Stdout (soc0 None, host0)"
  by (simp add: out_ok_def soc0_def)

lemma soc0_memmap: "memmap (soc0 f) = soc_map" "rx_valid (uart (soc0 f)) = False"
  "pending (irq_agg (soc0 f)) = 0"
  by (simp_all add: soc0_def)

text \<open>C26: \<open>printf\<close> is its rendering, over any output symbol: a call does exactly what writing the
  bytes of the rendered text one after the other does, with the same outcome (also when the
  symbol fails in the middle), and returns 0; when an argument is missing, of the wrong kind or
  the smallest \<open>int\<close> of a signed conversion, the call ends in an error.\<close>

theorem printf_is_rendering:
  "case render fmt args of
     Some bs \<Rightarrow> rt_printf pc fmt args s = bind_res (emit_str pc bs s) (\<lambda>s. Inr (0, s))
   | None \<Rightarrow> \<exists>e. rt_printf pc fmt args s = Inl e"
  using printf_from_prints [where fmt = fmt and args = args and pc = pc and s = s]
  by (auto simp: rt_printf_def split: option.splits)

text \<open>C27: On the SoC \<open>printf\<close> writes exactly the rendering of its format to the host stream,
  returns 0 and touches neither the SoC nor the waiting input.\<close>

theorem soc_printf:
  assumes "render fmt args = Some bs" "out_ok f w"
  shows "\<exists>w'. rt_printf uart_putc fmt args w = Inr (0, w') \<and> fst w' = fst w \<and>
    h_out (snd w') f = h_out (snd w) f @ bs \<and> h_stdin (snd w') = h_stdin (snd w)"
proof -
  obtain w' where w': "rt_printf uart_putc fmt args w = Inr (0, w')" "h_out (snd w') f = h_out (snd w) f @ bs"
    using hal_out.rt_printf_emits [OF assms] by blast
  moreover have "memmap (fst w) = soc_map" using assms(2) by (simp add: out_ok_def)
  ultimately show ?thesis
    using hal_frame.rt_printf_keeps [OF w'(1), of "fst w" "h_stdin (snd w)"] by blast
qed

text \<open>Witness: a format with a negative number, a string and an unknown conversion.\<close>

lemma soc_printf_witness:
  "\<exists>w'. rt_printf uart_putc (lit ''n=%d %s%y'') [VInt (- 42), VStr (Some (lit ''ab''))] (soc0 None, host0) = Inr (0, w') \<and>
     h_out (snd w') Stdout = lit ''n=-42 ab%y''"
proof -
  have s: "sint (- 42 :: uint32) = - 42" by simp
  have "render (lit ''n=%d %s%y'') [VInt (- 42), VStr (Some (lit ''ab''))] = Some (lit ''n=-42 ab%y'')"
    by (simp add: lit_def render_conv_def sdec_text_def dec_text_def digits.simps ascii_digit_def s)
  from soc_printf [OF this out_ok0] show ?thesis by auto
qed

text \<open>C28: What \<open>%u\<close> and \<open>%x\<close> print can be read back: the digits are below the base, denote
  the number, and have no leading zero.\<close>

theorem number_text_reads_back:
  assumes "out_ok f w"
  shows "(\<exists>w' ds. emit_dec_unsigned uart_putc v w = Inr w' \<and> h_out (snd w') f = h_out (snd w) f @ map ascii_digit ds \<and>
      denotes 10 ds = unat v \<and> set ds \<subseteq> {..<10} \<and> ds \<noteq> [] \<and> (hd ds = 0 \<longrightarrow> v = 0)) \<and>
    (\<exists>w' ds. emit_hex_lower uart_putc v w = Inr w' \<and> h_out (snd w') f = h_out (snd w) f @ map ascii_digit ds \<and>
      denotes 16 ds = unat v \<and> set ds \<subseteq> {..<16} \<and> ds \<noteq> [] \<and> (hd ds = 0 \<longrightarrow> v = 0))"
proof
  have lead: "1 < b \<Longrightarrow> set (digits b (unat v)) \<subseteq> {..<b} \<and> digits b (unat v) \<noteq> [] \<and>
      (hd (digits b (unat v)) = 0 \<longrightarrow> v = 0)" for b
    using digits_bound [of b _ "unat v"] digits_lead [of b "unat v"] by (auto simp: unat_eq_0)
  show "\<exists>w' ds. emit_dec_unsigned uart_putc v w = Inr w' \<and> h_out (snd w') f = h_out (snd w) f @ map ascii_digit ds \<and>
      denotes 10 ds = unat v \<and> set ds \<subseteq> {..<10} \<and> ds \<noteq> [] \<and> (hd ds = 0 \<longrightarrow> v = 0)"
    using hal_out.emit_dec_unsigned_emits assms lead [of 10] digits_denote [of 10 "unat v"]
    unfolding hal_out.emits_def dec_text_def by fastforce
  show "\<exists>w' ds. emit_hex_lower uart_putc v w = Inr w' \<and> h_out (snd w') f = h_out (snd w) f @ map ascii_digit ds \<and>
      denotes 16 ds = unat v \<and> set ds \<subseteq> {..<16} \<and> ds \<noteq> [] \<and> (hd ds = 0 \<longrightarrow> v = 0)"
    using hal_out.emit_hex_lower_emits assms lead [of 16] digits_denote [of 16 "unat v"]
    unfolding hal_out.emits_def hex_text_def by fastforce
qed

text \<open>Witness: the largest word.\<close>

lemma number_text_reads_back_witness:
  "\<exists>w' ds. emit_hex_lower uart_putc 0xFFFFFFFF (soc0 None, host0) = Inr w' \<and>
     h_out (snd w') Stdout = map ascii_digit ds \<and> denotes 16 ds = 4294967295"
  using number_text_reads_back [OF out_ok0, of "0xFFFFFFFF"] by auto

text \<open>C40: \<open>%d\<close> prints its argument, over any output symbol: with a \<open>long\<close> of 64 bits, the platform of
  the host tests, the conversion of every \<open>int\<close> does exactly what writing its decimal text does,
  \<^verbatim>\<open>-2147483648\<close> included.  With the 32 bits of the target it does so for every \<open>int\<close> but the smallest; for
  that one the sign is written and then the negation \<^verbatim>\<open>-(long)value\<close> overflows, which C leaves
  undefined.  The decimal text is a minus sign exactly for negative numbers, followed by the
  decimal digits of the absolute value without leading zeros.\<close>

theorem dec_signed_int_min:
  "emit_dec_signed_at 64 pc v s = emit_str pc (sdec_text (sint v)) s \<and>
   emit_dec_signed pc v s =
     (if sint v = - (2 ^ 31) then bind_res (pc 45 s) (\<lambda>_. Inl Undefined) else emit_str pc (sdec_text (sint v)) s) \<and>
   (\<exists>ds. sdec_text (sint v) = (if sint v < 0 then [of_char CHR ''-''] else []) @ map ascii_digit ds \<and>
      denotes 10 ds = nat (abs (sint v)) \<and> set ds \<subseteq> {..<10} \<and> ds \<noteq> [] \<and> (hd ds = 0) = (ds = [0]))"
proof (intro conjI)
  show "emit_dec_signed_at 64 pc v s = emit_str pc (sdec_text (sint v)) s"
    using printsD [OF dec_signed_at_prints [of 64 v pc]] by simp
  have "sint v = - (2 ^ 31) \<longleftrightarrow> v = 0x80000000"
  proof
    assume m: "sint v = - (2 ^ 31)"
    then have "sint v < 0" by simp
    then have "sint v = uint v - 2 ^ 32" by (simp add: sint32 split: if_splits)
    with m show "v = 0x80000000" by (intro unsigned_word_eqI) simp
  qed (simp add: sint32)
  then show "emit_dec_signed pc v s =
     (if sint v = - (2 ^ 31) then bind_res (pc 45 s) (\<lambda>_. Inl Undefined) else emit_str pc (sdec_text (sint v)) s)"
    using dec_signed_min [of pc s] printsD [OF dec_signed_prints [of v pc]] by simp
  let ?n = "nat (abs (sint v))"
  have "(hd (digits 10 ?n) = 0) = (digits 10 ?n = [0])"
    using digits_lead [of 10 ?n] by (auto simp: digits.simps [of 10 0])
  then show "\<exists>ds. sdec_text (sint v) = (if sint v < 0 then [of_char CHR ''-''] else []) @ map ascii_digit ds \<and>
      denotes 10 ds = ?n \<and> set ds \<subseteq> {..<10} \<and> ds \<noteq> [] \<and> (hd ds = 0) = (ds = [0])"
    using digits_denote [of 10 ?n] digits_bound [of 10 _ ?n] digits_lead [of 10 ?n]
    by (intro exI [of _ "digits 10 ?n"]) (auto simp: sdec_text_def dec_text_def)
qed

text \<open>At concrete arguments, writing to a list: -42, and the smallest \<open>int\<close> on both platforms.\<close>

lemma dec_signed_int_min_witness:
  "emit_dec_signed (\<lambda>c out. Inr (out @ [c])) (- 42) [] = Inr (map of_char ''-42'') \<and>
   emit_dec_signed_at 64 (\<lambda>c out. Inr (out @ [c])) 0x80000000 [] = Inr (map of_char ''-2147483648'') \<and>
   emit_dec_signed (\<lambda>c out. Inr (out @ [c])) 0x80000000 [] = Inl Undefined"
  using dec_signed_int_min [of "\<lambda>c out. Inr (out @ [c])" "- 42" "[]"]
    dec_signed_int_min [of "\<lambda>c out. Inr (out @ [c])" "0x80000000" "[]"]
  by (simp add: sint32 sdec_text_def dec_text_def ascii_digit_def digits.simps)

section \<open>Memory and strings\<close>

text \<open>\<open>memcpy\<close> between regions that do not wrap or overlap makes the target equal to the
  source, changes nothing else and returns the target.\<close>

theorem memcpy_copies:
  assumes "region d (unat n)" "region s (unat n)" "disjoint_regions d (unat n) s (unat n)"
  shows "fst (rt_memcpy d s n m) = d \<and>
    bytes_at (snd (rt_memcpy d s n m)) d (unat n) = bytes_at m s (unat n) \<and>
    (\<forall>x. \<not> inside d (unat n) x \<longrightarrow> snd (rt_memcpy d s n m) x = m x)"
  by (rule rt_memcpy_bytes [OF assms]) simp

text \<open>Witness: three bytes copied to just above their own end.\<close>

lemma memcpy_copies_witness:
  "bytes_at (snd (rt_memcpy 0x80000103 0x80000100 3 (\<lambda>a. ucast a))) 0x80000103 3 =
   bytes_at (\<lambda>a. ucast a) 0x80000100 3"
  using memcpy_copies [of "0x80000103" 3 "0x80000100" "\<lambda>a. ucast a"]
  by (simp add: region_def disjoint_regions_def)

text \<open>C35: On terminated strings \<open>strlen\<close> returns the length, and \<open>strcmp\<close> terminates with a
  result that is zero exactly for equal strings and negative exactly when the first comes first
  in the dictionary order of unsigned bytes.\<close>

lemma byte_cmp_less: "0 \<notin> set as \<Longrightarrow> 0 \<notin> set bs \<Longrightarrow>
  (byte_cmp as bs = 0 \<longleftrightarrow> as = bs) \<and> (byte_cmp as bs < 0 \<longleftrightarrow> as < bs)"
proof (induction as bs rule: byte_cmp.induct)
  case (2 b bs)
  then have "0 < uint b" by (auto simp: word_less_def word_neq_0_conv)
  then show ?case by simp
next
  case (3 a as)
  then have "0 < uint a" by (auto simp: word_less_def word_neq_0_conv)
  then show ?case by simp
next
  case (4 a as b bs)
  have "(uint a - uint b = 0) = (a = b)" using unsigned_word_eqI [of a b] by auto
  with 4 show ?case by (auto simp: word_less_def)
qed simp

theorem strings_compare:
  assumes "cstring m a as" "cstring m b bs"
  shows "rt_strlen m a = Some (of_nat (length as)) \<and>
    (\<exists>d. rt_strcmp m a b = Some d \<and> (d = 0 \<longleftrightarrow> as = bs) \<and> (d < 0 \<longleftrightarrow> as < bs))"
proof -
  have "0 \<notin> set as" "0 \<notin> set bs" using assms by (auto simp: cstring_def)
  with rt_strlen_spec [OF assms(1)] rt_strcmp_spec [OF assms] byte_cmp_less show ?thesis by blast
qed

text \<open>Witness: a string and its extension.\<close>

definition mem_ab :: memory where
  "mem_ab = (\<lambda>_. 0)(0x100 := 97, 0x200 := 97, 0x201 := 98)"

lemma strings_compare_witness: "\<exists>d < 0. rt_strlen mem_ab 0x200 = Some 2 \<and> rt_strcmp mem_ab 0x100 0x200 = Some d"
proof -
  have a: "cstring mem_ab 0x100 [97]" and b: "cstring mem_ab 0x200 [97, 98]"
    by (simp_all add: cstring_def region_def bytes_at_def mem_ab_def)
  from strings_compare [OF a b] strings_compare [OF b b] show ?thesis by auto
qed

text \<open>\<open>strncpy\<close> fills exactly \<open>n\<close> bytes: the first \<open>n\<close> characters, padded with zeros (so a
  source of \<open>n\<close> or more characters is not terminated).\<close>

theorem strncpy_fills:
  assumes "cstring m s bs" "region d (unat n)" "disjoint_regions d (unat n) s (Suc (length bs))"
  shows "bytes_at (snd (rt_strncpy d s n m)) d (unat n) = take (unat n) (bs @ replicate (unat n) 0) \<and>
    (\<forall>x. \<not> inside d (unat n) x \<longrightarrow> snd (rt_strncpy d s n m) x = m x)"
  using rt_strncpy_spec [OF assms, of "fst (rt_strncpy d s n m)" "snd (rt_strncpy d s n m)"] by simp

text \<open>Witness: a longer and a shorter bound.\<close>

lemma strncpy_fills_witness:
  "bytes_at (snd (rt_strncpy 0x300 0x200 4 mem_ab)) 0x300 4 = [97, 98, 0, 0] \<and>
   bytes_at (snd (rt_strncpy 0x300 0x200 2 mem_ab)) 0x300 2 = [97, 98]"
proof -
  have b: "cstring mem_ab 0x200 [97, 98]" by (simp add: cstring_def region_def bytes_at_def mem_ab_def)
  have pads: "replicate 4 (0 :: uint8) = [0, 0, 0, 0]" "replicate 2 (0 :: uint8) = [0, 0]"
    by (simp_all add: numeral_eq_Suc)
  have 4: "bytes_at (snd (rt_strncpy 0x300 0x200 4 mem_ab)) 0x300 (unat (4 :: uint32)) = [97, 98, 0, 0]"
    using strncpy_fills [OF b, of "0x300" 4] by (simp add: region_def disjoint_regions_def pads)
  have 2: "bytes_at (snd (rt_strncpy 0x300 0x200 2 mem_ab)) 0x300 (unat (2 :: uint32)) = [97, 98]"
    using strncpy_fills [OF b, of "0x300" 2] by (simp add: region_def disjoint_regions_def pads)
  from 4 2 show ?thesis by simp
qed

section \<open>Input\<close>

text \<open>C29: While the clock runs, \<open>uart_getc\<close> returns as soon as the terminal has a byte to give:
  it delivers the first undelivered byte and leaves the rest.\<close>

theorem getc_delivers:
  assumes "soc_run (soc0 f, h) ops bs s" "rx_bytes s = b # rest"
  shows "\<exists>s'. uart_getc ticked s = Some (Inr (uint b, s')) \<and> sys_inv s' \<and> rx_bytes s' = rest"
  by (rule getc_returns [OF run_sys_inv [OF assms(1) sys_inv_soc0] assms(2)])

text \<open>Witness: two silent polls before the byte.\<close>

lemma getc_delivers_witness:
  "\<exists>s'. uart_getc ticked (soc0 None, host0\<lparr>h_stdin := [None, None, Some 65, Some 66]\<rparr>) = Some (Inr (65, s')) \<and>
     rx_bytes s' = [66]"
proof -
  have "rx_bytes (soc0 None, host0\<lparr>h_stdin := [None, None, Some 65, Some 66]\<rparr>) = [65, 66]"
    by (simp add: rx_bytes_def rx_stream_def stdin_bytes_def soc0_def List.map_filter_simps)
  from getc_delivers [OF soc_run.stop this] show ?thesis by auto
qed

section \<open>The allocator\<close>

text \<open>C24: A client that releases only blocks it holds, and whose requests are not empty and so small
  that no address past them wraps (\<open>request_ok\<close>: the end of the heap plus the size plus 3 stays
  below \<open>2 ^ 32\<close>; what the others do is C39): after any run of such requests and releases the
  blocks it holds are aligned, lie inside the heap and are pairwise disjoint; when it holds none
  the bump pointer is back at the start.\<close>

theorem malloc_blocks_disjoint:
  assumes "heap_bounds sheap eheap" "heap_run sheap eheap (heap0, []) ops (h, bs)"
  shows "(\<forall>i j. i < j \<and> j < length bs \<longrightarrow> apart_blocks (bs ! i) (bs ! j)) \<and>
    (\<forall>b \<in> set bs. unat sheap \<le> fst b \<and> fst b + snd b \<le> unat eheap \<and> fst b mod 4 = 0) \<and>
    (bs = [] \<longrightarrow> heap_ptr (heap_init_if_needed sheap h) = sheap)"
  using inv_blocks [OF run_heap_inv [OF assms(2,1) heap_inv0 [OF assms(1)]]] by blast

text \<open>Witness: two blocks, the first released.\<close>

lemma malloc_example:
  "rt_malloc 0x80010000 0x80020000 5 heap0 = (0x80010000, \<lparr>heap_ptr = 0x80010008, allocated_cnt = 1\<rparr>)"
  "rt_malloc 0x80010000 0x80020000 1 \<lparr>heap_ptr = 0x80010008, allocated_cnt = 1\<rparr> =
     (0x80010008, \<lparr>heap_ptr = 0x8001000C, allocated_cnt = 2\<rparr>)"
  by (simp_all add: rt_malloc_def heap0_def heap_init_if_needed_def Let_def)

lemma malloc_example_run:
  "heap_run 0x80010000 0x80020000 (heap0, []) [Malloc 5, Malloc 1]
     (\<lparr>heap_ptr = 0x8001000C, allocated_cnt = 2\<rparr>, [(0x80010000, 5), (0x80010008, 1)])"
proof -
  have 1: "heap_step 0x80010000 0x80020000 (heap0, []) (Malloc 5)
      (\<lparr>heap_ptr = 0x80010008, allocated_cnt = 1\<rparr>, [(0x80010000, 5)])"
    using granted [OF malloc_example(1), of "[]"] by (simp add: request_ok_def)
  have 2: "heap_step 0x80010000 0x80020000 (\<lparr>heap_ptr = 0x80010008, allocated_cnt = 1\<rparr>, [(0x80010000, 5)]) (Malloc 1)
      (\<lparr>heap_ptr = 0x8001000C, allocated_cnt = 2\<rparr>, [(0x80010000, 5), (0x80010008, 1)])"
    using granted [OF malloc_example(2), of "[(0x80010000, 5)]"] by (simp add: request_ok_def)
  show ?thesis by (rule more [OF 1 more [OF 2 none]])
qed

lemma heap_bounds_example: "heap_bounds 0x80010000 0x80020000"
  by (simp add: heap_bounds_def)

lemma malloc_blocks_disjoint_witness: "apart_blocks (0x80010000, 5) (0x80010008, 1)"
  using malloc_blocks_disjoint [OF heap_bounds_example malloc_example_run] by fastforce

text \<open>C25: The answer to a request of any size after any run of such a client: \<open>NULL\<close>, with nothing
  allocated, exactly when the bump pointer plus the rounded size, both sums taken in 32 bits,
  lies past the end of the heap.  For a request that is not empty and small enough that neither
  sum wraps (\<open>request_ok\<close>; see C39 for the others) this is the case exactly when the rounded size
  does not fit, and a block that is granted lies in the heap, apart from every block held.\<close>

theorem malloc_answers:
  assumes "heap_bounds sheap eheap" "heap_run sheap eheap (heap0, []) ops (h, bs)"
    and "rt_malloc sheap eheap sz h = (p, h')"
  shows "(p = 0) = (unat eheap <
      (unat (heap_ptr (heap_init_if_needed sheap h)) + 4 * ((unat sz + 3) mod 2 ^ 32 div 4)) mod 2 ^ 32) \<and>
    (p = 0 \<longrightarrow> h' = heap_init_if_needed sheap h) \<and>
    (request_ok eheap sz \<longrightarrow>
      (p = 0) = (unat eheap < unat (heap_ptr (heap_init_if_needed sheap h)) + round4 (unat sz)) \<and>
      (p \<noteq> 0 \<longrightarrow> (\<forall>b \<in> set bs. apart_blocks b (unat p, unat sz)) \<and> unat sheap \<le> unat p \<and> unat p + unat sz \<le> unat eheap))"
proof -
  have i: "heap_inv sheap eheap (h, bs)" by (rule run_heap_inv [OF assms(2,1) heap_inv0 [OF assms(1)]])
  have exact: "(p = 0) = (unat eheap <
      (unat (heap_ptr (heap_init_if_needed sheap h)) + 4 * ((unat sz + 3) mod 2 ^ 32 div 4)) mod 2 ^ 32)"
    "p = 0 \<Longrightarrow> h' = heap_init_if_needed sheap h"
    using malloc_null_iff [OF assms(1) i assms(3)] by blast+
  have a: "\<forall>b \<in> set bs. apart_blocks b (unat p, unat sz)" "unat p + unat sz \<le> unat eheap" "unat sheap \<le> unat p"
    if "p \<noteq> 0" "request_ok eheap sz"
  proof -
    have n: "heap_inv sheap eheap (h', bs @ [(unat p, unat sz)])"
      using malloc_inv [OF assms(1) i that(2) assms(3)] that by simp
    have "i < length bs \<Longrightarrow> apart_blocks (bs ! i) (unat p, unat sz)" for i
      using inv_blocks(1) [OF n, of i "length bs"] by (simp add: nth_append)
    then show "\<forall>b \<in> set bs. apart_blocks b (unat p, unat sz)" by (metis in_set_conv_nth)
    show "unat p + unat sz \<le> unat eheap" "unat sheap \<le> unat p"
      using inv_blocks(2) [OF n, of "(unat p, unat sz)"] by simp_all
  qed
  have "(p = 0) = (unat eheap < unat (heap_ptr (heap_init_if_needed sheap h)) + round4 (unat sz))"
    if "request_ok eheap sz"
    using malloc_cases [OF assms(1) i that] assms(3) by (auto split: if_splits)
  with exact a show ?thesis by blast
qed

text \<open>Witness: a third request that does not fit.\<close>

lemma malloc_answers_witness: "fst (rt_malloc 0x80010000 0x80020000 0x10000 \<lparr>heap_ptr = 0x8001000C, allocated_cnt = 2\<rparr>) = 0"
proof -
  obtain p h' where m: "rt_malloc 0x80010000 0x80020000 0x10000 \<lparr>heap_ptr = 0x8001000C, allocated_cnt = 2\<rparr> = (p, h')"
    by fastforce
  from malloc_answers [OF heap_bounds_example malloc_example_run m] show ?thesis
    by (simp add: m request_ok_def heap_init_if_needed_def round4_def)
qed



text \<open>\<open>free(NULL)\<close> is not a no-op: with one block held it releases the heap, and the same
  request receives the same block again.\<close>

theorem free_null_releases:
  assumes "sheap \<noteq> 0" "rt_malloc sheap eheap sz heap0 = (p, h)" "p \<noteq> 0"
  shows "p = sheap \<and> rt_malloc sheap eheap sz (rt_free sheap 0 h) = (p, h)"
  using assms
  by (auto simp: rt_malloc_def rt_free_def heap0_def heap_init_if_needed_def Let_def split: if_splits)

text \<open>Witness: five bytes.\<close>

lemma free_null_releases_witness:
  "fst (rt_malloc 0x80010000 0x80020000 5 (rt_free 0x80010000 0 \<lparr>heap_ptr = 0x80010008, allocated_cnt = 1\<rparr>)) = 0x80010000"
  using free_null_releases [OF _ malloc_example(1)] by simp

section \<open>The demo firmware\<close>

text \<open>The external-interrupt handler: it never fails in a reachable SoC, drops the interrupt
  wire, leaves the receive buffer and the other devices as they are, and gives the semaphore
  exactly when the receive bit was pending and the semaphore exists.\<close>

theorem isr_acknowledges:
  assumes "sys_inv (world s)"
  shows "\<exists>s'. app_irq_handler k mcause_mei s = Inr s' \<and> sys_inv (world s') \<and>
    \<not> SnakeSoC_meip_wire (fst (world s')) \<and> uart (fst (world s')) = uart (fst (world s)) \<and>
    clint (fst (world s')) = clint (fst (world s)) \<and> dram (fst (world s')) = dram (fst (world s)) \<and>
    snd (world s') = snd (world s) \<and>
    ker s' = (if pending (irq_agg (fst (world s))) = 1 \<and> uart_rx_sem s
              then yield_isr k (fst (sem_give_isr k (ker s))) (snd (sem_give_isr k (ker s)))
              else yield_isr k False (ker s))"
  using with_irq_inv [OF assms, of "(irq_agg (fst (world s)))\<lparr>pending := 0\<rparr>"] sys_inv_irq [OF assms]
  by (simp add: isr_mei_eq [OF assms] Let_def SnakeSoC_meip_wire_def IrqAgg_meip_def with_irq_def
      split: prod.split)

text \<open>A kernel whose state is one binary semaphore, for the instances.\<close>

definition sem_rtos :: "bool rtos" where
  "sem_rtos = \<lparr>sem_create = (\<lambda>q. (True, False)), sem_give_isr = (\<lambda>q. (True, True)),
     sem_take = (\<lambda>q. (q, False)), task_create = (\<lambda>code name stack pv prio q. (True, q)), task_delay = (\<lambda>t q. q),
     ms_to_ticks = (\<lambda>n. n), yield_isr = (\<lambda>w q. q), mask_irqs = (\<lambda>q. q), scheduler = Inr\<rparr>"

lemma sem_rtos_laws: "sem_laws sem_rtos (\<lambda>q. q)"
  by (simp add: sem_laws_def sem_rtos_def)

definition fw0 :: "host \<Rightarrow> bool fw" where
  "fw0 h = \<lparr>world = (soc0 None, h), ker = False, uart_rx_sem = False, yield_count = 0, mtvec = 0\<rparr>"

lemma fw0_inv: "sys_inv (world (fw0 h))" "rx_valid (uart (fst (world (fw0 h)))) = False"
  by (simp_all add: fw0_def sys_inv_soc0 soc0_memmap)

text \<open>Witness: the handler on a pending bit, with the semaphore created.\<close>

lemma isr_acknowledges_witness:
  "\<exists>s'. app_irq_handler sem_rtos mcause_mei ((fw0 host0)\<lparr>world := with_irq \<lparr>pending = 1, enable = 1,
       uart_rx_edge = False\<rparr> (soc0 None, host0), uart_rx_sem := True\<rparr>) = Inr s' \<and>
     ker s' \<and> \<not> SnakeSoC_meip_wire (fst (world s'))"
proof -
  let ?s = "(fw0 host0)\<lparr>world := with_irq \<lparr>pending = 1, enable = 1, uart_rx_edge = False\<rparr> (soc0 None, host0),
    uart_rx_sem := True\<rparr>"
  have "sys_inv (world ?s)" using with_irq_inv [OF sys_inv_soc0] by simp
  from isr_acknowledges [OF this, of sem_rtos] show ?thesis
    by (auto simp: with_irq_def sem_rtos_def)
qed

text \<open>No wakeup is lost: once reception is enabled on an empty buffer, in every interleaving
  of ticks, terminal input, interrupt handlers, printing tasks and the receiving task, a byte in
  the buffer always has its interrupt raised, its semaphore given, or the task already draining.
  The hypothesis states what the kernel promises of a binary semaphore.\<close>

theorem rx_no_lost_wakeup:
  assumes "sem_laws k avail" "sys_inv (world s0)" "\<not> UART_rx_valid (uart (fst (world s0)))"
    and "enable_uart_rx_irq s0 = Inr s" "(fw_step k)\<^sup>*\<^sup>* (s\<lparr>uart_rx_sem := True\<rparr>, Waiting, n, cn) (s', ph, n', cn')"
    and "UART_rx_valid (uart (fst (world s')))"
  shows "SnakeSoC_meip_wire (fst (world s')) \<or> avail (ker s') \<or> ph = Draining"
proof -
  have "rx_ready avail (s', ph, n', cn')"
    using fw_run_ready [OF assms(5,1)] enable_ready [OF assms(2) _ assms(4)] assms(3) by (simp add: UART_rx_valid_def)
  then show ?thesis using assms(6) meip_iff [of "world s'"] by (auto simp: rx_ready_def UART_rx_valid_def)
qed

text \<open>Witness: one byte arrives.\<close>

lemma rx_no_lost_wakeup_witness:
  "\<exists>s'. (fw_step sem_rtos)\<^sup>*\<^sup>* ((fw0 host0)\<lparr>world := with_irq \<lparr>pending = 0, enable = 1, uart_rx_edge = False\<rparr>
       (soc0 None, host0\<lparr>h_stdin := [Some 65]\<rparr>), uart_rx_sem := True\<rparr>, Waiting, 0, \<lambda>_. 0) (s', Waiting, 0, \<lambda>_. 0) \<and>
     rx_byte (uart (fst (world s'))) = 65 \<and> (SnakeSoC_meip_wire (fst (world s')) \<or> ker s')"
proof -
  let ?init = "fw0 (host0\<lparr>h_stdin := [Some 65]\<rparr>)"
  let ?w = "with_irq \<lparr>pending = 0, enable = 1, uart_rx_edge = False\<rparr> (world ?init)"
  let ?s = "?init\<lparr>world := ?w\<rparr>" and ?s' = "?init\<lparr>uart_rx_sem := True, world := ticked ?w\<rparr>"
  have e: "enable_uart_rx_irq ?init = Inr ?s" by (rule enable_eq) (rule fw0_inv)
  have t: "soc_tick ?w = Inr (ticked ?w)"
    by (rule soc_tick_ticked) (simp add: with_irq_def fw0_def soc0_def)
  have "fw_step sem_rtos (?s\<lparr>uart_rx_sem := True\<rparr>, Waiting, 0, \<lambda>_. 0) (?s', Waiting, 0, \<lambda>_. 0)"
    using fw_tick [of "?s\<lparr>uart_rx_sem := True\<rparr>" "ticked ?w"] t by simp
  then have r: "(fw_step sem_rtos)\<^sup>*\<^sup>* (?s\<lparr>uart_rx_sem := True\<rparr>, Waiting, 0, \<lambda>_. 0) (?s', Waiting, 0, \<lambda>_. 0)"
    by (rule r_into_rtranclp)
  have v: "rx_valid (uart (fst (ticked ?w)))" "rx_byte (uart (fst (ticked ?w))) = 65"
    using ticked_receive [of ?w 65 "[]"] by (simp_all add: with_irq_def fw0_def soc0_def)
  have nv: "\<not> UART_rx_valid (uart (fst (world ?init)))" by (simp add: fw0_def soc0_def UART_rx_valid_def)
  have "SnakeSoC_meip_wire (fst (world ?s')) \<or> ker ?s' \<or> Waiting = Draining"
    by (rule rx_no_lost_wakeup [OF sem_rtos_laws fw0_inv(1) nv e r]) (simp add: v UART_rx_valid_def)
  moreover have "world ?init = (soc0 None, host0\<lparr>h_stdin := [Some 65]\<rparr>)"
    "?init\<lparr>world := ?w, uart_rx_sem := True\<rparr> = (fw0 host0)\<lparr>world := ?w, uart_rx_sem := True\<rparr>"
    by (simp_all add: fw0_def)
  ultimately show ?thesis using r v by (intro exI [of _ ?s']) simp
qed

text \<open>C31: A byte that is in the buffer when reception is enabled is never signalled: enabling
  clears its pending bit without emptying the buffer, and as long as nothing pops the buffer the
  interrupt wire stays low, whatever else happens.\<close>

theorem stale_byte_never_signalled:
  assumes "sys_inv (world s)" "UART_rx_valid (uart (fst (world s)))" "enable_uart_rx_irq s = Inr s1"
    and "soc_run (world s1) ops bs w" "list_all (\<lambda>op. \<not> pops op) ops"
  shows "UART_rx_valid (uart (fst w)) \<and> \<not> SnakeSoC_meip_wire (fst w)"
proof -
  have s1: "world s1 = with_irq \<lparr>pending = 0, enable = 1, uart_rx_edge = False\<rparr> (world s)"
    using enable_eq [OF assms(1)] assms(3) by auto
  have "sys_inv (world s1)" unfolding s1 by (rule with_irq_inv [OF assms(1)]) simp_all
  from run_stale [OF assms(4) this assms(5)] s1 assms(2)
  show ?thesis by (simp add: UART_rx_valid_def with_irq_def SnakeSoC_meip_wire_def IrqAgg_meip_def)
qed

text \<open>Witness: a byte typed before the firmware enables reception; five ticks later it is still
  in the buffer and the wire is low.\<close>

lemma stale_byte_never_signalled_witness:
  "\<exists>s1. enable_uart_rx_irq ((fw0 host0)\<lparr>world := ticked (soc0 None, host0\<lparr>h_stdin := [Some 65]\<rparr>)\<rparr>) = Inr s1 \<and>
     \<not> SnakeSoC_meip_wire (fst ((ticked ^^ 5) (world s1)))"
proof -
  let ?w = "(soc0 None, host0\<lparr>h_stdin := [Some 65]\<rparr>)"
  let ?s = "(fw0 host0)\<lparr>world := ticked ?w\<rparr>"
  have i: "sys_inv (world ?s)" using ticked_sys_inv [OF sys_inv_soc0] by simp
  have v: "UART_rx_valid (uart (fst (world ?s)))"
    using ticked_receive [of ?w 65 "[]"] by (simp add: UART_rx_valid_def soc0_def)
  obtain s1 where e: "enable_uart_rx_irq ?s = Inr s1" using enable_eq [OF i] by blast
  then have "ticker (fst (world s1)) = soc_ticker"
    using enable_eq [OF i] i by (auto simp: with_irq_def sys_inv_def)
  from stale_byte_never_signalled [OF i v e run_ticks [OF this, of 5]] e show ?thesis
    by (auto simp: list_all_iff)
qed

text \<open>C30: The receiving task's loop ends: with the clock running it drains the buffer, prints one
  line per byte taken, and leaves the buffer empty, so that the next byte raises a new edge.  The
  lines count the events but do not show the bytes.\<close>

theorem rx_drain_empties:
  assumes "sys_inv (world s)" "out_ok f (world s)"
  shows "\<exists>n s'. rx_drain tick_world evt s = Some (Inr (evt + of_nat n, s')) \<and>
    \<not> UART_rx_valid (uart (fst (world s'))) \<and> rx_bytes (world s') = drop n (rx_bytes (world s)) \<and>
    n \<le> length (rx_bytes (world s)) \<and> (UART_rx_valid (uart (fst (world s))) \<longrightarrow> 0 < n) \<and>
    h_out (snd (world s')) f = h_out (snd (world s)) f @ rx_lines evt n"
  using rx_drain_ends [OF assms, of evt] by (auto simp: drained_def UART_rx_valid_def)

text \<open>Witness: a byte in the buffer and none behind it.\<close>

lemma rx_drain_empties_witness:
  "\<exists>s'. rx_drain tick_world 7 ((fw0 host0)\<lparr>world := ticked (soc0 None, host0\<lparr>h_stdin := [Some 65]\<rparr>)\<rparr>) =
       Some (Inr (8, s')) \<and> h_out (snd (world s')) Stdout = lit ''[RX] event 7 byte=0x%02x'' @ [10]"
proof -
  let ?w = "(soc0 None, host0\<lparr>h_stdin := [Some 65]\<rparr>)"
  let ?s = "(fw0 host0)\<lparr>world := ticked ?w\<rparr>"
  have i: "sys_inv (world ?s)" using ticked_sys_inv [OF sys_inv_soc0] by simp
  have o: "out_ok Stdout (world ?s)" "h_out (snd (world ?s)) Stdout = []"
    using ticked_out_ok [of Stdout ?w] by (simp_all add: out_ok_def soc0_def)
  have v: "UART_rx_valid (uart (fst (world ?s)))"
    using ticked_receive [of ?w 65 "[]"] by (simp add: UART_rx_valid_def soc0_def)
  have "rx_bytes (world ?s) = [65]"
    by (simp add: tick_rx) (simp add: rx_bytes_def rx_stream_def stdin_bytes_def soc0_def List.map_filter_simps)
  with rx_drain_empties [OF i o(1), of 7] v o(2) obtain n s' where
    "rx_drain tick_world 7 ?s = Some (Inr (7 + of_nat n, s'))" "n = 1" "h_out (snd (world s')) Stdout = rx_lines 7 n"
    by fastforce
  then show ?thesis by (simp add: rx_line_def lit_def dec_text_def digits.simps ascii_digit_def)
qed

end
