(* ===== verification/AppFine.thy ===== *)
theory AppFine
  imports AppRtos
begin

text \<open>
  The receive path of the firmware at the granularity of single bus accesses: the handler is
  three steps (load the pending word, give the semaphore, acknowledge), a turn of the draining
  loop is three and the bytes of its line, a line of a printing task is its bytes, and the clock,
  the terminal and, between the tasks' steps, the handler may run anywhere in between.  The
  tasks may preempt each other between any two of their steps.  Composed without interleaving
  the steps are the handler, the turn and the line of \<open>AppRtos\<close>.
\<close>

subsection \<open>The steps\<close>

definition isr_load :: "'k fw \<Rightarrow> fault + (uint32 \<times> 'k fw)" where
  "isr_load s = bind_res (mmio_lw APP_IRQ_AGG_PENDING (world s)) (\<lambda>(p, w). Inr (p, s\<lparr>world := w\<rparr>))"

definition isr_give :: "'k rtos \<Rightarrow> uint32 \<Rightarrow> 'k fw \<Rightarrow> bool \<times> 'k fw" where
  "isr_give k p s =
     (if p AND IRQ_BIT_UART_RX \<noteq> 0 \<and> uart_rx_sem s
      then (let (wk, q) = sem_give_isr k (ker s) in (wk, s\<lparr>ker := q\<rparr>)) else (False, s))"

definition isr_ack :: "uint32 \<Rightarrow> 'k fw \<Rightarrow> fault + 'k fw" where
  "isr_ack p s = app_sw APP_IRQ_AGG_PENDING p s"

definition rx_status :: "'k fw \<Rightarrow> fault + (bool \<times> 'k fw)" where
  "rx_status s = bind_res (mmio_lw HAL_UART_STATUS (world s)) (\<lambda>(st, w).
     Inr (st AND UART_STATUS_RX_VALID \<noteq> 0, s\<lparr>world := w\<rparr>))"

definition rx_peek :: "'k fw \<Rightarrow> fault + (uint8 \<times> 'k fw)" where
  "rx_peek s = bind_res (mmio_lw HAL_UART_RX_DATA (world s)) (\<lambda>(v, w).
     Inr (ucast (v AND 0xFF), s\<lparr>world := w\<rparr>))"

definition rx_pop :: "'k fw \<Rightarrow> fault + 'k fw" where
  "rx_pop s = app_sw HAL_UART_STATUS UART_STATUS_RX_VALID s"

definition rx_print :: "uint32 \<Rightarrow> uint8 \<Rightarrow> 'k fw \<Rightarrow> fault + 'k fw" where
  "rx_print evt b s = app_printf rx_fmt [VInt evt, VInt (ucast b)] s"

definition app_putc :: "uint8 \<Rightarrow> 'k fw \<Rightarrow> fault + 'k fw" where
  "app_putc c s = bind_res (uart_putc c (world s)) (\<lambda>w. Inr (s\<lparr>world := w\<rparr>))"

definition chat_wait :: "'k rtos \<Rightarrow> uint8 list \<Rightarrow> 'k fw \<Rightarrow> 'k fw" where
  "chat_wait k tag s =
     (let period = (if (case tag of [] \<Rightarrow> 0 | c # _ \<Rightarrow> c) = of_char CHR ''A''
                    then ms_to_ticks k 5 else ms_to_ticks k 7)
      in s\<lparr>ker := task_delay k period (ker s)\<rparr>)"

lemma isr_composed:
  "app_isr_mei k s =
     bind_res (isr_load s) (\<lambda>(p, s). let (wk, s) = isr_give k p s in bind_res (isr_ack p s) (\<lambda>s. Inr (wk, s)))"
  by (cases "mmio_lw APP_IRQ_AGG_PENDING (world s)")
    (auto simp: app_isr_mei_def isr_load_def isr_give_def isr_ack_def Let_def split: prod.splits)

lemma turn_composed:
  "rx_turn evt s =
     bind_res (rx_status s) (\<lambda>(valid, s).
       if valid then bind_res (rx_peek s) (\<lambda>(b, s). bind_res (rx_pop s) (\<lambda>s.
         bind_res (rx_print evt b s) (\<lambda>s. Inr (True, evt + 1, s))))
       else Inr (False, evt, s))"
proof (cases "mmio_lw HAL_UART_STATUS (world s)")
  case (Inl e)
  then show ?thesis by (simp add: rx_turn_def rx_status_def uart_try_getc_def)
next
  case (Inr x)
  obtain st w where x: "x = (st, w)" by (cases x)
  note steps = rx_turn_def rx_status_def rx_peek_def rx_pop_def rx_print_def uart_try_getc_def uart_take_def app_sw_def
  show ?thesis
  proof (cases "st AND UART_STATUS_RX_VALID = 0")
    case True
    then show ?thesis by (simp add: steps Inr x)
  next
    case False
    then show ?thesis
      by (cases "mmio_lw HAL_UART_RX_DATA w";
          cases "mmio_sw HAL_UART_STATUS UART_STATUS_RX_VALID (snd (projr (mmio_lw HAL_UART_RX_DATA w)))")
        (auto simp: steps Inr x Let_def)
  qed
qed

lemma putc_composed:
  "bind_res (emit_str uart_putc bs (world s)) (\<lambda>w. Inr (s\<lparr>world := w\<rparr>)) = emit_str app_putc bs s"
proof (induction bs arbitrary: s)
  case (Cons b bs)
  show ?case
  proof (cases "uart_putc b (world s)")
    case (Inr w)
    then show ?thesis using Cons.IH [of "s\<lparr>world := w\<rparr>"] by (simp add: app_putc_def)
  qed (simp add: app_putc_def)
qed simp

lemma print_composed:
  "case render fmt args of Some bs \<Rightarrow> app_printf fmt args s = emit_str app_putc bs s
   | None \<Rightarrow> \<exists>e. app_printf fmt args s = Inl e"
proof (cases "render fmt args")
  case None
  with printf_from_prints [where fmt = fmt and args = args and pc = uart_putc and s = "world s"] show ?thesis
    by (auto simp: app_printf_def rt_printf_def)
next
  case (Some bs)
  with printf_from_prints [where fmt = fmt and args = args and pc = uart_putc and s = "world s"] show ?thesis
    by (simp add: app_printf_def rt_printf_def bind_assoc putc_composed)
qed

lemma chatty_composed:
  "chatty_body k tag n s =
     bind_res (app_printf chatty_fmt [VStr (Some tag), VInt n, VInt (yield_count s)] s)
       (\<lambda>s. Inr (n + 1, chat_wait k tag s))"
  by (simp add: chatty_body_def chat_wait_def Let_def)

text \<open>One byte: the stream gets it, and nothing else of the machine changes.\<close>

lemma app_putc_Inr:
  assumes "app_putc x s = Inr s'" "memmap (fst (world s)) = soc_map"
  obtains w where "s' = s\<lparr>world := w\<rparr>" "fst w = fst (world s)" "h_stdin (snd w) = h_stdin (snd (world s))"
    "h_out (snd w) (out_stream (fst w)) = h_out (snd (world s)) (out_stream (fst w)) @ [x]"
proof -
  obtain w where w: "uart_putc x (world s) = Inr w" "s' = s\<lparr>world := w\<rparr>"
    using assms(1) by (auto simp: app_putc_def res_simps)
  have "h_out (snd w) (out_stream (fst w)) = h_out (snd (world s)) (out_stream (fst w)) @ [x]"
    using w(1) assms(2)
    by (cases "world s") (auto simp: uart_putc_def mmio_sw_def hal_consts soc_write_def MemoryMap_write_def uart_unit
      MmioDevice_write_def vtbl_defs lift_write_def lens_defs UART_MmioDevice_write_def uart_consts host_fputc_def
      low_byte out_stream_def res_simps Let_def split: option.splits list.splits bool.splits if_splits)
  then show thesis using that w putc_keeps [OF w(1) assms(2)] by blast
qed

subsection \<open>Interleaving\<close>

datatype isr_pc = IsrIdle | IsrGive uint32 | IsrAck uint32 bool
datatype task_pc = TaskWait | TaskStatus | TaskPeek | TaskPop uint8 | TaskPrint "uint8 list"
datatype speaker = RxTask | Chatty "uint8 list"

text \<open>The firmware with the program points of the handler, the receiving task and the printing
  tasks (by tag: between two turns, or with the bytes still to be written), the counters of the
  tasks, and five histories: the bytes the terminal has delivered, those the task has taken, the
  yield counts each printing task has read, the text each task has begun to print, and every byte
  written together with its task.\<close>

record 'k fine =
  fw_state :: "'k fw"
  isr_at :: isr_pc
  task_at :: task_pc
  chat_at :: "uint8 list \<Rightarrow> uint8 list option"
  chat_n :: "uint8 list \<Rightarrow> uint32"
  events :: uint32
  delivered :: "uint8 list"
  consumed :: "uint8 list"
  yields :: "uint8 list \<Rightarrow> uint32 list"
  spoken :: "speaker \<Rightarrow> uint8 list"
  heard :: "(speaker \<times> uint8) list"

definition speak :: "speaker \<Rightarrow> uint8 list \<Rightarrow> 'k fine \<Rightarrow> 'k fine" where
  "speak p bs c = c\<lparr>spoken := (spoken c)(p := spoken c p @ bs)\<rparr>"

inductive fine_step :: "'k rtos \<Rightarrow> 'k fine \<Rightarrow> 'k fine \<Rightarrow> bool" for k where
  hw_tick: "soc_tick (world (fw_state c)) = Inr w \<Longrightarrow>
    fine_step k c (c\<lparr>fw_state := (fw_state c)\<lparr>world := w\<rparr>\<rparr>)"
| hw_input: "w = (fst (world (fw_state c)), (snd (world (fw_state c)))\<lparr>h_stdin := h_stdin (snd (world (fw_state c))) @ bs\<rparr>) \<Longrightarrow>
    fine_step k c (c\<lparr>fw_state := (fw_state c)\<lparr>world := w\<rparr>, delivered := delivered c @ List.map_filter id bs\<rparr>)"
| enter: "isr_at c = IsrIdle \<Longrightarrow> SnakeSoC_meip_wire (fst (world (fw_state c))) \<Longrightarrow> isr_load (fw_state c) = Inr (p, s) \<Longrightarrow>
    fine_step k c (c\<lparr>fw_state := s, isr_at := IsrGive p\<rparr>)"
| give: "isr_at c = IsrGive p \<Longrightarrow> isr_give k p (fw_state c) = (wk, s) \<Longrightarrow>
    fine_step k c (c\<lparr>fw_state := s, isr_at := IsrAck p wk\<rparr>)"
| ack: "isr_at c = IsrAck p wk \<Longrightarrow> isr_ack p (fw_state c) = Inr s \<Longrightarrow>
    fine_step k c (c\<lparr>fw_state := s\<lparr>ker := yield_isr k wk (ker s)\<rparr>, isr_at := IsrIdle\<rparr>)"
| soft: "isr_at c = IsrIdle \<Longrightarrow> SnakeSoC_msip_wire (fst (world (fw_state c))) \<Longrightarrow>
    app_irq_handler k mcause_msi (fw_state c) = Inr s \<Longrightarrow> fine_step k c (c\<lparr>fw_state := s\<rparr>)"
| chat_begin: "isr_at c = IsrIdle \<Longrightarrow> chat_at c tag = None \<Longrightarrow>
    render chatty_fmt [VStr (Some tag), VInt (chat_n c tag), VInt (yield_count (fw_state c))] = Some line \<Longrightarrow>
    fine_step k c (speak (Chatty tag) line (c\<lparr>chat_at := (chat_at c)(tag := Some line),
      chat_n := (chat_n c)(tag := chat_n c tag + 1), yields := (yields c)(tag := yields c tag @ [yield_count (fw_state c)])\<rparr>))"
| chat_char: "isr_at c = IsrIdle \<Longrightarrow> chat_at c tag = Some (x # xs) \<Longrightarrow> app_putc x (fw_state c) = Inr s \<Longrightarrow>
    fine_step k c (c\<lparr>fw_state := s, chat_at := (chat_at c)(tag := Some xs), heard := heard c @ [(Chatty tag, x)]\<rparr>)"
| chat_end: "isr_at c = IsrIdle \<Longrightarrow> chat_at c tag = Some [] \<Longrightarrow>
    fine_step k c (c\<lparr>fw_state := chat_wait k tag (fw_state c), chat_at := (chat_at c)(tag := None)\<rparr>)"
| task_take: "isr_at c = IsrIdle \<Longrightarrow> task_at c = TaskWait \<Longrightarrow> sem_take k (ker (fw_state c)) = (True, q) \<Longrightarrow>
    fine_step k c (c\<lparr>fw_state := (fw_state c)\<lparr>ker := q\<rparr>, task_at := TaskStatus\<rparr>)"
| task_status: "isr_at c = IsrIdle \<Longrightarrow> task_at c = TaskStatus \<Longrightarrow> rx_status (fw_state c) = Inr (valid, s) \<Longrightarrow>
    fine_step k c (c\<lparr>fw_state := s, task_at := if valid then TaskPeek else TaskWait\<rparr>)"
| task_peek: "isr_at c = IsrIdle \<Longrightarrow> task_at c = TaskPeek \<Longrightarrow> rx_peek (fw_state c) = Inr (b, s) \<Longrightarrow>
    fine_step k c (c\<lparr>fw_state := s, task_at := TaskPop b\<rparr>)"
| task_pop: "isr_at c = IsrIdle \<Longrightarrow> task_at c = TaskPop b \<Longrightarrow> rx_pop (fw_state c) = Inr s \<Longrightarrow>
    render rx_fmt [VInt (events c), VInt (ucast b)] = Some line \<Longrightarrow>
    fine_step k c (speak RxTask line
      (c\<lparr>fw_state := s, task_at := TaskPrint line, events := events c + 1, consumed := consumed c @ [b]\<rparr>))"
| task_char: "isr_at c = IsrIdle \<Longrightarrow> task_at c = TaskPrint (x # xs) \<Longrightarrow> app_putc x (fw_state c) = Inr s \<Longrightarrow>
    fine_step k c (c\<lparr>fw_state := s, task_at := TaskPrint xs, heard := heard c @ [(RxTask, x)]\<rparr>)"
| task_line: "isr_at c = IsrIdle \<Longrightarrow> task_at c = TaskPrint [] \<Longrightarrow> fine_step k c (c\<lparr>task_at := TaskStatus\<rparr>)"

text \<open>What holds between any two steps.  Of the kernel it needs only that no call but the taking of
  the semaphore makes it unavailable, which is true of every kernel when \<open>avail\<close> says nothing.\<close>

definition sem_keeps :: "'k rtos \<Rightarrow> ('k \<Rightarrow> bool) \<Rightarrow> bool" where
  "sem_keeps k avail \<longleftrightarrow>
     (\<forall>q. avail (snd (sem_give_isr k q))) \<and>
     (\<forall>b q. avail (yield_isr k b q) = avail q) \<and>
     (\<forall>t q. avail (task_delay k t q) = avail q)"

lemma sem_laws_keeps: "sem_laws k avail \<Longrightarrow> sem_keeps k avail"
  by (simp add: sem_laws_def sem_keeps_def)

lemma sem_keeps_any: "sem_keeps k (\<lambda>_. True)"
  by (simp add: sem_keeps_def)

definition isr_inv :: "('k \<Rightarrow> bool) \<Rightarrow> 'k fine \<Rightarrow> bool" where
  "isr_inv avail c \<longleftrightarrow>
     (case isr_at c of
        IsrIdle \<Rightarrow> rx_valid (uart (fst (world (fw_state c)))) \<longrightarrow>
          pending (irq_agg (fst (world (fw_state c)))) = 1 \<or> avail (ker (fw_state c)) \<or> task_at c \<noteq> TaskWait
      | IsrGive p \<Rightarrow> p = 1
      | IsrAck p wk \<Rightarrow> p = 1 \<and> avail (ker (fw_state c)))"

definition task_inv :: "'k fine \<Rightarrow> bool" where
  "task_inv c \<longleftrightarrow>
     (case task_at c of
        TaskPeek \<Rightarrow> rx_valid (uart (fst (world (fw_state c))))
      | TaskPop b \<Rightarrow> rx_valid (uart (fst (world (fw_state c)))) \<and> rx_byte (uart (fst (world (fw_state c)))) = b
      | _ \<Rightarrow> True)"

definition fine_inv :: "('k \<Rightarrow> bool) \<Rightarrow> 'k fine \<Rightarrow> bool" where
  "fine_inv avail c \<longleftrightarrow>
     sys_inv (world (fw_state c)) \<and> enable (irq_agg (fst (world (fw_state c)))) = 1 \<and> uart_rx_sem (fw_state c) \<and>
     isr_inv avail c \<and> task_inv c \<and> delivered c = consumed c @ rx_bytes (world (fw_state c))"

lemma fine_invD:
  assumes "fine_inv avail c"
  shows "sys_inv (world (fw_state c))" "enable (irq_agg (fst (world (fw_state c)))) = 1" "uart_rx_sem (fw_state c)"
    "isr_inv avail c" "task_inv c" "delivered c = consumed c @ rx_bytes (world (fw_state c))"
    "memmap (fst (world (fw_state c))) = soc_map"
  using assms by (auto simp: fine_inv_def sys_inv_def soc_inv_def)

lemma ticked_keeps_byte: "rx_valid (uart (fst w)) \<Longrightarrow> uart (fst (ticked w)) = uart (fst w)"
  by (simp add: ticked_def UART_Tickable_tick_def)

lemma fine_tick:
  assumes "fine_inv avail c" "soc_tick (world (fw_state c)) = Inr w"
  shows "fine_inv avail (c\<lparr>fw_state := (fw_state c)\<lparr>world := w\<rparr>\<rparr>)"
proof -
  note d = fine_invD [OF assms(1)]
  have w: "w = ticked (world (fw_state c))"
    using assms(2) d(1) soc_tick_ticked [of "world (fw_state c)"] by (simp add: sys_inv_def)
  have "isr_inv avail (c\<lparr>fw_state := (fw_state c)\<lparr>world := w\<rparr>\<rparr>)"
    using d(4) ticked_ready [OF d(1), of "avail (ker (fw_state c)) \<or> task_at c \<noteq> TaskWait"] w
    by (auto simp: isr_inv_def split: isr_pc.splits)
  moreover have "task_inv (c\<lparr>fw_state := (fw_state c)\<lparr>world := w\<rparr>\<rparr>)"
    using d(5) ticked_keeps_byte [of "world (fw_state c)"] w by (auto simp: task_inv_def split: task_pc.splits)
  ultimately show ?thesis
    using d ticked_sys_inv [OF d(1)] ticked_enable [of "world (fw_state c)"] tick_rx [of "world (fw_state c)"] w
    by (simp add: fine_inv_def)
qed

lemma fine_input:
  assumes "fine_inv avail c" "w = (fst (world (fw_state c)), (snd (world (fw_state c)))\<lparr>h_stdin := h_stdin (snd (world (fw_state c))) @ bs\<rparr>)"
  shows "fine_inv avail (c\<lparr>fw_state := (fw_state c)\<lparr>world := w\<rparr>, delivered := delivered c @ List.map_filter id bs\<rparr>)"
proof -
  note d = fine_invD [OF assms(1)]
  have "rx_bytes w = rx_bytes (world (fw_state c)) @ List.map_filter id bs"
    by (simp add: assms(2) rx_bytes_def rx_stream_def stdin_bytes_def map_filter_append)
  moreover have "isr_inv avail (c\<lparr>fw_state := (fw_state c)\<lparr>world := w\<rparr>, delivered := delivered c @ List.map_filter id bs\<rparr>)"
    using d(4) assms(2) by (auto simp: isr_inv_def split: isr_pc.splits)
  moreover have "task_inv (c\<lparr>fw_state := (fw_state c)\<lparr>world := w\<rparr>, delivered := delivered c @ List.map_filter id bs\<rparr>)"
    using d(5) assms(2) by (auto simp: task_inv_def split: task_pc.splits)
  ultimately show ?thesis
    using d sys_inv_cong [OF d(1), of w] assms(2) by (simp add: fine_inv_def)
qed

text \<open>The single accesses, on the registers.\<close>

lemma isr_load_eq: "memmap (fst (world s)) = soc_map \<Longrightarrow> isr_load s = Inr (pending (irq_agg (fst (world s))) AND 1, s)"
  by (simp add: isr_load_def lw_pending)

lemma isr_ack_eq: "memmap (fst (world s)) = soc_map \<Longrightarrow> isr_ack p s =
    Inr (s\<lparr>world := with_irq ((irq_agg (fst (world s)))\<lparr>pending := pending (irq_agg (fst (world s))) AND NOT (p AND 1)\<rparr>) (world s)\<rparr>)"
  by (simp add: isr_ack_def app_sw_def sw_pending with_irq_def)

lemma rx_status_eq: "memmap (fst (world s)) = soc_map \<Longrightarrow> rx_status s = Inr (rx_valid (uart (fst (world s))), s)"
  by (simp add: rx_status_def lw_status) (simp add: hal_consts)

lemma rx_peek_eq: "memmap (fst (world s)) = soc_map \<Longrightarrow> rx_valid (uart (fst (world s))) \<Longrightarrow>
    rx_peek s = Inr (rx_byte (uart (fst (world s))), s)"
  by (simp add: rx_peek_def lw_rx_data low_byte)

lemma rx_pop_eq: "memmap (fst (world s)) = soc_map \<Longrightarrow> rx_pop s = Inr (s\<lparr>world := uart_popped (world s)\<rparr>)"
  by (simp add: rx_pop_def app_sw_def sw_pop)

lemma fine_enter:
  assumes "fine_inv avail c" "SnakeSoC_meip_wire (fst (world (fw_state c)))" "isr_load (fw_state c) = Inr (p, s)"
  shows "fine_inv avail (c\<lparr>fw_state := s, isr_at := IsrGive p\<rparr>)"
proof -
  note d = fine_invD [OF assms(1)]
  have "p = 1" "s = fw_state c"
    using assms(3) isr_load_eq [OF d(7)] assms(2) meip_iff [OF d(1,2)] by auto
  moreover have "task_inv (c\<lparr>isr_at := IsrGive p\<rparr>)"
    using d(5) by (auto simp: task_inv_def split: task_pc.splits)
  ultimately show ?thesis using d by (simp add: fine_inv_def isr_inv_def)
qed

lemma fine_give:
  assumes "fine_inv avail c" "sem_keeps k avail" "isr_at c = IsrGive p" "isr_give k p (fw_state c) = (wk, s)"
  shows "fine_inv avail (c\<lparr>fw_state := s, isr_at := IsrAck p wk\<rparr>)"
proof -
  note d = fine_invD [OF assms(1)]
  obtain wk' q where g: "sem_give_isr k (ker (fw_state c)) = (wk', q)" by (metis surj_pair)
  have p: "p = 1" using d(4) assms(3) by (simp add: isr_inv_def)
  have s: "s = (fw_state c)\<lparr>ker := q\<rparr>" using assms(4) d(3) g p by (simp add: isr_give_def IRQ_BIT_UART_RX_def)
  have "avail q" using assms(2) g unfolding sem_keeps_def by (metis snd_conv)
  moreover have "task_inv (c\<lparr>fw_state := s, isr_at := IsrAck p wk\<rparr>)"
    using d(5) s by (auto simp: task_inv_def split: task_pc.splits)
  ultimately show ?thesis using d s p by (simp add: fine_inv_def isr_inv_def)
qed

lemma fine_ack:
  assumes "fine_inv avail c" "sem_keeps k avail" "isr_at c = IsrAck p wk" "isr_ack p (fw_state c) = Inr s"
  shows "fine_inv avail (c\<lparr>fw_state := s\<lparr>ker := yield_isr k wk (ker s)\<rparr>, isr_at := IsrIdle\<rparr>)"
proof -
  note d = fine_invD [OF assms(1)]
  let ?a = "(irq_agg (fst (world (fw_state c))))\<lparr>pending := 0\<rparr>"
  have p: "p = 1" "avail (ker (fw_state c))" using d(4) assms(3) by (simp_all add: isr_inv_def)
  have s: "s = (fw_state c)\<lparr>world := with_irq ?a (world (fw_state c))\<rparr>"
    using assms(4) isr_ack_eq [OF d(7), of p] p sys_inv_irq [OF d(1)] by auto
  have "sys_inv (with_irq ?a (world (fw_state c)))"
    using with_irq_inv [OF d(1)] sys_inv_irq [OF d(1)] by simp
  moreover have "task_inv (c\<lparr>fw_state := s\<lparr>ker := yield_isr k wk (ker s)\<rparr>, isr_at := IsrIdle\<rparr>)"
    using d(5) s by (auto simp: task_inv_def with_irq_def split: task_pc.splits)
  moreover have "isr_inv avail (c\<lparr>fw_state := s\<lparr>ker := yield_isr k wk (ker s)\<rparr>, isr_at := IsrIdle\<rparr>)"
    using p(2) s assms(2) by (simp add: isr_inv_def sem_keeps_def)
  ultimately show ?thesis
    using d s by (simp add: fine_inv_def with_irq_def rx_bytes_def)
qed

text \<open>A step that leaves the UART, the aggregator, the input and the semaphore as they are.\<close>

lemma fine_frame:
  assumes "fine_inv avail c" "sys_inv (world s)" "irq_agg (fst (world s)) = irq_agg (fst (world (fw_state c)))"
    "uart (fst (world s)) = uart (fst (world (fw_state c)))" "h_stdin (snd (world s)) = h_stdin (snd (world (fw_state c)))"
    "uart_rx_sem s = uart_rx_sem (fw_state c)" "avail (ker s) = avail (ker (fw_state c))"
  shows "fine_inv avail (c\<lparr>fw_state := s\<rparr>)"
proof -
  note d = fine_invD [OF assms(1)]
  have "isr_inv avail (c\<lparr>fw_state := s\<rparr>)"
    using d(4) assms by (auto simp: isr_inv_def split: isr_pc.splits)
  moreover have "task_inv (c\<lparr>fw_state := s\<rparr>)"
    using d(5) assms by (auto simp: task_inv_def split: task_pc.splits)
  ultimately show ?thesis using d assms by (simp add: fine_inv_def rx_bytes_def rx_stream_def stdin_bytes_def)
qed

lemma fine_soft:
  assumes "fine_inv avail c" "sem_keeps k avail" "app_irq_handler k mcause_msi (fw_state c) = Inr s"
  shows "fine_inv avail (c\<lparr>fw_state := s\<rparr>)"
proof -
  note d = fine_invD [OF assms(1)]
  have s: "s = (fw_state c)\<lparr>world := ((fst (world (fw_state c)))\<lparr>clint := (clint (fst (world (fw_state c))))\<lparr>msip := 0\<rparr>\<rparr>,
        snd (world (fw_state c))), yield_count := yield_count (fw_state c) + 1, ker := yield_isr k False (ker (fw_state c))\<rparr>"
    using assms(3) isr_msi_eq [OF d(7), of k] by simp
  have "sys_inv (world s)" using d(1) s by (simp add: sys_inv_def soc_inv_def clint_inv_def)
  from fine_frame [OF assms(1) this] show ?thesis using s assms(2) by (simp add: sem_keeps_def)
qed

text \<open>The histories and the printing tasks do not matter to the invariant.\<close>

lemma fine_inv_chat [simp]:
  "fine_inv avail (c\<lparr>chat_at := m\<rparr>) = fine_inv avail c"
  "fine_inv avail (c\<lparr>heard := h\<rparr>) = fine_inv avail c"
  "fine_inv avail (c\<lparr>events := n\<rparr>) = fine_inv avail c"
  "fine_inv avail (c\<lparr>chat_at := m, chat_n := cn, yields := ys\<rparr>) = fine_inv avail c"
  "fine_inv avail (speak p bs c) = fine_inv avail c"
  by (auto simp: fine_inv_def isr_inv_def task_inv_def speak_def split: isr_pc.splits task_pc.splits)

lemma fine_char:
  assumes "fine_inv avail c" "app_putc x (fw_state c) = Inr s"
  shows "fine_inv avail (c\<lparr>fw_state := s\<rparr>)"
proof -
  note d = fine_invD [OF assms(1)]
  obtain w where w: "s = (fw_state c)\<lparr>world := w\<rparr>" "fst w = fst (world (fw_state c))"
      "h_stdin (snd w) = h_stdin (snd (world (fw_state c)))"
    using app_putc_Inr [OF assms(2) d(7)] by blast
  show ?thesis using fine_frame [OF assms(1), of s] sys_inv_cong [OF d(1) w(2)] w by simp
qed

lemma fine_chat_char:
  assumes "fine_inv avail c" "app_putc x (fw_state c) = Inr s"
  shows "fine_inv avail (c\<lparr>fw_state := s, chat_at := m, heard := h\<rparr>)"
  using fine_char [OF assms] fine_inv_chat(1,2) by metis

lemma fine_chat_end:
  assumes "fine_inv avail c" "sem_keeps k avail"
  shows "fine_inv avail (c\<lparr>fw_state := chat_wait k tag (fw_state c), chat_at := m\<rparr>)"
proof -
  have "fine_inv avail (c\<lparr>fw_state := chat_wait k tag (fw_state c)\<rparr>)"
    using fine_frame [OF assms(1), of "chat_wait k tag (fw_state c)"] fine_invD(1) [OF assms(1)] assms(2)
    by (simp add: chat_wait_def sem_keeps_def Let_def)
  then show ?thesis using fine_inv_chat(1) by metis
qed

lemma fine_take:
  assumes "fine_inv avail c" "isr_at c = IsrIdle"
  shows "fine_inv avail (c\<lparr>fw_state := (fw_state c)\<lparr>ker := q\<rparr>, task_at := TaskStatus\<rparr>)"
  using fine_invD [OF assms(1)] assms(2) by (simp add: fine_inv_def isr_inv_def task_inv_def)

lemma fine_status:
  assumes "fine_inv avail c" "isr_at c = IsrIdle" "rx_status (fw_state c) = Inr (valid, s)"
  shows "fine_inv avail (c\<lparr>fw_state := s, task_at := if valid then TaskPeek else TaskWait\<rparr>)"
  using fine_invD [OF assms(1)] assms(2,3) rx_status_eq [of "fw_state c"]
  by (auto simp: fine_inv_def isr_inv_def task_inv_def)

lemma fine_peek:
  assumes "fine_inv avail c" "isr_at c = IsrIdle" "task_at c = TaskPeek" "rx_peek (fw_state c) = Inr (b, s)"
  shows "fine_inv avail (c\<lparr>fw_state := s, task_at := TaskPop b\<rparr>)"
  using fine_invD [OF assms(1)] assms(2-4) rx_peek_eq [of "fw_state c"]
  by (auto simp: fine_inv_def isr_inv_def task_inv_def)

lemma fine_pop:
  assumes "fine_inv avail c" "isr_at c = IsrIdle" "task_at c = TaskPop b" "rx_pop (fw_state c) = Inr s"
  shows "fine_inv avail (speak p bs (c\<lparr>fw_state := s, task_at := TaskPrint line, events := n, consumed := consumed c @ [b]\<rparr>))"
  using fine_invD [OF assms(1)] assms(2-4) rx_pop_eq [of "fw_state c"] popped_sys_inv [of "world (fw_state c)"]
    popped_rx [of "world (fw_state c)"]
  by (auto simp: fine_inv_def isr_inv_def task_inv_def speak_def)

lemma fine_task_char:
  assumes "fine_inv avail c" "isr_at c = IsrIdle" "app_putc x (fw_state c) = Inr s"
  shows "fine_inv avail (c\<lparr>fw_state := s, task_at := TaskPrint xs, heard := h\<rparr>)"
  using fine_char [OF assms(1,3)] assms(2) by (simp add: fine_inv_def isr_inv_def task_inv_def)

lemma fine_task_line:
  assumes "fine_inv avail c" "isr_at c = IsrIdle"
  shows "fine_inv avail (c\<lparr>task_at := TaskStatus\<rparr>)"
  using assms by (simp add: fine_inv_def isr_inv_def task_inv_def)

lemma fine_step_inv:
  assumes "fine_step k c c'" "sem_keeps k avail" "fine_inv avail c"
  shows "fine_inv avail c'"
  using assms(1)
proof cases
  case hw_tick
  then show ?thesis using fine_tick [OF assms(3)] by simp
next
  case hw_input
  then show ?thesis using fine_input [OF assms(3)] by simp
next
  case enter
  then show ?thesis using fine_enter [OF assms(3)] by simp
next
  case give
  then show ?thesis using fine_give [OF assms(3,2)] by simp
next
  case ack
  then show ?thesis using fine_ack [OF assms(3,2)] by simp
next
  case soft
  then show ?thesis using fine_soft [OF assms(3,2)] by simp
next
  case chat_begin
  then show ?thesis using assms(3) by simp
next
  case chat_char
  then show ?thesis using fine_chat_char [OF assms(3)] by simp
next
  case chat_end
  then show ?thesis using fine_chat_end [OF assms(3,2)] by simp
next
  case task_take
  then show ?thesis using fine_take [OF assms(3)] by simp
next
  case task_status
  then show ?thesis using fine_status [OF assms(3)] by simp
next
  case task_peek
  then show ?thesis using fine_peek [OF assms(3)] by simp
next
  case task_pop
  then show ?thesis using fine_pop [OF assms(3)] by simp
next
  case task_char
  then show ?thesis using fine_task_char [OF assms(3)] by simp
next
  case task_line
  then show ?thesis using fine_task_line [OF assms(3)] by simp
qed

lemma fine_run_keeps:
  "(fine_step k)\<^sup>*\<^sup>* c c' \<Longrightarrow> sem_keeps k avail \<Longrightarrow> fine_inv avail c \<Longrightarrow> fine_inv avail c'"
  by (induction rule: rtranclp_induct) (auto dest: fine_step_inv)

lemma fine_run_inv:
  "(fine_step k)\<^sup>*\<^sup>* c c' \<Longrightarrow> sem_laws k avail \<Longrightarrow> fine_inv avail c \<Longrightarrow> fine_inv avail c'"
  using fine_run_keeps sem_laws_keeps by blast

subsection \<open>The start\<close>

definition fine_start :: "uint32 \<Rightarrow> 'k fw \<Rightarrow> 'k fine" where
  "fine_start n s = \<lparr>fw_state = s\<lparr>uart_rx_sem := True\<rparr>, isr_at = IsrIdle, task_at = TaskWait, chat_at = (\<lambda>_. None),
     chat_n = (\<lambda>_. 0), events = n, delivered = rx_bytes (world s), consumed = [], yields = (\<lambda>_. []), spoken = (\<lambda>_. []), heard = []\<rparr>"

lemma fine_start_inv:
  assumes "sys_inv (world s)" "\<not> rx_valid (uart (fst (world s)))" "enable_uart_rx_irq s = Inr s1"
  shows "fine_inv avail (fine_start n s1)"
  using assms enable_eq [OF assms(1)] with_irq_inv [OF assms(1)]
  by (auto simp: fine_start_def fine_inv_def isr_inv_def task_inv_def with_irq_def)

end
