(* ===== verification/AppLive.thy ===== *)
theory AppLive
  imports AppFine
begin

text \<open>
  Progress of the receive path: from every point of the handler, the receiving task and the
  printing tasks there are steps, without further input, that take the byte in the buffer.
\<close>

text \<open>A state that holds the byte \<open>b\<close> in the receive buffer.\<close>

definition holding :: "('k \<Rightarrow> bool) \<Rightarrow> stream \<Rightarrow> uint8 \<Rightarrow> uint8 list \<Rightarrow> uint8 list \<Rightarrow> 'k fine \<Rightarrow> bool" where
  "holding avail f b cs ds c \<longleftrightarrow> fine_inv avail c \<and> rx_valid (uart (fst (world (fw_state c)))) \<and>
     rx_byte (uart (fst (world (fw_state c)))) = b \<and> out_ok f (world (fw_state c)) \<and> consumed c = cs \<and> delivered c = ds"

lemma holdingD:
  assumes "holding avail f b cs ds c"
  shows "fine_inv avail c" "rx_valid (uart (fst (world (fw_state c))))" "rx_byte (uart (fst (world (fw_state c)))) = b"
    "out_ok f (world (fw_state c))" "consumed c = cs" "delivered c = ds" "memmap (fst (world (fw_state c))) = soc_map"
  using assms fine_invD(7) by (auto simp: holding_def)

lemma holding_ack:
  assumes "sem_laws k avail" "holding avail f b cs ds c" "isr_at c = IsrAck p wk"
  shows "\<exists>c'. fine_step k c c' \<and> holding avail f b cs ds c' \<and> isr_at c' = IsrIdle \<and>
    task_at c' = task_at c \<and> avail (ker (fw_state c'))"
proof -
  note h = holdingD [OF assms(2)]
  have av: "avail (ker (fw_state c))" using fine_invD(4) [OF h(1)] assms(3) by (simp add: isr_inv_def)
  obtain s where s: "isr_ack p (fw_state c) = Inr s" using isr_ack_eq [OF h(7)] by blast
  have "fine_inv avail (c\<lparr>fw_state := s\<lparr>ker := yield_isr k wk (ker s)\<rparr>, isr_at := IsrIdle\<rparr>)"
    by (rule fine_ack [OF h(1) sem_laws_keeps [OF assms(1)] assms(3) s])
  then show ?thesis
    using fine_step.ack [OF assms(3) s, of k] h s isr_ack_eq [OF h(7), of p] av assms(1)
    by (intro exI [of _ "c\<lparr>fw_state := s\<lparr>ker := yield_isr k wk (ker s)\<rparr>, isr_at := IsrIdle\<rparr>"])
      (auto simp: holding_def with_irq_def out_ok_def sem_laws_def)
qed

lemma holding_give:
  assumes "sem_laws k avail" "holding avail f b cs ds c" "isr_at c = IsrGive p"
  shows "\<exists>c'. (fine_step k)\<^sup>*\<^sup>* c c' \<and> holding avail f b cs ds c' \<and> isr_at c' = IsrIdle \<and>
    task_at c' = task_at c \<and> avail (ker (fw_state c'))"
proof -
  note h = holdingD [OF assms(2)]
  obtain wk s where s: "isr_give k p (fw_state c) = (wk, s)" by (metis surj_pair)
  let ?c = "c\<lparr>fw_state := s, isr_at := IsrAck p wk\<rparr>"
  have "world s = world (fw_state c)" using s by (auto simp: isr_give_def Let_def split: prod.splits if_splits)
  with h fine_give [OF h(1) sem_laws_keeps [OF assms(1)] assms(3) s] have "holding avail f b cs ds ?c" by (simp add: holding_def)
  from holding_ack [OF assms(1) this] fine_step.give [OF assms(3) s]
  show ?thesis by (auto intro: converse_rtranclp_into_rtranclp)
qed

lemma holding_idle:
  assumes "sem_laws k avail" "holding avail f b cs ds c"
  shows "\<exists>c'. (fine_step k)\<^sup>*\<^sup>* c c' \<and> holding avail f b cs ds c' \<and> isr_at c' = IsrIdle"
proof (cases "isr_at c")
  case IsrIdle
  then show ?thesis using assms(2) by blast
next
  case (IsrGive p)
  then show ?thesis using holding_give [OF assms IsrGive] by blast
next
  case (IsrAck p wk)
  then show ?thesis using holding_ack [OF assms IsrAck] by blast
qed

lemma holding_pop:
  assumes "holding avail f b cs ds c" "isr_at c = IsrIdle" "task_at c = TaskPop b'"
  shows "\<exists>c'. fine_step k c c' \<and> consumed c' = cs @ [b] \<and> delivered c' = ds"
proof -
  note h = holdingD [OF assms(1)]
  have g: "b' = b" using fine_invD(5) [OF h(1)] assms(3) h(3) by (simp add: task_inv_def)
  note st = fine_step.task_pop [OF assms(2,3) rx_pop_eq [OF h(7)] rx_fmt_render, of k]
  show ?thesis by (rule exI, rule conjI, rule st) (simp add: speak_def g h(5,6))
qed

lemma holding_peek:
  assumes "holding avail f b cs ds c" "isr_at c = IsrIdle" "task_at c = TaskPeek"
  shows "\<exists>c'. (fine_step k)\<^sup>*\<^sup>* c c' \<and> consumed c' = cs @ [b] \<and> delivered c' = ds"
proof -
  note h = holdingD [OF assms(1)]
  note p = rx_peek_eq [OF h(7,2)]
  let ?c = "c\<lparr>fw_state := fw_state c, task_at := TaskPop (rx_byte (uart (fst (world (fw_state c)))))\<rparr>"
  have "holding avail f b cs ds ?c"
    using h fine_peek [OF h(1) assms(2,3) p] by (simp add: holding_def)
  from holding_pop [OF this, of _ k] fine_step.task_peek [OF assms(2,3) p, of k] assms(2)
  show ?thesis by (auto intro: converse_rtranclp_into_rtranclp)
qed

lemma holding_status:
  assumes "holding avail f b cs ds c" "isr_at c = IsrIdle" "task_at c = TaskStatus"
  shows "\<exists>c'. (fine_step k)\<^sup>*\<^sup>* c c' \<and> consumed c' = cs @ [b] \<and> delivered c' = ds"
proof -
  note h = holdingD [OF assms(1)]
  have p: "rx_status (fw_state c) = Inr (True, fw_state c)" using rx_status_eq [OF h(7)] h(2) by simp
  let ?c = "c\<lparr>fw_state := fw_state c, task_at := TaskPeek\<rparr>"
  have "holding avail f b cs ds ?c"
    using h fine_status [OF h(1) assms(2) p] by (simp add: holding_def)
  from holding_peek [OF this, of k] fine_step.task_status [OF assms(2,3) p, of k] assms(2)
  show ?thesis by (auto intro: converse_rtranclp_into_rtranclp)
qed

lemma app_putc_ok:
  assumes "out_ok f (world s)"
  shows "\<exists>w. app_putc x s = Inr (s\<lparr>world := w\<rparr>) \<and> fst w = fst (world s) \<and> out_ok f w"
  using assms by (auto simp: app_putc_def putc_eq out_ok_def)

lemma holding_char:
  assumes "holding avail f b cs ds c" "isr_at c = IsrIdle" "task_at c = TaskPrint (x # xs)"
  shows "\<exists>c'. fine_step k c c' \<and> holding avail f b cs ds c' \<and> isr_at c' = IsrIdle \<and> task_at c' = TaskPrint xs"
proof -
  note h = holdingD [OF assms(1)]
  obtain w where w: "app_putc x (fw_state c) = Inr ((fw_state c)\<lparr>world := w\<rparr>)" "fst w = fst (world (fw_state c))" "out_ok f w"
    using app_putc_ok [OF h(4)] by blast
  let ?c = "c\<lparr>fw_state := (fw_state c)\<lparr>world := w\<rparr>, task_at := TaskPrint xs, heard := heard c @ [(RxTask, x)]\<rparr>"
  have "holding avail f b cs ds ?c"
    using h w fine_task_char [OF h(1) assms(2) w(1)] by (simp add: holding_def)
  with fine_step.task_char [OF assms(2,3) w(1), of k] assms(2) show ?thesis by auto
qed

lemma holding_print:
  assumes "holding avail f b cs ds c" "isr_at c = IsrIdle" "task_at c = TaskPrint line"
  shows "\<exists>c'. (fine_step k)\<^sup>*\<^sup>* c c' \<and> holding avail f b cs ds c' \<and> isr_at c' = IsrIdle \<and> task_at c' = TaskStatus"
  using assms
proof (induction line arbitrary: c)
  case Nil
  then have "holding avail f b cs ds (c\<lparr>task_at := TaskStatus\<rparr>)"
    using fine_task_line [of avail c] by (simp add: holding_def)
  then show ?case using fine_step.task_line [OF Nil(2,3), of k] Nil(2) by (intro exI [of _ "c\<lparr>task_at := TaskStatus\<rparr>"]) auto
next
  case (Cons x xs)
  obtain c1 where c1: "fine_step k c c1" "holding avail f b cs ds c1" "isr_at c1 = IsrIdle" "task_at c1 = TaskPrint xs"
    using holding_char [OF Cons.prems] by blast
  from Cons.IH [OF c1(2-4)] c1(1) show ?case by (blast intro: converse_rtranclp_into_rtranclp)
qed

lemma holding_avail:
  assumes "sem_laws k avail" "holding avail f b cs ds c" "isr_at c = IsrIdle" "task_at c = TaskWait" "avail (ker (fw_state c))"
  shows "\<exists>c'. (fine_step k)\<^sup>*\<^sup>* c c' \<and> consumed c' = cs @ [b] \<and> delivered c' = ds"
proof -
  note h = holdingD [OF assms(2)]
  obtain q where q: "sem_take k (ker (fw_state c)) = (True, q)"
    using assms(1,5) unfolding sem_laws_def by (metis prod.collapse)
  let ?c = "c\<lparr>fw_state := (fw_state c)\<lparr>ker := q\<rparr>, task_at := TaskStatus\<rparr>"
  have "holding avail f b cs ds ?c"
    using h fine_take [OF h(1) assms(3), of q] by (simp add: holding_def)
  from holding_status [OF this, of k] fine_step.task_take [OF assms(3,4) q] assms(3)
  show ?thesis by (auto intro: converse_rtranclp_into_rtranclp)
qed

lemma holding_wait:
  assumes "sem_laws k avail" "holding avail f b cs ds c" "isr_at c = IsrIdle" "task_at c = TaskWait"
  shows "\<exists>c'. (fine_step k)\<^sup>*\<^sup>* c c' \<and> consumed c' = cs @ [b] \<and> delivered c' = ds"
proof (cases "avail (ker (fw_state c))")
  case True
  then show ?thesis by (rule holding_avail [OF assms])
next
  case False
  note h = holdingD [OF assms(2)]
  note d = fine_invD [OF h(1)]
  have w: "SnakeSoC_meip_wire (fst (world (fw_state c)))"
    using d(4) h(2) False assms(3,4) meip_iff [OF d(1,2)] by (simp add: isr_inv_def)
  note p = isr_load_eq [OF d(7)]
  let ?p = "pending (irq_agg (fst (world (fw_state c)))) AND 1"
  let ?c = "c\<lparr>fw_state := fw_state c, isr_at := IsrGive ?p\<rparr>"
  have "holding avail f b cs ds ?c"
    using h fine_enter [OF h(1) w p] by (simp add: holding_def)
  from holding_give [OF assms(1) this] obtain c' where c': "(fine_step k)\<^sup>*\<^sup>* ?c c'" "holding avail f b cs ds c'"
      "isr_at c' = IsrIdle" "task_at c' = TaskWait" "avail (ker (fw_state c'))"
    using assms(4) by auto
  from holding_avail [OF assms(1) c'(2-5)] obtain c'' where "(fine_step k)\<^sup>*\<^sup>* c' c''" "consumed c'' = cs @ [b]" "delivered c'' = ds"
    by blast
  moreover have "(fine_step k)\<^sup>*\<^sup>* c c'"
    using fine_step.enter [OF assms(3) w p, of k] c'(1) by (rule converse_rtranclp_into_rtranclp)
  ultimately show ?thesis by (blast intro: rtranclp_trans)
qed

lemma holding_consumed:
  assumes "sem_laws k avail" "holding avail f b cs ds c"
  shows "\<exists>c'. (fine_step k)\<^sup>*\<^sup>* c c' \<and> consumed c' = cs @ [b] \<and> delivered c' = ds"
proof -
  obtain c1 where c1: "(fine_step k)\<^sup>*\<^sup>* c c1" "holding avail f b cs ds c1" "isr_at c1 = IsrIdle"
    using holding_idle [OF assms] by blast
  have "\<exists>c'. (fine_step k)\<^sup>*\<^sup>* c1 c' \<and> consumed c' = cs @ [b] \<and> delivered c' = ds"
  proof (cases "task_at c1")
    case TaskWait
    then show ?thesis by (rule holding_wait [OF assms(1) c1(2,3)])
  next
    case TaskStatus
    then show ?thesis by (rule holding_status [OF c1(2,3)])
  next
    case TaskPeek
    then show ?thesis by (rule holding_peek [OF c1(2,3)])
  next
    case (TaskPop b')
    then show ?thesis using holding_pop [OF c1(2,3)] by blast
  next
    case (TaskPrint line)
    obtain c2 where c2: "(fine_step k)\<^sup>*\<^sup>* c1 c2" "holding avail f b cs ds c2" "isr_at c2 = IsrIdle" "task_at c2 = TaskStatus"
      using holding_print [OF c1(2,3) TaskPrint] by blast
    from holding_status [OF c2(2-4)] c2(1) show ?thesis by (blast intro: rtranclp_trans)
  qed
  with c1(1) show ?thesis by (blast intro: rtranclp_trans)
qed

end
