(* ===== verification/AppWhole.thy ===== *)
theory AppWhole
  imports AppFine
begin

text \<open>
  The two granularities of the firmware: the handler, the turn of the receive loop and the line
  of a printing task of \<open>AppRtos\<close> are runs of the single steps of \<open>AppFine\<close>, and so are all their
  runs.
\<close>

text \<open>A state of \<open>AppRtos\<close> at a point where neither handler nor turn is under way.\<close>

definition embeds :: "'k fw \<times> rx_phase \<times> uint32 \<times> (uint8 list \<Rightarrow> uint32) \<Rightarrow> 'k fine \<Rightarrow> bool" where
  "embeds = (\<lambda>(s, ph, n, cn) c. fw_state c = s \<and> isr_at c = IsrIdle \<and> events c = n \<and> chat_at c = (\<lambda>_. None) \<and> chat_n c = cn \<and>
     task_at c = (case ph of Waiting \<Rightarrow> TaskWait | Draining \<Rightarrow> TaskStatus))"

lemma embedsI:
  "(fine_step k)\<^sup>*\<^sup>* c c' \<Longrightarrow> embeds a c' \<Longrightarrow> \<exists>c'. (fine_step k)\<^sup>*\<^sup>* c c' \<and> embeds a c'"
  by blast

lemma fine_handler:
  assumes "isr_at c = IsrIdle" "SnakeSoC_meip_wire (fst (world (fw_state c)))"
    "app_irq_handler k mcause_mei (fw_state c) = Inr s'"
  shows "\<exists>c'. (fine_step k)\<^sup>*\<^sup>* c c' \<and> fw_state c' = s' \<and> isr_at c' = IsrIdle \<and> events c' = events c \<and> task_at c' = task_at c \<and>
    chat_at c' = chat_at c \<and> chat_n c' = chat_n c"
proof -
  have "app_irq_handler k mcause_mei (fw_state c) =
      bind_res (app_isr_mei k (fw_state c)) (\<lambda>(woken, s). Inr (s\<lparr>ker := yield_isr k woken (ker s)\<rparr>))"
    by (simp add: app_irq_handler_def mcause_mei_def app_bits)
  with assms(3) obtain wk s where m: "app_isr_mei k (fw_state c) = Inr (wk, s)" "s' = s\<lparr>ker := yield_isr k wk (ker s)\<rparr>"
    by (auto simp: res_simps)
  then obtain p s1 where l1: "isr_load (fw_state c) = Inr (p, s1)" by (auto simp: isr_composed res_simps)
  obtain wk2 s2 where l2: "isr_give k p s1 = (wk2, s2)" by (metis surj_pair)
  have l: "isr_load (fw_state c) = Inr (p, s1)" "isr_give k p s1 = (wk, s2)" "isr_ack p s2 = Inr s"
    using m(1) l1 l2 by (auto simp: isr_composed res_simps)
  let ?c1 = "c\<lparr>fw_state := s1, isr_at := IsrGive p\<rparr>"
  let ?c2 = "?c1\<lparr>fw_state := s2, isr_at := IsrAck p wk\<rparr>"
  let ?c3 = "?c2\<lparr>fw_state := s', isr_at := IsrIdle\<rparr>"
  have "fine_step k c ?c1" by (rule fine_step.enter [OF assms(1,2) l(1)])
  moreover have "fine_step k ?c1 ?c2" using fine_step.give [of ?c1 p k wk s2] l(2) by simp
  moreover have "fine_step k ?c2 ?c3" using fine_step.ack [of ?c2 p wk s k] l(3) m(2) by simp
  ultimately have "(fine_step k)\<^sup>*\<^sup>* c ?c3" by (meson converse_rtranclp_into_rtranclp rtranclp.rtrancl_refl)
  then show ?thesis by (intro exI [of _ ?c3]) simp
qed

text \<open>The bytes of a line, written without interruption.\<close>

lemma task_chars:
  assumes "isr_at c = IsrIdle" "task_at c = TaskPrint bs" "emit_str app_putc bs (fw_state c) = Inr s'"
  shows "\<exists>c'. (fine_step k)\<^sup>*\<^sup>* c c' \<and> fw_state c' = s' \<and> isr_at c' = IsrIdle \<and> events c' = events c \<and>
    task_at c' = TaskStatus \<and> chat_at c' = chat_at c \<and> chat_n c' = chat_n c"
  using assms
proof (induction bs arbitrary: c)
  case Nil
  then show ?case using fine_step.task_line [OF Nil(1,2), of k] by (intro exI [of _ "c\<lparr>task_at := TaskStatus\<rparr>"]) auto
next
  case (Cons x xs)
  obtain s1 where s1: "app_putc x (fw_state c) = Inr s1" "emit_str app_putc xs s1 = Inr s'"
    using Cons.prems(3) by (auto simp: res_simps)
  let ?c = "c\<lparr>fw_state := s1, task_at := TaskPrint xs, heard := heard c @ [(RxTask, x)]\<rparr>"
  have "fine_step k c ?c" by (rule fine_step.task_char [OF Cons.prems(1,2) s1(1)])
  with Cons.IH [of ?c] Cons.prems(1) s1(2) show ?case
    by (auto intro: converse_rtranclp_into_rtranclp)
qed

lemma chat_chars:
  assumes "isr_at c = IsrIdle" "chat_at c tag = Some bs" "emit_str app_putc bs (fw_state c) = Inr s'"
  shows "\<exists>c'. (fine_step k)\<^sup>*\<^sup>* c c' \<and> fw_state c' = chat_wait k tag s' \<and> isr_at c' = IsrIdle \<and> events c' = events c \<and>
    task_at c' = task_at c \<and> chat_at c' = (chat_at c)(tag := None) \<and> chat_n c' = chat_n c"
  using assms
proof (induction bs arbitrary: c)
  case Nil
  then show ?case using fine_step.chat_end [OF Nil(1,2), of k]
    by (intro exI [of _ "c\<lparr>fw_state := chat_wait k tag (fw_state c), chat_at := (chat_at c)(tag := None)\<rparr>"]) auto
next
  case (Cons x xs)
  obtain s1 where s1: "app_putc x (fw_state c) = Inr s1" "emit_str app_putc xs s1 = Inr s'"
    using Cons.prems(3) by (auto simp: res_simps)
  let ?c = "c\<lparr>fw_state := s1, chat_at := (chat_at c)(tag := Some xs), heard := heard c @ [(Chatty tag, x)]\<rparr>"
  have "fine_step k c ?c" by (rule fine_step.chat_char [OF Cons.prems(1,2) s1(1)])
  moreover have p: "isr_at ?c = IsrIdle" "chat_at ?c tag = Some xs" "emit_str app_putc xs (fw_state ?c) = Inr s'"
    using Cons.prems(1) s1(2) by simp_all
  have u: "(chat_at ?c)(tag := None) = (chat_at c)(tag := None)" by simp
  from Cons.IH [OF p, unfolded u] have "\<exists>c'. (fine_step k)\<^sup>*\<^sup>* ?c c' \<and> fw_state c' = chat_wait k tag s' \<and>
      isr_at c' = IsrIdle \<and> events c' = events c \<and> task_at c' = task_at c \<and> chat_at c' = (chat_at c)(tag := None) \<and> chat_n c' = chat_n c"
    by (simp add: fun_upd_def)
  ultimately show ?case by (blast intro: converse_rtranclp_into_rtranclp)
qed

lemma fine_line:
  assumes "isr_at c = IsrIdle" "chat_at c tag = None" "chatty_body k tag (chat_n c tag) (fw_state c) = Inr (m, s')"
  shows "\<exists>c'. (fine_step k)\<^sup>*\<^sup>* c c' \<and> fw_state c' = s' \<and> isr_at c' = IsrIdle \<and> events c' = events c \<and>
    task_at c' = task_at c \<and> chat_at c' = chat_at c \<and> chat_n c' = (chat_n c)(tag := m)"
proof -
  let ?args = "[VStr (Some tag), VInt (chat_n c tag), VInt (yield_count (fw_state c))]"
  obtain s1 where s1: "app_printf chatty_fmt ?args (fw_state c) = Inr s1" "s' = chat_wait k tag s1" "m = chat_n c tag + 1"
    using assms(3) by (auto simp: chatty_composed res_simps)
  obtain line where l: "render chatty_fmt ?args = Some line" "emit_str app_putc line (fw_state c) = Inr s1"
    using print_composed [of chatty_fmt ?args "fw_state c"] s1(1) by (auto split: option.splits)
  let ?c = "speak (Chatty tag) line (c\<lparr>chat_at := (chat_at c)(tag := Some line),
      chat_n := (chat_n c)(tag := chat_n c tag + 1), yields := (yields c)(tag := yields c tag @ [yield_count (fw_state c)])\<rparr>)"
  have st: "fine_step k c ?c" by (rule fine_step.chat_begin [OF assms(1,2) l(1)])
  have "isr_at ?c = IsrIdle" "chat_at ?c tag = Some line" "emit_str app_putc line (fw_state ?c) = Inr s1"
    using assms(1) l(2) by (simp_all add: speak_def)
  from chat_chars [OF this] obtain c' where c': "(fine_step k)\<^sup>*\<^sup>* ?c c'" "fw_state c' = s'" "isr_at c' = IsrIdle"
      "events c' = events ?c" "task_at c' = task_at ?c" "chat_at c' = (chat_at ?c)(tag := None)" "chat_n c' = chat_n ?c"
    using s1(2) by blast
  have "(chat_at ?c)(tag := None) = chat_at c" using assms(2) by (auto simp: speak_def)
  with c' s1(3) have "events c' = events c" "task_at c' = task_at c" "chat_at c' = chat_at c" "chat_n c' = (chat_n c)(tag := m)"
    by (simp_all add: speak_def)
  with c'(1-3) st show ?thesis by (blast intro: converse_rtranclp_into_rtranclp)
qed

lemma fine_turn:
  assumes "isr_at c = IsrIdle" "task_at c = TaskStatus" "rx_turn (events c) (fw_state c) = Inr (go, n', s')"
  shows "\<exists>c'. (fine_step k)\<^sup>*\<^sup>* c c' \<and> fw_state c' = s' \<and> isr_at c' = IsrIdle \<and> events c' = n' \<and>
    task_at c' = (if go then TaskStatus else TaskWait) \<and> chat_at c' = chat_at c \<and> chat_n c' = chat_n c"
proof -
  obtain valid s1 where v: "rx_status (fw_state c) = Inr (valid, s1)"
    using assms(3) by (auto simp: turn_composed res_simps)
  let ?c1 = "c\<lparr>fw_state := s1, task_at := if valid then TaskPeek else TaskWait\<rparr>"
  have st: "fine_step k c ?c1" by (rule fine_step.task_status [OF assms(1,2) v])
  show ?thesis
  proof (cases valid)
    case False
    with assms(1,3) v have "go = False" "n' = events c" "s' = s1" by (simp_all add: turn_composed)
    with st False assms(1) show ?thesis by (intro exI [of _ ?c1]) simp
  next
    case True
    obtain b s2 s3 where r: "rx_peek s1 = Inr (b, s2)" "rx_pop s2 = Inr s3" "rx_print (events c) b s3 = Inr s'"
        "go = True" "n' = events c + 1"
      using assms(3) v True by (auto simp: turn_composed res_simps)
    let ?c2 = "?c1\<lparr>fw_state := s2, task_at := TaskPop b\<rparr>"
    let ?line = "rx_line (events c)"
    let ?c3 = "speak RxTask ?line
      (?c2\<lparr>fw_state := s3, task_at := TaskPrint ?line, events := events c + 1, consumed := consumed c @ [b]\<rparr>)"
    have l: "render rx_fmt [VInt (events c), VInt (ucast b)] = Some ?line" by (rule rx_fmt_render)
    have e: "emit_str app_putc ?line s3 = Inr s'"
      using print_composed [of rx_fmt "[VInt (events c), VInt (ucast b)]" s3] r(3) by (simp add: l rx_print_def)
    have "fine_step k ?c1 ?c2" using fine_step.task_peek [of ?c1 b s2 k] r(1) True assms(1) by simp
    moreover have "fine_step k ?c2 ?c3" using fine_step.task_pop [of ?c2 b s3 ?line k] r(2) l assms(1) by simp
    moreover obtain c' where c': "(fine_step k)\<^sup>*\<^sup>* ?c3 c'" "fw_state c' = s'" "isr_at c' = IsrIdle" "events c' = events c + 1"
        "task_at c' = TaskStatus" "chat_at c' = chat_at c \<and> chat_n c' = chat_n c"
      using task_chars [of ?c3 ?line s' k] assms(1) e by (auto simp: speak_def)
    ultimately have "(fine_step k)\<^sup>*\<^sup>* c c'"
      using st by (meson converse_rtranclp_into_rtranclp)
    then show ?thesis using c' r(4,5) by (intro exI [of _ c']) simp
  qed
qed

lemma fw_step_fine:
  assumes "fw_step k a a'" "embeds a c"
  shows "\<exists>c'. (fine_step k)\<^sup>*\<^sup>* c c' \<and> embeds a' c'"
  using assms(1)
proof cases
  case (fw_tick s w ph n cn)
  with assms(2) fine_step.hw_tick [of c w k] show ?thesis
    by (intro embedsI [OF r_into_rtranclp]) (auto simp: embeds_def)
next
  case (fw_input s ph n cn bs)
  with assms(2) fine_step.hw_input [OF refl, of k c bs] show ?thesis
    by (intro embedsI [OF r_into_rtranclp]) (auto simp: embeds_def)
next
  case (fw_mei s s' ph n cn)
  with assms(2) fine_handler [of c k s'] show ?thesis by (auto simp: embeds_def)
next
  case (fw_msi s s' ph n cn)
  with assms(2) fine_step.soft [of c k s'] show ?thesis
    by (intro embedsI [OF r_into_rtranclp]) (auto simp: embeds_def)
next
  case (fw_chatty tag cn s m s' ph n)
  with assms(2) fine_line [of c tag k m s'] show ?thesis by (auto simp: embeds_def)
next
  case (fw_take s q n cn)
  with assms(2) fine_step.task_take [of c k q] show ?thesis
    by (intro embedsI [OF r_into_rtranclp]) (auto simp: embeds_def)
next
  case (fw_turn n s go n' s' cn)
  with assms(2) fine_turn [of c go n' s' k] show ?thesis by (auto simp: embeds_def)
qed

lemma fw_run_fine:
  "(fw_step k)\<^sup>*\<^sup>* a a' \<Longrightarrow> embeds a c \<Longrightarrow> \<exists>c'. (fine_step k)\<^sup>*\<^sup>* c c' \<and> embeds a' c'"
proof (induction rule: rtranclp_induct)
  case (step y z)
  then obtain c1 where "(fine_step k)\<^sup>*\<^sup>* c c1" "embeds y c1" by blast
  with fw_step_fine [OF step.hyps(2)] show ?case by (blast intro: rtranclp_trans)
qed blast

end
