(* ===== verification/AppOut.thy ===== *)
theory AppOut
  imports AppFine
begin

text \<open>
  What the terminal shows.  The tasks share one output symbol and may preempt each other between
  any two bytes, so lines can be mixed; but the output is always a merge of the tasks' texts:
  no byte is lost, repeated or taken out of the order of its task.
\<close>

text \<open>The part of a task in the bytes written, and what it still has to write of its line.\<close>

definition voice :: "speaker \<Rightarrow> (speaker \<times> uint8) list \<Rightarrow> uint8 list" where
  "voice p h = map snd (filter (\<lambda>x. fst x = p) h)"

fun unsaid :: "'k fine \<Rightarrow> speaker \<Rightarrow> uint8 list" where
  "unsaid c RxTask = (case task_at c of TaskPrint bs \<Rightarrow> bs | _ \<Rightarrow> [])"
| "unsaid c (Chatty tag) = (case chat_at c tag of Some bs \<Rightarrow> bs | None \<Rightarrow> [])"

lemma voice_snoc: "voice p (h @ [(q, b)]) = voice p h @ (if q = p then [b] else [])"
  by (simp add: voice_def)

text \<open>The text of a printing task: one numbered line per turn, with the yield counts it read.\<close>

definition chatty_line :: "uint8 list \<Rightarrow> uint32 \<Rightarrow> uint32 \<Rightarrow> uint8 list" where
  "chatty_line tag n y = lit ''['' @ tag @ lit ''] tick '' @ dec_text (unat n) @ lit '' (yields='' @ dec_text (unat y) @
     lit '')'' @ [10]"

fun chatty_lines :: "uint8 list \<Rightarrow> uint32 \<Rightarrow> uint32 list \<Rightarrow> uint8 list" where
  "chatty_lines tag n [] = []"
| "chatty_lines tag n (y # ys) = chatty_line tag n y @ chatty_lines tag (n + 1) ys"

lemma chatty_fmt_render: "render chatty_fmt [VStr (Some tag), VInt n, VInt y] = Some (chatty_line tag n y)"
  by (simp add: chatty_fmt_def chatty_line_def lit_def render_conv_def)

lemma chatty_lines_snoc: "chatty_lines tag n (ys @ [y]) = chatty_lines tag n ys @ chatty_line tag (n + of_nat (length ys)) y"
  by (induction ys arbitrary: n) (simp_all add: add.assoc)

definition shown :: "stream \<Rightarrow> uint8 list \<Rightarrow> 'k fine \<Rightarrow> bool" where
  "shown f o0 c \<longleftrightarrow> out_stream (fst (world (fw_state c))) = f \<and>
     h_out (snd (world (fw_state c))) f = o0 @ map snd (heard c)"

definition said :: "uint32 \<Rightarrow> 'k fine \<Rightarrow> bool" where
  "said n c \<longleftrightarrow> (\<forall>p. voice p (heard c) @ unsaid c p = spoken c p) \<and>
     events c = n + of_nat (length (consumed c)) \<and> spoken c RxTask = rx_lines n (length (consumed c)) \<and>
     (\<forall>tag. spoken c (Chatty tag) = chatty_lines tag 0 (yields c tag) \<and> chat_n c tag = of_nat (length (yields c tag)))"

lemma rx_lines_snoc: "rx_lines n (Suc m) = rx_lines n m @ rx_line (n + of_nat m)"
proof (induction m arbitrary: n)
  case (Suc m)
  have "rx_lines n (Suc (Suc m)) = rx_line n @ rx_lines (n + 1) (Suc m)" by simp
  also have "\<dots> = rx_line n @ rx_lines (n + 1) m @ rx_line (n + 1 + of_nat m)" by (simp only: Suc.IH)
  finally show ?case by (simp add: add.assoc)
qed simp

subsection \<open>The stream\<close>

lemma shown_frame:
  assumes "shown f o0 c" "out_stream (fst (world s)) = out_stream (fst (world (fw_state c)))"
    "h_out (snd (world s)) f = h_out (snd (world (fw_state c))) f" "heard c' = heard c" "fw_state c' = s"
  shows "shown f o0 c'"
  using assms by (simp add: shown_def)

lemma ticked_stream:
  "out_stream (fst (ticked w)) = out_stream (fst w)" "h_out (snd (ticked w)) = h_out (snd w)"
  by (auto simp: out_stream_def ticked_def UART_Tickable_tick_def terminal_backend_try_read_def host_read1_def
      split: prod.splits option.splits list.splits)

lemma shown_char:
  assumes "shown f o0 c" "app_putc x (fw_state c) = Inr s" "memmap (fst (world (fw_state c))) = soc_map"
    "fw_state c' = s" "heard c' = heard c @ [(p, x)]"
  shows "shown f o0 c'"
proof -
  obtain w where "s = (fw_state c)\<lparr>world := w\<rparr>" "fst w = fst (world (fw_state c))"
      "h_out (snd w) (out_stream (fst w)) = h_out (snd (world (fw_state c))) (out_stream (fst w)) @ [x]"
    using app_putc_Inr [OF assms(2,3)] by blast
  with assms(1,4,5) show ?thesis by (simp add: shown_def)
qed

lemma shown_step:
  assumes "fine_step k c c'" "fine_inv avail c" "shown f o0 c"
  shows "shown f o0 c'"
proof -
  note d = fine_invD [OF assms(2)]
  note frame = shown_frame [OF assms(3)] and char = shown_char [OF assms(3) _ d(7)]
  note eqs = isr_load_eq [OF d(7)] isr_ack_eq [OF d(7)] isr_msi_eq [OF d(7)] rx_status_eq [OF d(7)] rx_pop_eq [OF d(7)]
  show ?thesis
    using assms(1)
  proof cases
    case (hw_tick w)
    have "soc_tick (world (fw_state c)) = Inr (ticked (world (fw_state c)))"
      using d(1) soc_tick_ticked by (simp add: sys_inv_def)
    with hw_tick(2) have w: "w = ticked (world (fw_state c))" by simp
    show ?thesis by (intro frame [OF _ _ _ refl]) (simp_all add: hw_tick(1) w ticked_stream)
  next
    case hw_input
    then show ?thesis by (intro frame [OF _ _ _ refl]) simp_all
  next
    case enter
    then show ?thesis by (intro frame [OF _ _ _ refl]) (simp_all add: eqs)
  next
    case (give p wk s)
    then have "world s = world (fw_state c)" by (auto simp: isr_give_def Let_def split: prod.splits if_splits)
    with give show ?thesis by (intro frame [OF _ _ _ refl]) simp_all
  next
    case ack
    then show ?thesis by (intro frame [OF _ _ _ refl]) (auto simp: eqs with_irq_def out_stream_def)
  next
    case soft
    then show ?thesis by (intro frame [OF _ _ _ refl]) (auto simp: eqs out_stream_def)
  next
    case chat_begin
    then show ?thesis by (intro frame [OF _ _ _ refl]) (simp_all add: speak_def)
  next
    case chat_char
    then show ?thesis by (intro char) simp_all
  next
    case chat_end
    then show ?thesis by (intro frame [OF _ _ _ refl]) (simp_all add: chat_wait_def Let_def)
  next
    case task_take
    then show ?thesis by (intro frame [OF _ _ _ refl]) simp_all
  next
    case task_status
    then show ?thesis by (intro frame [OF _ _ _ refl]) (simp_all add: eqs)
  next
    case (task_peek b s)
    then have "s = fw_state c" using rx_peek_eq [OF d(7)] d(5) by (simp add: task_inv_def)
    with task_peek show ?thesis by (intro frame [OF _ _ _ refl]) simp_all
  next
    case task_pop
    then show ?thesis by (intro frame [OF _ _ _ refl]) (auto simp: eqs speak_def uart_popped_def out_stream_def)
  next
    case task_char
    then show ?thesis by (intro char) simp_all
  next
    case task_line
    then show ?thesis by (intro frame [OF _ _ _ refl]) simp_all
  qed
qed

subsection \<open>The texts\<close>

text \<open>A step that leaves the histories and the unwritten bytes as they are.\<close>

lemma said_frame:
  assumes "said n c" "heard c' = heard c" "spoken c' = spoken c" "consumed c' = consumed c" "events c' = events c"
    "\<And>p. unsaid c' p = unsaid c p" "chat_n c' = chat_n c" "yields c' = yields c"
  shows "said n c'"
  using assms by (simp add: said_def)

lemma saidD: "said n c \<Longrightarrow> voice p (heard c) @ unsaid c p = spoken c p"
  by (simp add: said_def)

lemma said_char:
  assumes "said n c" "unsaid c p = x # xs" "heard c' = heard c @ [(p, x)]" "spoken c' = spoken c"
    "consumed c' = consumed c" "events c' = events c" "unsaid c' p = xs" "\<And>q. q \<noteq> p \<Longrightarrow> unsaid c' q = unsaid c q"
    "chat_n c' = chat_n c" "yields c' = yields c"
  shows "said n c'"
proof -
  have "voice q (heard c') @ unsaid c' q = spoken c' q" for q
    using saidD [OF assms(1), of q] assms(2-) by (cases "q = p") (simp_all add: voice_snoc)
  then show ?thesis using assms(1,4-6,9,10) by (simp add: said_def)
qed

lemma said_begin:
  assumes "said n c" "unsaid c p = []" "unsaid c' p = bs" "\<And>q. q \<noteq> p \<Longrightarrow> unsaid c' q = unsaid c q"
    "heard c' = heard c" "spoken c' = (spoken c)(p := spoken c p @ bs)"
  shows "voice q (heard c') @ unsaid c' q = spoken c' q"
  using saidD [OF assms(1), of q] assms(2-) by (cases "q = p") simp_all

lemma said_step:
  assumes "fine_step k c c'" "said n c"
  shows "said n c'"
  using assms(1)
proof cases
  case (chat_begin tag line)
  have l: "line = chatty_line tag (chat_n c tag) (yield_count (fw_state c))" using chat_begin(4) by (simp add: chatty_fmt_render)
  have "voice q (heard c') @ unsaid c' q = spoken c' q" for q
  proof (rule said_begin [OF assms(2), where p = "Chatty tag"])
    fix q :: speaker assume "q \<noteq> Chatty tag"
    then show "unsaid c' q = unsaid c q" using chat_begin(1) by (cases q) (auto simp: speak_def)
  qed (use chat_begin in \<open>simp_all add: speak_def\<close>)
  then show ?thesis
    using assms(2) chat_begin(1) chatty_lines_snoc [of tag 0 "yields c tag"] by (simp add: said_def speak_def l)
next
  case (chat_char tag x xs s)
  show ?thesis
  proof (rule said_char [OF assms(2), where p = "Chatty tag"])
    fix q :: speaker assume "q \<noteq> Chatty tag"
    then show "unsaid c' q = unsaid c q" using chat_char(1) by (cases q) auto
  qed (use chat_char in simp_all)
next
  case (chat_end tag)
  have "unsaid c' q = unsaid c q" for q using chat_end by (cases q) auto
  with chat_end show ?thesis by (intro said_frame [OF assms(2)]) simp_all
next
  case (task_pop b s line)
  have l: "line = rx_line (events c)" using task_pop(5) by (simp add: rx_fmt_render)
  have "voice q (heard c') @ unsaid c' q = spoken c' q" for q
  proof (rule said_begin [OF assms(2), where p = RxTask])
    fix q :: speaker assume "q \<noteq> RxTask"
    then show "unsaid c' q = unsaid c q" using task_pop(1) by (cases q) (auto simp: speak_def)
  qed (use task_pop in \<open>simp_all add: speak_def\<close>)
  moreover have "spoken c' RxTask = rx_lines n (length (consumed c'))" "events c' = n + of_nat (length (consumed c'))"
    using assms(2) task_pop(1) l rx_lines_snoc [of n "length (consumed c)"] by (simp_all add: said_def speak_def)
  moreover have "spoken c' (Chatty tag) = chatty_lines tag 0 (yields c' tag)" "chat_n c' tag = of_nat (length (yields c' tag))" for tag
    using assms(2) task_pop(1) by (simp_all add: said_def speak_def)
  ultimately show ?thesis by (simp only: said_def simp_thms)
next
  case (task_char x xs s)
  show ?thesis
  proof (rule said_char [OF assms(2), where p = RxTask])
    fix q :: speaker assume "q \<noteq> RxTask"
    then show "unsaid c' q = unsaid c q" using task_char(1) by (cases q) auto
  qed (use task_char in simp_all)
next
  case task_status
  have "unsaid c' q = unsaid c q" for q using task_status by (cases q) auto
  with task_status show ?thesis by (intro said_frame [OF assms(2)]) simp_all
next
  case task_peek
  have "unsaid c' q = unsaid c q" for q using task_peek by (cases q) auto
  with task_peek show ?thesis by (intro said_frame [OF assms(2)]) simp_all
next
  case task_take
  have "unsaid c' q = unsaid c q" for q using task_take by (cases q) auto
  with task_take show ?thesis by (intro said_frame [OF assms(2)]) simp_all
next
  case task_line
  have "unsaid c' q = unsaid c q" for q using task_line by (cases q) auto
  with task_line show ?thesis by (intro said_frame [OF assms(2)]) simp_all
qed (intro said_frame [OF assms(2)]; simp; (rename_tac p; case_tac p; simp)?)+

lemma out_run:
  "(fine_step k)\<^sup>*\<^sup>* c c' \<Longrightarrow> sem_laws k avail \<Longrightarrow> fine_inv avail c \<Longrightarrow> shown f o0 c \<Longrightarrow> said n c \<Longrightarrow>
   fine_inv avail c' \<and> shown f o0 c' \<and> said n c'"
  by (induction rule: rtranclp_induct) (blast intro: fine_step_inv shown_step said_step sem_laws_keeps)+

lemma start_out:
  "shown (out_stream (fst (world s))) (h_out (snd (world s)) (out_stream (fst (world s)))) (fine_start n s) \<and>
   said n (fine_start n s)"
proof -
  have "unsaid (fine_start n s) p = []" for p by (cases p) (simp_all add: fine_start_def)
  then show ?thesis by (simp add: shown_def said_def voice_def fine_start_def)
qed

end
