(* ===== verification/AppBoot.thy ===== *)
theory AppBoot
  imports AppRtos
begin

text \<open>
  Start-up of the firmware: the configuration header's constants, and what \<open>main\<close> has
  established when it hands over to the scheduler.
\<close>

subsection \<open>The configuration (\<open>FreeRTOSConfig.h\<close>)\<close>

definition configMAX_PRIORITIES :: nat where "configMAX_PRIORITIES = 5"
definition configMAX_TASK_NAME_LEN :: nat where "configMAX_TASK_NAME_LEN = 12"
definition configTIMER_TASK_PRIORITY :: nat where "configTIMER_TASK_PRIORITY = configMAX_PRIORITIES - 1"
definition configCPU_CLOCK_HZ :: uint32 where "configCPU_CLOCK_HZ = 1000000"
definition configTICK_RATE_HZ :: uint32 where "configTICK_RATE_HZ = 1000"
definition configMTIME_BASE_ADDRESS :: addr_t where "configMTIME_BASE_ADDRESS = 0x0200BFF8"
definition configMTIMECMP_BASE_ADDRESS :: addr_t where "configMTIMECMP_BASE_ADDRESS = 0x02004000"

lemmas config_defs = configMAX_PRIORITIES_def configMAX_TASK_NAME_LEN_def configTIMER_TASK_PRIORITY_def
  configCPU_CLOCK_HZ_def configTICK_RATE_HZ_def configMTIME_BASE_ADDRESS_def configMTIMECMP_BASE_ADDRESS_def

subsection \<open>The texts\<close>

definition boot_lines :: "uint8 list" where
  "boot_lines = lit ''[boot] main entered'' @ [10] @ lit ''[boot] scheduler starting'' @ [10]"

lemma boot_texts:
  "render (lit ''[boot] main entered'' @ [10]) [] = Some (lit ''[boot] main entered'' @ [10])"
  "render (lit ''[boot] scheduler starting'' @ [10]) [] = Some (lit ''[boot] scheduler starting'' @ [10])"
  by (simp_all add: lit_def)

lemma assert_text:
  "n \<noteq> 0x80000000 \<Longrightarrow> \<exists>bs. render (lit ''[FreeRTOS ASSERT] %s:%d '' @ em_dash @ lit '' halting'' @ [10])
     [VStr (Some file), VInt n] = Some bs"
  by (simp add: lit_def em_dash_def render_conv_def)

text \<open>On a stream that accepts every byte an assertion that fails ends the run.\<close>

lemma assert_halts:
  assumes "out_ok f (world s)" "n \<noteq> 0x80000000"
  shows "configASSERT k x file n s = (if x then Inr s else Inl (Halt 1))"
proof -
  obtain bs where "render (lit ''[FreeRTOS ASSERT] %s:%d '' @ em_dash @ lit '' halting'' @ [10]) [VStr (Some file), VInt n] = Some bs"
    using assert_text [OF assms(2)] by blast
  from app_printf_render [OF this assms(1)] show ?thesis
    by (auto simp: configASSERT_def vAssertCalled_def rt_halt_def Let_def)
qed

subsection \<open>Start-up\<close>

text \<open>The kernel objects in the order of \<open>main\<close>; the first refusal ends the sequence.\<close>

definition kernel_made :: "'k rtos \<Rightarrow> 'k \<Rightarrow> bool \<times> 'k" where
  "kernel_made k q =
     (let (a, q) = sem_create k q in if \<not> a then (False, q) else
      let (a, q) = task_create k ChattyTask ''chatty_A'' configMINIMAL_STACK_SIZE (Some (lit ''A'')) 2 q in if \<not> a then (False, q) else
      let (a, q) = task_create k ChattyTask ''chatty_B'' configMINIMAL_STACK_SIZE (Some (lit ''B'')) 2 q in if \<not> a then (False, q) else
      task_create k UartRxTask ''uart_rx'' configMINIMAL_STACK_SIZE None 3 q)"

lemma boot_print:
  assumes "render fmt [] = Some bs" "out_ok f (world s)"
  shows "\<exists>w. app_printf fmt [] s = Inr (s\<lparr>world := w\<rparr>) \<and> out_ok f w \<and> fst w = fst (world s) \<and>
    h_stdin (snd w) = h_stdin (snd (world s)) \<and> h_out (snd w) f = h_out (snd (world s)) f @ bs"
proof -
  obtain s' where p: "app_printf fmt [] s = Inr s'" "out_ok f (world s')"
      "h_out (snd (world s')) f = h_out (snd (world s)) f @ bs"
    using app_printf_render [OF assms] by blast
  moreover obtain w where "s' = s\<lparr>world := w\<rparr>" "fst w = fst (world s)" "h_stdin (snd w) = h_stdin (snd (world s))"
    using app_printf_frame [OF p(1)] assms(2) by (auto simp: out_ok_def)
  ultimately show ?thesis by (intro exI [of _ w]) simp
qed

text \<open>From the unmasked source to the scheduler.\<close>

definition app_main_tail :: "'k rtos \<Rightarrow> 'k fw \<Rightarrow> fault + (uint32 \<times> 'k fw)" where
  "app_main_tail k s =
     bind_res (scheduler k s) (\<lambda>s.
     bind_res (app_printf (lit ''[boot] scheduler returned '' @ em_dash @ lit '' halting'' @ [10]) [] s) (\<lambda>s.
     Inr (1, s)))"

lemma task_created:
  assumes "out_ok f (world s)" "n \<noteq> 0x80000000"
  shows "app_create_task k code name pv prio n s =
    (let (a, q) = task_create k code name configMINIMAL_STACK_SIZE pv prio (ker s) in if a then Inr (s\<lparr>ker := q\<rparr>) else Inl (Halt 1))"
proof -
  have "out_ok f (world (s\<lparr>ker := q\<rparr>))" for q using assms(1) by simp
  from assert_halts [OF this assms(2)] show ?thesis
    by (auto simp: app_create_task_def Let_def split: prod.splits)
qed

lemma boot_objects:
  assumes "out_ok f (world s)"
  shows "(let (made, q) = sem_create k (ker s); s = s\<lparr>uart_rx_sem := made, ker := q\<rparr> in
     bind_res (configASSERT k (uart_rx_sem s) (lit ''main.c'') 89 s) (\<lambda>s.
     bind_res (app_create_task k ChattyTask ''chatty_A'' (Some (lit ''A'')) 2 94 s) (\<lambda>s.
     bind_res (app_create_task k ChattyTask ''chatty_B'' (Some (lit ''B'')) 2 97 s) (\<lambda>s.
     bind_res (app_create_task k UartRxTask ''uart_rx'' None 3 100 s) rest)))) =
    (let (a, q) = kernel_made k (ker s) in if a then rest (s\<lparr>uart_rx_sem := True, ker := q\<rparr>) else Inl (Halt 1))"
proof -
  have o: "out_ok f (world (s\<lparr>uart_rx_sem := b, ker := q\<rparr>))" for b q using assms by simp
  show ?thesis
    by (auto simp: kernel_made_def Let_def assert_halts [OF o] task_created [OF o] split: prod.splits)
qed

lemma installed:
  assumes "out_ok f (world s)"
  shows "install_mtvec k handler s = (if handler AND 3 = 0 then Inr (s\<lparr>mtvec := handler\<rparr>) else Inl (Halt 1))"
  using assert_halts [OF assms, of 46] by (simp add: install_mtvec_def)

text \<open>The machine handed to the scheduler: the receive interrupt unmasked and nothing pending.\<close>

definition boot_world :: "stream \<Rightarrow> store \<Rightarrow> store \<Rightarrow> bool" where
  "boot_world f w0 w \<longleftrightarrow> sys_inv w \<and> fst w = (fst w0)\<lparr>irq_agg := \<lparr>pending = 0, enable = 1, uart_rx_edge = False\<rparr>\<rparr> \<and>
     h_stdin (snd w) = h_stdin (snd w0) \<and> h_out (snd w) f = h_out (snd w0) f @ boot_lines"

lemma app_main_unfold:
  "app_main k handler s =
     bind_res (app_printf (lit ''[boot] main entered'' @ [10]) [] s) (\<lambda>s.
     bind_res (install_mtvec k handler s) (\<lambda>s.
     bind_res (enable_uart_rx_irq s) (\<lambda>s.
     (let (made, q) = sem_create k (ker s); s = s\<lparr>uart_rx_sem := made, ker := q\<rparr> in
     bind_res (configASSERT k (uart_rx_sem s) (lit ''main.c'') 89 s) (\<lambda>s.
     bind_res (app_create_task k ChattyTask ''chatty_A'' (Some (lit ''A'')) 2 94 s) (\<lambda>s.
     bind_res (app_create_task k ChattyTask ''chatty_B'' (Some (lit ''B'')) 2 97 s) (\<lambda>s.
     bind_res (app_create_task k UartRxTask ''uart_rx'' None 3 100 s) (\<lambda>s.
     bind_res (app_printf (lit ''[boot] scheduler starting'' @ [10]) [] s) (app_main_tail k)))))))))"
  unfolding app_main_def app_main_tail_def ..

lemma app_main_boots:
  assumes "sys_inv (world s)" "out_ok f (world s)"
  shows "\<exists>w. boot_world f (world s) w \<and>
    app_main k handler s =
      (if handler AND 3 = 0 \<and> fst (kernel_made k (ker s))
       then app_main_tail k (s\<lparr>mtvec := handler, uart_rx_sem := True, ker := snd (kernel_made k (ker s)), world := w\<rparr>)
       else Inl (Halt 1))"
proof -
  let ?irq = "\<lparr>pending = 0, enable = 1, uart_rx_edge = False\<rparr>"
  obtain w1 where w1: "app_printf (lit ''[boot] main entered'' @ [10]) [] s = Inr (s\<lparr>world := w1\<rparr>)" "out_ok f w1"
      "fst w1 = fst (world s)" "h_stdin (snd w1) = h_stdin (snd (world s))"
      "h_out (snd w1) f = h_out (snd (world s)) f @ lit ''[boot] main entered'' @ [10]"
    using boot_print [OF boot_texts(1) assms(2)] by blast
  let ?w2 = "with_irq ?irq w1"
  have i: "sys_inv w1" by (rule sys_inv_cong [OF assms(1) w1(3)])
  then have i2: "sys_inv ?w2" by (rule with_irq_inv) simp_all
  have o2: "out_ok f ?w2" using w1(2) by (simp add: out_ok_def with_irq_def)
  let ?q = "snd (kernel_made k (ker s))"
  let ?s3 = "s\<lparr>world := ?w2, mtvec := handler, uart_rx_sem := True, ker := ?q\<rparr>"
  have "out_ok f (world ?s3)" using o2 by simp
  from boot_print [OF boot_texts(2) this] obtain w3 where
    w3: "app_printf (lit ''[boot] scheduler starting'' @ [10]) [] ?s3 = Inr (?s3\<lparr>world := w3\<rparr>)" "fst w3 = fst ?w2"
      "h_stdin (snd w3) = h_stdin (snd ?w2)" "h_out (snd w3) f = h_out (snd ?w2) f @ lit ''[boot] scheduler starting'' @ [10]"
    by auto
  have "boot_world f (world s) w3"
    using w1 w3(2-) sys_inv_cong [OF i2 w3(2)] by (simp add: boot_world_def with_irq_def boot_lines_def)
  moreover have "app_main k handler s =
      (if handler AND 3 = 0 \<and> fst (kernel_made k (ker s)) then app_main_tail k (?s3\<lparr>world := w3\<rparr>) else Inl (Halt 1))"
  proof (cases "handler AND 3 = 0")
    case True
    let ?s1 = "s\<lparr>world := ?w2, mtvec := handler\<rparr>"
    have "sys_inv (world (s\<lparr>world := w1, mtvec := handler\<rparr>))" "out_ok f (world ?s1)" using i o2 by simp_all
    note o1 = this(2)
    have e: "enable_uart_rx_irq (s\<lparr>world := w1, mtvec := handler\<rparr>) = Inr ?s1"
      using enable_eq [of "s\<lparr>world := w1, mtvec := handler\<rparr>"] i by simp
    have m: "install_mtvec k handler (s\<lparr>world := w1\<rparr>) = Inr (s\<lparr>world := w1, mtvec := handler\<rparr>)"
      using installed [of f "s\<lparr>world := w1\<rparr>" k handler] w1(2) True by simp
    have "ker ?s1 = ker s" by simp
    with w3(1) True show ?thesis
      unfolding app_main_unfold w1(1) m e bind_res.simps boot_objects [OF o1]
      by (cases "kernel_made k (ker s)") simp
  next
    case False
    then show ?thesis
      using w1(1,2) installed [of f "s\<lparr>world := w1\<rparr>" k handler] by (simp add: app_main_unfold)
  qed
  ultimately show ?thesis by (intro exI [of _ w3]) simp
qed

subsection \<open>The kernel's tick\<close>

text \<open>The comparator is written as two words at \<open>configMTIMECMP_BASE_ADDRESS\<close>, the counter read as
  two words at \<open>configMTIME_BASE_ADDRESS\<close>.\<close>

lemma clint_units:
  "find_unit soc_map 0x02004000 4 = Some \<lparr>u_base = 0x02000000, u_size = 0x10000, u_device = Ref_Clint\<rparr>"
  "find_unit soc_map 0x02004004 4 = Some \<lparr>u_base = 0x02000000, u_size = 0x10000, u_device = Ref_Clint\<rparr>"
  "find_unit soc_map 0x0200BFF8 4 = Some \<lparr>u_base = 0x02000000, u_size = 0x10000, u_device = Ref_Clint\<rparr>"
  "find_unit soc_map 0x0200BFFC 4 = Some \<lparr>u_base = 0x02000000, u_size = 0x10000, u_device = Ref_Clint\<rparr>"
  by (simp_all add: find_unit_def soc_map_def)

definition with_clint :: "Clint \<Rightarrow> store \<Rightarrow> store" where
  "with_clint c s = ((fst s)\<lparr>clint := c\<rparr>, snd s)"

lemma write_mtimecmp:
  assumes "memmap (fst s) = soc_map"
  shows "soc_write s configMTIMECMP_BASE_ADDRESS 4 v 0xF = Inr (AXI_RESP_OKAY, with_clint (set_mtimecmp_lo (clint (fst s)) v) s)"
    and "soc_write s (configMTIMECMP_BASE_ADDRESS + 4) 4 v 0xF = Inr (AXI_RESP_OKAY, with_clint (set_mtimecmp_hi (clint (fst s)) v) s)"
  using assms
  by (cases s; simp add: config_defs soc_write_def MemoryMap_write_def clint_units MmioDevice_write_def vtbl_defs
      lift_write_def lens_defs Clint_MmioDevice_write_def clint_offsets with_clint_def)+

lemma read_mtime:
  assumes "memmap (fst s) = soc_map"
  shows "soc_read s configMTIME_BASE_ADDRESS 4 (Some x) = Inr (AXI_RESP_OKAY, Some (mtime_lo (clint (fst s))), s)"
    and "soc_read s (configMTIME_BASE_ADDRESS + 4) 4 (Some x) = Inr (AXI_RESP_OKAY, Some (mtime_hi (clint (fst s))), s)"
  using assms
  by (cases s; simp add: config_defs soc_read_def MemoryMap_read_def clint_units MmioDevice_read_def vtbl_defs
      lift_read_def lens_defs Clint_MmioDevice_read_def clint_offsets)+

lemma word64_self: "word64 (ucast (drop_bit 32 x)) (ucast (x :: uint64)) = x"
  by (rule bit_eqI) (auto simp: word64_def bit_simps)

lemma set_both_halves:
  "set_mtimecmp_hi (set_mtimecmp_lo c (ucast x)) (ucast (drop_bit 32 x)) = c\<lparr>mtimecmp := x\<rparr>"
proof -
  obtain h l where m: "mtimecmp c = word64 h l" using word64_surj by blast
  show ?thesis
    using word64_self [of x] by (simp add: set_mtimecmp_lo_def set_mtimecmp_hi_def m set_halves)
qed

end
