(* ===== verification/AppStart.thy ===== *)
theory AppStart
  imports AppFine AppBoot
begin

text \<open>
  Start-up of the firmware at the granularity of single bus accesses.  \<open>main\<close> up to the scheduler
  is a program of single actions: the bytes of its two lines, the trap vector, the two writes to
  the interrupt aggregator, and the calls of the kernel.  Run without interruption they are the
  \<open>main\<close> of \<open>AppRtos\<close>; the clock and the terminal may run before and between any two of them.  No
  handler runs there: interrupts are enabled when the scheduler starts the first task.  An
  assertion that fails ends the run.
\<close>

subsection \<open>The actions\<close>

datatype boot_act = BPutc uint8 | BMtvec | BEnable | BClear | BSem
  | BTask task_code string "uint8 list option" nat uint32

fun boot_do :: "'k rtos \<Rightarrow> uint32 \<Rightarrow> boot_act \<Rightarrow> 'k fw \<Rightarrow> fault + 'k fw" where
  "boot_do k handler (BPutc c) s = app_putc c s"
| "boot_do k handler BMtvec s = install_mtvec k handler s"
| "boot_do k handler BEnable s = app_sw APP_IRQ_AGG_ENABLE IRQ_BIT_UART_RX s"
| "boot_do k handler BClear s = app_sw APP_IRQ_AGG_PENDING IRQ_BIT_UART_RX s"
| "boot_do k handler BSem s =
     (let (made, q) = sem_create k (ker s); s = s\<lparr>uart_rx_sem := made, ker := q\<rparr>
      in configASSERT k (uart_rx_sem s) (lit ''main.c'') 89 s)"
| "boot_do k handler (BTask code name pv prio line) s = app_create_task k code name pv prio line s"

fun boot_exec :: "'k rtos \<Rightarrow> uint32 \<Rightarrow> boot_act list \<Rightarrow> 'k fw \<Rightarrow> fault + 'k fw" where
  "boot_exec k handler [] s = Inr s"
| "boot_exec k handler (a # as) s = bind_res (boot_do k handler a s) (boot_exec k handler as)"

definition boot_setup :: "boot_act list" where
  "boot_setup = [BMtvec, BEnable, BClear, BSem, BTask ChattyTask ''chatty_A'' (Some (lit ''A'')) 2 94,
     BTask ChattyTask ''chatty_B'' (Some (lit ''B'')) 2 97, BTask UartRxTask ''uart_rx'' None 3 100]"

definition boot_prog :: "boot_act list" where
  "boot_prog = map BPutc (lit ''[boot] main entered'' @ [10]) @ boot_setup @
     map BPutc (lit ''[boot] scheduler starting'' @ [10])"

lemma boot_exec_append: "boot_exec k handler (as @ bs) s = bind_res (boot_exec k handler as s) (boot_exec k handler bs)"
proof (induction as arbitrary: s)
  case (Cons a as)
  then show ?case by (cases "boot_do k handler a s") simp_all
qed simp

lemma boot_exec_text: "boot_exec k handler (map BPutc bs) s = emit_str app_putc bs s"
proof (induction bs arbitrary: s)
  case (Cons b bs)
  then show ?case by (cases "app_putc b s") simp_all
qed simp

lemma boot_printf: "render fmt [] = Some bs \<Longrightarrow> app_printf fmt [] s = emit_str app_putc bs s"
  using print_composed [of fmt "[]" s] by simp

lemma bind_Inr: "bind_res m Inr = m"
  by (cases m) simp_all

lemma main_composed: "app_main k handler s = bind_res (boot_exec k handler boot_prog s) (app_main_tail k)"
proof -
  have calls: "bind_res (boot_exec k handler boot_setup s) g =
     bind_res (install_mtvec k handler s) (\<lambda>s.
     bind_res (enable_uart_rx_irq s) (\<lambda>s.
     (let (made, q) = sem_create k (ker s); s = s\<lparr>uart_rx_sem := made, ker := q\<rparr> in
     bind_res (configASSERT k (uart_rx_sem s) (lit ''main.c'') 89 s) (\<lambda>s.
     bind_res (app_create_task k ChattyTask ''chatty_A'' (Some (lit ''A'')) 2 94 s) (\<lambda>s.
     bind_res (app_create_task k ChattyTask ''chatty_B'' (Some (lit ''B'')) 2 97 s) (\<lambda>s.
     bind_res (app_create_task k UartRxTask ''uart_rx'' None 3 100 s) g))))))" for s g
    by (simp add: boot_setup_def bind_assoc bind_Inr enable_uart_rx_irq_def split_beta Let_def)
  show ?thesis
    unfolding app_main_unfold boot_prog_def boot_exec_append bind_assoc boot_exec_text
      boot_printf [OF boot_texts(1)] boot_printf [OF boot_texts(2)] calls
    by (simp only: bind_assoc Let_def split_beta)
qed

subsection \<open>Interleaving\<close>

text \<open>The actions that are left, the bytes the terminal has delivered, and whether the receive
  buffer was occupied when the pending bit was acknowledged.\<close>

record 'k boot =
  boot_fw :: "'k fw"
  boot_rest :: "boot_act list"
  boot_in :: "uint8 list"
  stale :: bool

inductive boot_step :: "'k rtos \<Rightarrow> uint32 \<Rightarrow> 'k boot \<Rightarrow> 'k boot \<Rightarrow> bool" for k handler where
  boot_tick: "soc_tick (world (boot_fw b)) = Inr w \<Longrightarrow>
    boot_step k handler b (b\<lparr>boot_fw := (boot_fw b)\<lparr>world := w\<rparr>\<rparr>)"
| boot_input: "w = (fst (world (boot_fw b)), (snd (world (boot_fw b)))\<lparr>h_stdin := h_stdin (snd (world (boot_fw b))) @ bs\<rparr>) \<Longrightarrow>
    boot_step k handler b (b\<lparr>boot_fw := (boot_fw b)\<lparr>world := w\<rparr>, boot_in := boot_in b @ List.map_filter id bs\<rparr>)"
| boot_next: "boot_rest b = a # as \<Longrightarrow> boot_do k handler a (boot_fw b) = Inr s \<Longrightarrow>
    boot_step k handler b (b\<lparr>boot_fw := s, boot_rest := as,
      stale := if a = BClear then rx_valid (uart (fst (world (boot_fw b)))) else stale b\<rparr>)"

definition boot_start :: "'k fw \<Rightarrow> 'k boot" where
  "boot_start s = \<lparr>boot_fw = s, boot_rest = boot_prog, boot_in = rx_bytes (world s), stale = False\<rparr>"

text \<open>What an action does to the SoC: the UART and the waiting input stay as they are, and only the two
  writes reach the aggregator.\<close>

definition act_irq :: "boot_act \<Rightarrow> IrqAgg \<Rightarrow> IrqAgg" where
  "act_irq a g = (case a of BEnable \<Rightarrow> g\<lparr>enable := 1\<rparr> | BClear \<Rightarrow> g\<lparr>pending := 0\<rparr> | _ \<Rightarrow> g)"

lemma assert_Inr: "configASSERT k x file n s = Inr s' \<Longrightarrow> x \<and> s' = s"
  by (auto simp: configASSERT_def vAssertCalled_def rt_halt_def res_simps Let_def split: if_splits)

lemma boot_do_frame:
  assumes "boot_do k handler a s = Inr s'" "sys_inv (world s)"
  shows "sys_inv (world s') \<and> uart (fst (world s')) = uart (fst (world s)) \<and>
    irq_agg (fst (world s')) = act_irq a (irq_agg (fst (world s))) \<and>
    h_stdin (snd (world s')) = h_stdin (snd (world s)) \<and> uart_rx_sem s' = (a = BSem \<or> uart_rx_sem s)"
proof (cases a)
  case (BPutc c)
  then have p: "app_putc c s = Inr s'" using assms(1) by simp
  have m: "memmap (fst (world s)) = soc_map" using sys_inv_irq [OF assms(2)] by blast
  obtain w where "s' = s\<lparr>world := w\<rparr>" "fst w = fst (world s)" "h_stdin (snd w) = h_stdin (snd (world s))"
    using app_putc_Inr [OF p m] by blast
  with BPutc assms(2) sys_inv_cong [of "world s" w] show ?thesis by (simp add: act_irq_def)
next
  case BMtvec
  with assms show ?thesis by (auto simp: install_mtvec_def res_simps act_irq_def dest!: assert_Inr)
next
  case BEnable
  then have "s' = s\<lparr>world := with_irq ((irq_agg (fst (world s)))\<lparr>enable := 1\<rparr>) (world s)\<rparr>"
    using assms sys_inv_irq [OF assms(2)] by (auto simp: app_sw_def sw_enable IRQ_BIT_UART_RX_def with_irq_def)
  with BEnable assms(2) sys_inv_irq [OF assms(2)] show ?thesis
    by (auto simp: act_irq_def with_irq_def intro!: with_irq_inv [unfolded with_irq_def])
next
  case BClear
  then have "s' = s\<lparr>world := with_irq ((irq_agg (fst (world s)))\<lparr>pending := 0\<rparr>) (world s)\<rparr>"
    using assms sys_inv_irq [OF assms(2)] by (auto simp: app_sw_def sw_pending IRQ_BIT_UART_RX_def with_irq_def)
  with BClear assms(2) sys_inv_irq [OF assms(2)] show ?thesis
    by (auto simp: act_irq_def with_irq_def intro!: with_irq_inv [unfolded with_irq_def])
next
  case BSem
  with assms show ?thesis by (auto simp: act_irq_def Let_def split: prod.splits dest!: assert_Inr)
next
  case (BTask code name pv prio line)
  with assms show ?thesis by (auto simp: act_irq_def app_create_task_def Let_def split: prod.splits dest!: assert_Inr)
qed

text \<open>What holds between any two actions.\<close>

definition boot_inv :: "'k boot \<Rightarrow> bool" where
  "boot_inv b \<longleftrightarrow>
     sys_inv (world (boot_fw b)) \<and> boot_in b = rx_bytes (world (boot_fw b)) \<and>
     (BEnable \<notin> set (boot_rest b) \<longrightarrow> enable (irq_agg (fst (world (boot_fw b)))) = 1) \<and>
     (BSem \<notin> set (boot_rest b) \<longrightarrow> uart_rx_sem (boot_fw b)) \<and>
     (BClear \<notin> set (boot_rest b) \<longrightarrow> rx_valid (uart (fst (world (boot_fw b)))) \<longrightarrow>
        pending (irq_agg (fst (world (boot_fw b)))) = 1 \<or> stale b)"

lemma boot_start_inv: "sys_inv (world s) \<Longrightarrow> boot_inv (boot_start s)"
  by (simp add: boot_inv_def boot_start_def boot_prog_def boot_setup_def)

lemma boot_step_inv:
  assumes "boot_step k handler b b'" "boot_inv b"
  shows "boot_inv b'"
  using assms(1)
proof cases
  case (boot_tick w)
  have i: "sys_inv (world (boot_fw b))" using assms(2) by (simp add: boot_inv_def)
  have w: "w = ticked (world (boot_fw b))"
    using boot_tick i soc_tick_ticked [of "world (boot_fw b)"] by (simp add: sys_inv_def)
  show ?thesis
    using assms(2) boot_tick(1) ticked_sys_inv [OF i] ticked_enable [of "world (boot_fw b)"]
      tick_rx [of "world (boot_fw b)"] ticked_ready [OF i, of "stale b"]
    unfolding boot_inv_def w by auto
next
  case (boot_input w bs)
  then show ?thesis
    using assms(2) sys_inv_cong [of "world (boot_fw b)" w]
    by (simp add: boot_inv_def rx_bytes_def rx_stream_def stdin_bytes_def map_filter_append)
next
  case (boot_next a as s)
  have i: "sys_inv (world (boot_fw b))" using assms(2) by (simp add: boot_inv_def)
  note f = boot_do_frame [OF boot_next(3) i]
  have rx: "rx_bytes (world s) = rx_bytes (world (boot_fw b))"
    using f by (simp add: rx_bytes_def rx_stream_def stdin_bytes_def)
  show ?thesis
    using assms(2) boot_next(1,2) f rx
    by (cases a) (auto simp: boot_inv_def act_irq_def)
qed

lemma boot_run_inv: "(boot_step k handler)\<^sup>*\<^sup>* b b' \<Longrightarrow> boot_inv b \<Longrightarrow> boot_inv b'"
  by (induction rule: rtranclp_induct) (auto dest: boot_step_inv)

text \<open>The scheduler starts in a state of the invariant of the running firmware, without its clause on
  wakeups when the buffer was occupied at the acknowledgement.\<close>

lemma boot_inv_start:
  assumes "boot_inv b" "boot_rest b = []" "stale b \<Longrightarrow> avail (ker (boot_fw b))"
  shows "fine_inv avail (fine_start n (boot_fw b))"
  using assms by (auto simp: boot_inv_def fine_start_def fine_inv_def isr_inv_def task_inv_def)

subsection \<open>Start-up is never stuck\<close>

text \<open>Whether the kernel grants what the actions that are left ask for.\<close>

fun boot_grants :: "'k rtos \<Rightarrow> uint32 \<Rightarrow> boot_act list \<Rightarrow> 'k \<Rightarrow> bool" where
  "boot_grants k handler [] q = True"
| "boot_grants k handler (BMtvec # as) q = (handler AND 3 = 0 \<and> boot_grants k handler as q)"
| "boot_grants k handler (BSem # as) q = (fst (sem_create k q) \<and> boot_grants k handler as (snd (sem_create k q)))"
| "boot_grants k handler (BTask code name pv prio line # as) q =
     (let r = task_create k code name configMINIMAL_STACK_SIZE pv prio q in fst r \<and> boot_grants k handler as (snd r))"
| "boot_grants k handler (_ # as) q = boot_grants k handler as q"

lemma boot_grants_text: "boot_grants k handler (map BPutc bs @ as) q = boot_grants k handler as q"
  by (induction bs) simp_all

lemma boot_grants_prog: "boot_grants k handler boot_prog q = (handler AND 3 = 0 \<and> fst (kernel_made k q))"
  using boot_grants_text [of k handler "lit ''[boot] scheduler starting'' @ [10]" "[]"]
  by (simp only: boot_prog_def boot_grants_text append_Nil2)
    (simp add: boot_setup_def kernel_made_def Let_def split_beta)

definition boot_live :: "'k rtos \<Rightarrow> uint32 \<Rightarrow> stream \<Rightarrow> 'k boot \<Rightarrow> bool" where
  "boot_live k handler f b \<longleftrightarrow>
     boot_inv b \<and> out_ok f (world (boot_fw b)) \<and> boot_grants k handler (boot_rest b) (ker (boot_fw b))"

lemma boot_do_ok:
  assumes "sys_inv (world s)" "out_ok f (world s)" "boot_grants k handler (a # as) (ker s)"
  shows "\<exists>s'. boot_do k handler a s = Inr s' \<and> out_ok f (world s') \<and> boot_grants k handler as (ker s')"
proof -
  have m: "memmap (fst (world s)) = soc_map" using sys_inv_irq [OF assms(1)] by simp
  show ?thesis
  proof (cases a)
    case (BPutc c)
    with assms show ?thesis by (auto simp: app_putc_def putc_eq out_ok_def)
  next
    case BMtvec
    with assms show ?thesis by (simp add: install_mtvec_def configASSERT_def)
  next
    case BEnable
    with assms m show ?thesis by (auto simp: app_sw_def sw_enable out_ok_def)
  next
    case BClear
    with assms m show ?thesis by (auto simp: app_sw_def sw_pending out_ok_def)
  next
    case BSem
    with assms show ?thesis by (auto simp: configASSERT_def Let_def split: prod.splits)
  next
    case (BTask code name pv prio line)
    with assms show ?thesis by (auto simp: app_create_task_def configASSERT_def Let_def split: prod.splits)
  qed
qed

lemma boot_do_grants:
  assumes "boot_do k handler a s = Inr s'" "boot_grants k handler (a # as) (ker s)" "out_ok f (world s)" "sys_inv (world s)"
  shows "out_ok f (world s') \<and> boot_grants k handler as (ker s')"
  using boot_do_ok [OF assms(4,3,2)] assms(1) by auto

lemma boot_step_live:
  assumes "boot_step k handler b b'" "boot_live k handler f b"
  shows "boot_live k handler f b'"
  using assms(1)
proof cases
  case (boot_tick w)
  have i: "sys_inv (world (boot_fw b))" using assms(2) by (simp add: boot_live_def boot_inv_def)
  have "w = ticked (world (boot_fw b))"
    using boot_tick i soc_tick_ticked [of "world (boot_fw b)"] by (simp add: sys_inv_def)
  with boot_tick(1) assms(2) boot_step_inv [OF assms(1)] ticked_out_ok [of f "world (boot_fw b)"] show ?thesis
    by (simp add: boot_live_def)
next
  case (boot_input w bs)
  with assms(2) boot_step_inv [OF assms(1)] show ?thesis by (auto simp: boot_live_def out_ok_def)
next
  case (boot_next a as s)
  with assms(2) boot_step_inv [OF assms(1)] boot_do_grants [OF boot_next(3), of as f] show ?thesis
    by (auto simp: boot_live_def boot_inv_def)
qed

lemma boot_run_live: "(boot_step k handler)\<^sup>*\<^sup>* b b' \<Longrightarrow> boot_live k handler f b \<Longrightarrow> boot_live k handler f b'"
  by (induction rule: rtranclp_induct) (auto dest: boot_step_live)

text \<open>Without further ticks the actions that are left lead to the scheduler, and the buffer is as it was.\<close>

lemma boot_finishes:
  "boot_live k handler f b \<Longrightarrow> \<exists>b'. (boot_step k handler)\<^sup>*\<^sup>* b b' \<and> boot_rest b' = [] \<and>
     boot_exec k handler (boot_rest b) (boot_fw b) = Inr (boot_fw b') \<and> boot_in b' = boot_in b \<and>
     uart (fst (world (boot_fw b'))) = uart (fst (world (boot_fw b))) \<and>
     h_stdin (snd (world (boot_fw b'))) = h_stdin (snd (world (boot_fw b))) \<and>
     (stale b' \<longrightarrow> stale b \<or> rx_valid (uart (fst (world (boot_fw b)))))"
proof (induction "boot_rest b" arbitrary: b)
  case Nil
  then show ?case by (intro exI [of _ b]) simp
next
  case (Cons a as)
  have l: "sys_inv (world (boot_fw b))" "out_ok f (world (boot_fw b))" "boot_grants k handler (a # as) (ker (boot_fw b))"
    using Cons.prems Cons.hyps(2) by (simp_all add: boot_live_def boot_inv_def)
  obtain s where s: "boot_do k handler a (boot_fw b) = Inr s" using boot_do_ok [OF l] by blast
  let ?b = "b\<lparr>boot_fw := s, boot_rest := as, stale := if a = BClear then rx_valid (uart (fst (world (boot_fw b)))) else stale b\<rparr>"
  have st: "boot_step k handler b ?b" by (rule boot_next [OF Cons.hyps(2) [symmetric] s])
  have u: "uart (fst (world s)) = uart (fst (world (boot_fw b)))" "h_stdin (snd (world s)) = h_stdin (snd (world (boot_fw b)))"
    using boot_do_frame [OF s l(1)] by blast+
  have "as = boot_rest ?b" by simp
  from Cons.hyps(1) [OF this boot_step_live [OF st Cons.prems]] obtain b' where
    b': "(boot_step k handler)\<^sup>*\<^sup>* ?b b'" "boot_rest b' = []" "boot_exec k handler as s = Inr (boot_fw b')" "boot_in b' = boot_in b"
      "uart (fst (world (boot_fw b'))) = uart (fst (world s))" "h_stdin (snd (world (boot_fw b'))) = h_stdin (snd (world s))"
      "stale b' \<longrightarrow> stale ?b \<or> rx_valid (uart (fst (world s)))"
    by auto
  have "(boot_step k handler)\<^sup>*\<^sup>* b b'" using st b'(1) by (rule converse_rtranclp_into_rtranclp)
  then show ?case using b' u s Cons.hyps(2) [symmetric] by (intro exI [of _ b']) (auto split: if_splits)
qed

subsection \<open>From the scheduler on\<close>

text \<open>When the buffer was occupied at the acknowledgement, only the clause on wakeups can fail, and
  only until the receiving task takes its first byte.\<close>

lemma fine_pop_restores:
  assumes "fine_inv (\<lambda>_. True) c" "isr_at c = IsrIdle" "task_at c = TaskPop b" "rx_pop (fw_state c) = Inr s"
  shows "fine_inv avail (speak p bs (c\<lparr>fw_state := s, task_at := TaskPrint line, events := n, consumed := consumed c @ [b]\<rparr>))"
  using fine_invD [OF assms(1)] assms(2-4) rx_pop_eq [of "fw_state c"] popped_sys_inv [of "world (fw_state c)"]
    popped_rx [of "world (fw_state c)"]
  by (auto simp: fine_inv_def isr_inv_def task_inv_def speak_def)

lemma fine_step_stale:
  assumes "fine_step k c c'" "sem_keeps k avail" "fine_inv (\<lambda>_. True) c" "consumed c = [] \<or> fine_inv avail c"
  shows "consumed c' = [] \<or> fine_inv avail c'"
proof (cases "fine_inv avail c")
  case True
  then show ?thesis using fine_step_inv [OF assms(1,2)] by blast
next
  case False
  with assms(4) have e: "consumed c = []" by blast
  show ?thesis
    using assms(1)
  proof cases
    case task_pop
    then show ?thesis using fine_pop_restores [OF assms(3)] by simp
  qed (use e in \<open>simp_all add: speak_def\<close>)
qed

lemma fine_run_stale:
  "(fine_step k)\<^sup>*\<^sup>* c c' \<Longrightarrow> sem_keeps k avail \<Longrightarrow> fine_inv (\<lambda>_. True) c \<Longrightarrow> consumed c = [] \<or> fine_inv avail c \<Longrightarrow>
   fine_inv (\<lambda>_. True) c' \<and> (consumed c' = [] \<or> fine_inv avail c')"
proof (induction rule: rtranclp_induct)
  case (step c1 c2)
  then have "fine_inv (\<lambda>_. True) c1" "consumed c1 = [] \<or> fine_inv avail c1" by blast+
  with step show ?case using fine_step_stale fine_step_inv [OF step(2) sem_keeps_any] by metis
qed simp

lemma started_inv:
  assumes "sem_keeps k avail" "boot_inv b" "boot_rest b = []" "(fine_step k)\<^sup>*\<^sup>* (fine_start n (boot_fw b)) c"
  shows "fine_inv (\<lambda>_. True) c" and "\<not> stale b \<or> consumed c \<noteq> [] \<Longrightarrow> fine_inv avail c"
proof -
  have z: "consumed (fine_start n (boot_fw b)) = []" by (simp add: fine_start_def)
  have w: "fine_inv (\<lambda>_. True) (fine_start n (boot_fw b))" by (rule boot_inv_start [OF assms(2,3)]) simp
  note r = fine_run_stale [OF assms(4,1) w disjI1 [OF z]]
  then show "fine_inv (\<lambda>_. True) c" by blast
  assume "\<not> stale b \<or> consumed c \<noteq> []"
  then show "fine_inv avail c"
  proof
    assume "\<not> stale b"
    then have "fine_inv avail (fine_start n (boot_fw b))" by (intro boot_inv_start [OF assms(2,3)]) simp
    then show ?thesis by (rule fine_run_keeps [OF assms(4,1)])
  qed (use r in blast)
qed

end
