(* ===== verification/FwSpec.thy ===== *)
theory FwSpec
  imports RtSpec AppLive AppWhole AppOut AppStart
begin

text \<open>
  The properties of the firmware at the granularity of single bus accesses, each followed by
  its instance at a concrete state.
\<close>

section \<open>The receive path\<close>

lemma fine_inv_receive:
  assumes "fine_inv avail c"
  shows "delivered c = consumed c @ rx_bytes (world (fw_state c)) \<and>
    (UART_rx_valid (uart (fst (world (fw_state c)))) \<longrightarrow>
       SnakeSoC_meip_wire (fst (world (fw_state c))) \<or> isr_at c \<noteq> IsrIdle \<or> avail (ker (fw_state c)) \<or>
       task_at c \<noteq> TaskWait)"
proof -
  note d = fine_invD [OF assms]
  show ?thesis
    using d(4,6) meip_iff [OF d(1,2)] by (auto simp: UART_rx_valid_def isr_inv_def split: isr_pc.splits)
qed

text \<open>C2: From the first access of \<open>main\<close> on no byte is lost and no wakeup is missed, at the
  granularity of bus accesses.  \<open>main\<close> is its program of single actions followed by the scheduler;
  the clock and the terminal run anywhere before and between the actions.  With an aligned
  handler, a kernel that grants its objects and an output stream that accepts every byte, the
  scheduler can be reached from every point of this run, and up to there the bytes the terminal
  delivered are all still waiting, in order.  From the scheduler on the clock, the terminal, the
  handler's three steps, the receiving task's accesses, every single byte of its lines and of the
  printing tasks' lines, and the software interrupt run in any interleaving (the handler may come
  between any two accesses or bytes of a task, and the tasks may preempt each other there).  At
  every point the bytes delivered are those the task took, in order, followed by those still
  waiting; and a byte in the buffer has its interrupt raised, the handler at work, the semaphore
  given, or the task on its way to it.  The one exception is a byte that was already in the buffer
  when \<open>main\<close> acknowledged the pending bit, as long as the task has taken nothing (C31).  The kernel
  is arbitrary up to the laws of its semaphore (\<open>sem_laws\<close>).\<close>

theorem rx_fine_no_loss:
  assumes "sem_laws k avail" "sys_inv (world s0)" "out_ok f (world s0)" "handler AND 3 = 0" "fst (kernel_made k (ker s0))"
    and "(boot_step k handler)\<^sup>*\<^sup>* (boot_start s0) b"
  shows "app_main k handler s0 = bind_res (boot_exec k handler boot_prog s0) (app_main_tail k) \<and>
    boot_in b = rx_bytes (world (boot_fw b)) \<and>
    (\<exists>b'. (boot_step k handler)\<^sup>*\<^sup>* b b' \<and> boot_rest b' = []) \<and>
    (boot_rest b = [] \<longrightarrow> uart_rx_sem (boot_fw b) \<and>
      (\<forall>n c. (fine_step k)\<^sup>*\<^sup>* (fine_start n (boot_fw b)) c \<longrightarrow>
        delivered c = consumed c @ rx_bytes (world (fw_state c)) \<and>
        (UART_rx_valid (uart (fst (world (fw_state c)))) \<longrightarrow>
           SnakeSoC_meip_wire (fst (world (fw_state c))) \<or> isr_at c \<noteq> IsrIdle \<or> avail (ker (fw_state c)) \<or>
           task_at c \<noteq> TaskWait \<or> stale b \<and> consumed c = [])))"
proof -
  have i: "boot_inv b" by (rule boot_run_inv [OF assms(6) boot_start_inv [OF assms(2)]])
  have "boot_live k handler f (boot_start s0)"
    using boot_start_inv [OF assms(2)] assms(3-5) boot_grants_prog [of k handler "ker s0"]
    by (simp add: boot_live_def boot_start_def)
  from boot_finishes [OF boot_run_live [OF assms(6) this]]
  have e: "\<exists>b'. (boot_step k handler)\<^sup>*\<^sup>* b b' \<and> boot_rest b' = []" by blast
  have "delivered c = consumed c @ rx_bytes (world (fw_state c)) \<and>
      (UART_rx_valid (uart (fst (world (fw_state c)))) \<longrightarrow>
         SnakeSoC_meip_wire (fst (world (fw_state c))) \<or> isr_at c \<noteq> IsrIdle \<or> avail (ker (fw_state c)) \<or>
         task_at c \<noteq> TaskWait \<or> stale b \<and> consumed c = [])"
    if "boot_rest b = []" "(fine_step k)\<^sup>*\<^sup>* (fine_start n (boot_fw b)) c" for n c
    using started_inv [OF sem_laws_keeps [OF assms(1)] i that] fine_inv_receive [of avail c] fine_inv_receive [of "\<lambda>_. True" c]
    by blast
  then show ?thesis using i e main_composed [of k handler s0] by (auto simp: boot_inv_def)
qed

text \<open>A start with one byte at the terminal, and the state after the first tick.\<close>

definition fw_typed :: "bool fw" where
  "fw_typed = (fw0 (host0\<lparr>h_stdin := [Some 65]\<rparr>))\<lparr>world := with_irq \<lparr>pending = 0, enable = 1, uart_rx_edge = False\<rparr>
     (soc0 None, host0\<lparr>h_stdin := [Some 65]\<rparr>)\<rparr>"

definition fine_typed :: "bool fine" where
  "fine_typed = (fine_start 0 fw_typed)\<lparr>fw_state := fw_typed\<lparr>uart_rx_sem := True, world := ticked (world fw_typed)\<rparr>\<rparr>"

lemma fw_typed_enabled: "enable_uart_rx_irq (fw0 (host0\<lparr>h_stdin := [Some 65]\<rparr>)) = Inr fw_typed"
  unfolding fw_typed_def by (subst enable_eq [OF fw0_inv(1)]) (simp add: fw0_def)

lemma fine_typed_run: "(fine_step sem_rtos)\<^sup>*\<^sup>* (fine_start 0 fw_typed) fine_typed"
proof -
  have "soc_tick (world fw_typed) = Inr (ticked (world fw_typed))"
    by (rule soc_tick_ticked) (simp add: fw_typed_def with_irq_def soc0_def)
  then show ?thesis
    using fine_step.hw_tick [of "fine_start 0 fw_typed" "ticked (world fw_typed)" sem_rtos]
    by (simp add: fine_typed_def fine_start_def r_into_rtranclp)
qed

lemma fine_typed_sel:
  "rx_valid (uart (fst (world (fw_state fine_typed))))" "rx_byte (uart (fst (world (fw_state fine_typed)))) = 65"
  "isr_at fine_typed = IsrIdle" "task_at fine_typed = TaskWait" "consumed fine_typed = []" "\<not> ker (fw_state fine_typed)"
  "delivered fine_typed = [65]" "out_ok Stdout (world (fw_state fine_typed))"
proof -
  have "rx_valid (uart (fst (ticked (world fw_typed))))" "rx_byte (uart (fst (ticked (world fw_typed)))) = 65"
    using ticked_receive [of "world fw_typed" 65 "[]"] by (simp_all add: fw_typed_def with_irq_def soc0_def)
  then show "rx_valid (uart (fst (world (fw_state fine_typed))))" "rx_byte (uart (fst (world (fw_state fine_typed)))) = 65"
    by (simp_all add: fine_typed_def)
  show "out_ok Stdout (world (fw_state fine_typed))"
    using ticked_out_ok [of Stdout "world fw_typed"]
    by (simp add: fine_typed_def fw_typed_def out_ok_def with_irq_def soc0_def)
  show "delivered fine_typed = [65]"
    by (simp add: fine_typed_def fine_start_def fw_typed_def with_irq_def rx_bytes_def rx_stream_def stdin_bytes_def
        soc0_def map_filter_def)
qed (simp_all add: fine_typed_def fine_start_def fw_typed_def fw0_def)

text \<open>A start-up without ticks, with one byte waiting at the terminal.\<close>

lemma typed_boot:
  obtains b where "(boot_step sem_rtos 0x80000100)\<^sup>*\<^sup>* (boot_start (fw0 (host0\<lparr>h_stdin := [Some 65]\<rparr>))) b" "boot_rest b = []"
    "\<not> stale b" "sys_inv (world (boot_fw b))" "out_ok Stdout (world (boot_fw b))"
    "\<not> rx_valid (uart (fst (world (boot_fw b))))" "h_stdin (snd (world (boot_fw b))) = [Some 65]"
proof -
  let ?init = "fw0 (host0\<lparr>h_stdin := [Some 65]\<rparr>)"
  have h: "out_ok Stdout (world ?init)" "boot_grants sem_rtos 0x80000100 boot_prog (ker ?init)"
    unfolding boot_grants_prog by (simp_all add: fw0_def soc0_def out_ok_def kernel_made_def sem_rtos_def)
  then have l: "boot_live sem_rtos 0x80000100 Stdout (boot_start ?init)"
    using boot_start_inv [OF fw0_inv(1)] by (simp add: boot_live_def boot_start_def)
  have u: "\<not> rx_valid (uart (fst (world ?init)))" "h_stdin (snd (world ?init)) = [Some 65]"
    by (simp_all add: fw0_def soc0_def)
  obtain b where b: "(boot_step sem_rtos 0x80000100)\<^sup>*\<^sup>* (boot_start ?init) b" "boot_rest b = []"
    "uart (fst (world (boot_fw b))) = uart (fst (world ?init))" "h_stdin (snd (world (boot_fw b))) = h_stdin (snd (world ?init))"
    "stale b \<longrightarrow> stale (boot_start ?init) \<or> rx_valid (uart (fst (world ?init)))"
    using boot_finishes [OF l] by (auto simp: boot_start_def)
  moreover have "boot_live sem_rtos 0x80000100 Stdout b" by (rule boot_run_live [OF b(1) l])
  ultimately show thesis using that u by (auto simp: boot_live_def boot_inv_def boot_start_def)
qed

text \<open>Witness: the constructed SoC with one byte at the terminal; after start-up it is still waiting,
  and after the first tick it is in the buffer and the interrupt is raised.\<close>

lemma rx_fine_no_loss_witness:
  "\<exists>b c. (boot_step sem_rtos 0x80000100)\<^sup>*\<^sup>* (boot_start (fw0 (host0\<lparr>h_stdin := [Some 65]\<rparr>))) b \<and> boot_rest b = [] \<and>
     boot_in b = [65] \<and> (fine_step sem_rtos)\<^sup>*\<^sup>* (fine_start 0 (boot_fw b)) c \<and> UART_rx_valid (uart (fst (world (fw_state c)))) \<and>
     (SnakeSoC_meip_wire (fst (world (fw_state c))) \<or> ker (fw_state c))"
proof -
  let ?init = "fw0 (host0\<lparr>h_stdin := [Some 65]\<rparr>)"
  have h: "out_ok Stdout (world ?init)" "(0x80000100 :: uint32) AND 3 = 0" "fst (kernel_made sem_rtos (ker ?init))"
    by (simp_all add: fw0_def soc0_def out_ok_def kernel_made_def sem_rtos_def)
  obtain b where b: "(boot_step sem_rtos 0x80000100)\<^sup>*\<^sup>* (boot_start ?init) b" "boot_rest b = []" "\<not> stale b"
    "sys_inv (world (boot_fw b))" "\<not> rx_valid (uart (fst (world (boot_fw b))))" "h_stdin (snd (world (boot_fw b))) = [Some 65]"
    by (rule typed_boot)
  let ?start = "fine_start 0 (boot_fw b)" let ?w = "ticked (world (boot_fw b))"
  let ?c = "?start\<lparr>fw_state := (fw_state ?start)\<lparr>world := ?w\<rparr>\<rparr>"
  note loss = rx_fine_no_loss [OF sem_rtos_laws fw0_inv(1) h b(1)]
  have st: "soc_tick (world (fw_state ?start)) = Inr ?w"
    using b(4) soc_tick_ticked [of "world (boot_fw b)"] by (simp add: fine_start_def sys_inv_def)
  have r: "(fine_step sem_rtos)\<^sup>*\<^sup>* ?start ?c" by (rule r_into_rtranclp) (rule fine_step.hw_tick [OF st])
  have v: "UART_rx_valid (uart (fst (world (fw_state ?c))))"
    using ticked_receive [of "world (boot_fw b)" 65 "[]"] b(4-6) by (simp add: UART_rx_valid_def sys_inv_def)
  have "isr_at ?c = IsrIdle" "task_at ?c = TaskWait" by (simp_all add: fine_start_def)
  with loss b(2,3) r v have "SnakeSoC_meip_wire (fst (world (fw_state ?c))) \<or> ker (fw_state ?c)" by blast
  moreover have "boot_in b = [65]"
    using loss b(5,6) by (simp add: rx_bytes_def rx_stream_def stdin_bytes_def map_filter_def)
  ultimately show ?thesis using b(1,2) r v by blast
qed

text \<open>C6: The receive path makes progress from everywhere, once \<open>main\<close> has acknowledged the pending
  bit on an empty buffer (for the byte of C31 see there) or the task has taken a byte: whatever
  point handler and task have reached, when a byte is in the buffer and the output stream accepts
  every byte from here on, there is a continuation, without any further input, in which this byte
  is the next one the task takes (through the handler and the semaphore when the task waits).\<close>

theorem rx_fine_progress:
  assumes "sem_laws k avail" "sys_inv (world s0)" "(boot_step k handler)\<^sup>*\<^sup>* (boot_start s0) b" "boot_rest b = []"
    and "(fine_step k)\<^sup>*\<^sup>* (fine_start n (boot_fw b)) c" "\<not> stale b \<or> consumed c \<noteq> []"
    and "UART_rx_valid (uart (fst (world (fw_state c))))" "out_ok f (world (fw_state c))"
  shows "\<exists>c'. (fine_step k)\<^sup>*\<^sup>* c c' \<and> delivered c' = delivered c \<and>
    consumed c' = consumed c @ [rx_byte (uart (fst (world (fw_state c))))]"
proof -
  have "boot_inv b" by (rule boot_run_inv [OF assms(3) boot_start_inv [OF assms(2)]])
  from started_inv(2) [OF sem_laws_keeps [OF assms(1)] this assms(4-6)] have "fine_inv avail c" .
  then have "holding avail f (rx_byte (uart (fst (world (fw_state c))))) (consumed c) (delivered c) c"
    using assms(7,8) by (simp add: holding_def UART_rx_valid_def)
  from holding_consumed [OF assms(1) this] show ?thesis by blast
qed

text \<open>Witness: the byte that arrives after start-up is taken.\<close>

lemma rx_fine_progress_witness:
  "\<exists>b c'. (boot_step sem_rtos 0x80000100)\<^sup>*\<^sup>* (boot_start (fw0 (host0\<lparr>h_stdin := [Some 65]\<rparr>))) b \<and>
     (fine_step sem_rtos)\<^sup>*\<^sup>* (fine_start 0 (boot_fw b)) c' \<and> consumed c' = [65]"
proof -
  obtain b where b: "(boot_step sem_rtos 0x80000100)\<^sup>*\<^sup>* (boot_start (fw0 (host0\<lparr>h_stdin := [Some 65]\<rparr>))) b"
    "boot_rest b = []" "\<not> stale b" "sys_inv (world (boot_fw b))" "out_ok Stdout (world (boot_fw b))"
    "\<not> rx_valid (uart (fst (world (boot_fw b))))" "h_stdin (snd (world (boot_fw b))) = [Some 65]"
    by (rule typed_boot)
  let ?start = "fine_start 0 (boot_fw b)" let ?w = "ticked (world (boot_fw b))"
  let ?c = "?start\<lparr>fw_state := (fw_state ?start)\<lparr>world := ?w\<rparr>\<rparr>"
  have st: "soc_tick (world (fw_state ?start)) = Inr ?w"
    using b(4) soc_tick_ticked [of "world (boot_fw b)"] by (simp add: fine_start_def sys_inv_def)
  have r: "(fine_step sem_rtos)\<^sup>*\<^sup>* ?start ?c" by (rule r_into_rtranclp) (rule fine_step.hw_tick [OF st])
  have t: "rx_valid (uart (fst ?w))" "rx_byte (uart (fst ?w)) = 65"
    using ticked_receive [of "world (boot_fw b)" 65 "[]"] b(4,6,7) by (simp_all add: sys_inv_def)
  have v: "UART_rx_valid (uart (fst (world (fw_state ?c))))" "out_ok Stdout (world (fw_state ?c))"
    using t ticked_out_ok [OF b(5)] by (simp_all add: UART_rx_valid_def)
  from rx_fine_progress [OF sem_rtos_laws fw0_inv(1) b(1,2) r disjI1 [OF b(3)] v]
  obtain c' where c': "(fine_step sem_rtos)\<^sup>*\<^sup>* ?c c'" "consumed c' = consumed ?c @ [rx_byte (uart (fst ?w))]" by auto
  have "consumed c' = [65]" using c'(2) t(2) by (simp add: fine_start_def)
  with b(1) rtranclp_trans [OF r c'(1)] show ?thesis by blast
qed

text \<open>C15: The two granularities agree: every run of the firmware's whole operations (handler, turn of
  the receive loop, line of a printing task, tick, input) is a run of single accesses between
  the corresponding states, so what holds in every fine-grained run holds in every coarse one.\<close>

theorem whole_runs_are_fine:
  assumes "(fw_step k)\<^sup>*\<^sup>* (s, Waiting, n, cn) (s', ph, n', cn')" "fw_state c = s" "isr_at c = IsrIdle" "task_at c = TaskWait" "events c = n"
    and "chat_at c = (\<lambda>_. None)" "chat_n c = cn"
  shows "\<exists>c'. (fine_step k)\<^sup>*\<^sup>* c c' \<and> fw_state c' = s' \<and> isr_at c' = IsrIdle \<and> events c' = n' \<and> chat_n c' = cn' \<and>
    task_at c' = (case ph of Waiting \<Rightarrow> TaskWait | Draining \<Rightarrow> TaskStatus)"
proof -
  have "embeds (s, Waiting, n, cn) c" using assms(2-) by (simp add: embeds_def)
  from fw_run_fine [OF assms(1) this] show ?thesis by (auto simp: embeds_def)
qed

text \<open>Witness: the arrival of a byte.\<close>

lemma whole_runs_are_fine_witness:
  "\<exists>c'. (fine_step sem_rtos)\<^sup>*\<^sup>* (fine_start 0 fw_typed) c' \<and> rx_valid (uart (fst (world (fw_state c')))) \<and> task_at c' = TaskWait"
proof -
  let ?s = "fw_typed\<lparr>uart_rx_sem := True\<rparr>" and ?w = "ticked (world fw_typed)"
  have "soc_tick (world ?s) = Inr ?w"
    using soc_tick_ticked [of "world ?s"] by (simp add: fw_typed_def with_irq_def soc0_def)
  then have "(fw_step sem_rtos)\<^sup>*\<^sup>* (?s, Waiting, 0, \<lambda>_. 0) (?s\<lparr>world := ?w\<rparr>, Waiting, 0, \<lambda>_. 0)"
    by (intro r_into_rtranclp fw_tick)
  moreover have "fw_state (fine_start 0 fw_typed) = ?s" "isr_at (fine_start 0 fw_typed) = IsrIdle"
    "task_at (fine_start 0 fw_typed) = TaskWait" "events (fine_start 0 fw_typed) = 0"
    "chat_at (fine_start 0 fw_typed) = (\<lambda>_. None)" "chat_n (fine_start 0 fw_typed) = (\<lambda>_. 0)"
    by (simp_all add: fine_start_def)
  moreover have "rx_valid (uart (fst ?w))" using fine_typed_sel(1) by (simp add: fine_typed_def)
  ultimately show ?thesis
    using whole_runs_are_fine [of sem_rtos ?s 0 "\<lambda>_. 0" "?s\<lparr>world := ?w\<rparr>" Waiting 0 "\<lambda>_. 0" "fine_start 0 fw_typed"] by fastforce
qed

section \<open>What the terminal shows\<close>

text \<open>C7: The output is a merge of the tasks' texts.  The tasks share one output symbol without a
  lock and can be preempted between any two bytes, so their lines may be mixed; but in every
  interleaving the stream holds what it held before and then exactly the bytes the tasks wrote,
  and the part of each task, with what is left of its current line, is its whole text in order.
  The text of the receiving task is one numbered line per byte it took, that of a printing task its
  numbered lines with the yield counts it read.\<close>

theorem output_is_merge:
  assumes "sem_laws k avail" "sys_inv (world s0)" "\<not> UART_rx_valid (uart (fst (world s0)))"
    and "enable_uart_rx_irq s0 = Inr s" "(fine_step k)\<^sup>*\<^sup>* (fine_start n s) c" "f = out_stream (fst (world s))"
  shows "h_out (snd (world (fw_state c))) f = h_out (snd (world s)) f @ map snd (heard c) \<and>
    (\<forall>p. voice p (heard c) @ unsaid c p = spoken c p) \<and> spoken c RxTask = rx_lines n (length (consumed c)) \<and>
    (\<forall>tag. spoken c (Chatty tag) = chatty_lines tag 0 (yields c tag))"
proof -
  have "fine_inv avail (fine_start n s)"
    using fine_start_inv [OF assms(2) _ assms(4)] assms(3) by (simp add: UART_rx_valid_def)
  with out_run [OF assms(5,1)] start_out [of s n] assms(6) have "shown f (h_out (snd (world s)) f) c" "said n c"
    by blast+
  then show ?thesis by (simp add: shown_def said_def)
qed

text \<open>Witness: the byte that arrives is taken; the line of its event is on the way to the stream.\<close>

lemma output_is_merge_witness:
  "\<exists>c. (fine_step sem_rtos)\<^sup>*\<^sup>* (fine_start 0 fw_typed) c \<and> consumed c = [65] \<and>
     voice RxTask (heard c) @ unsaid c RxTask = rx_line 0"
proof -
  have nv: "\<not> UART_rx_valid (uart (fst (world (fw0 (host0\<lparr>h_stdin := [Some 65]\<rparr>)))))"
    by (simp add: fw0_def soc0_def UART_rx_valid_def)
  have "fine_inv (\<lambda>q. q) fine_typed"
    using fine_run_inv [OF fine_typed_run sem_rtos_laws] fine_start_inv [OF fw0_inv(1) fw0_inv(2) [THEN eq_False [THEN iffD1]] fw_typed_enabled]
    by blast
  then have "holding (\<lambda>q. q) Stdout 65 [] [65] fine_typed" using fine_typed_sel by (simp add: holding_def)
  from holding_consumed [OF sem_rtos_laws this] obtain c where c: "(fine_step sem_rtos)\<^sup>*\<^sup>* fine_typed c" "consumed c = [65]"
    by auto
  then have r: "(fine_step sem_rtos)\<^sup>*\<^sup>* (fine_start 0 fw_typed) c" using fine_typed_run by (blast intro: rtranclp_trans)
  have "voice RxTask (heard c) @ unsaid c RxTask = rx_lines 0 (length (consumed c))"
    using output_is_merge [OF sem_rtos_laws fw0_inv(1) nv fw_typed_enabled r refl] by metis
  then have "voice RxTask (heard c) @ unsaid c RxTask = rx_line 0" using c(2) by (simp del: unsaid.simps)
  with r c(2) show ?thesis by blast
qed

section \<open>Start-up\<close>

text \<open>C16: What \<open>main\<close> does, on every path up to the scheduler.  With a handler aligned to four bytes
  and a kernel that grants the semaphore and the three tasks, the scheduler is entered with the
  trap vector set, exactly the receive interrupt unmasked, its stale edge acknowledged, the rest
  of the machine untouched and the two boot lines printed.  Otherwise, at the first refusal, the
  assertion ends the run with code 1 and the scheduler is never entered.\<close>

theorem app_main_outcome:
  assumes "sys_inv (world s)" "out_ok f (world s)"
  shows "\<exists>w. sys_inv w \<and> fst w = (fst (world s))\<lparr>irq_agg := \<lparr>pending = 0, enable = 1, uart_rx_edge = False\<rparr>\<rparr> \<and>
    h_out (snd w) f = h_out (snd (world s)) f @ boot_lines \<and>
    app_main k handler s =
      (if handler AND 3 = 0 \<and> fst (kernel_made k (ker s))
       then app_main_tail k (s\<lparr>mtvec := handler, uart_rx_sem := True, ker := snd (kernel_made k (ker s)), world := w\<rparr>)
       else Inl (Halt 1))"
  using app_main_boots [OF assms, of k handler] unfolding boot_world_def by blast

text \<open>Witness: the handler at an odd address.\<close>

lemma app_main_outcome_witness:
  "app_main sem_rtos 0x80000101 (fw0 host0) = Inl (Halt 1)"
proof -
  have "out_ok Stdout (world (fw0 host0))" by (simp add: fw0_def out_ok_def soc0_def)
  from app_main_outcome [OF fw0_inv(1) this, of sem_rtos "0x80000101"] show ?thesis by auto
qed

text \<open>The kernel calls of \<open>main\<close> respect the configuration: every task it creates has a priority
  below \<open>configMAX_PRIORITIES\<close> (and below the timer task's), a name that fits
  \<open>configMAX_TASK_NAME_LEN\<close> with its terminator, a stack of at least the configured depth and, if
  it runs \<open>chatty_task\<close>, a tag whose first character can be read.  So a kernel that behaves differently on other
  calls cannot be told apart.\<close>

theorem app_main_legal_calls:
  assumes "\<And>code name stack pv prio q. prio < configTIMER_TASK_PRIORITY \<Longrightarrow> length name < configMAX_TASK_NAME_LEN \<Longrightarrow>
    configMINIMAL_STACK_SIZE \<le> stack \<Longrightarrow> (code = ChattyTask \<longrightarrow> pv \<noteq> None \<and> pv \<noteq> Some []) \<Longrightarrow>
    task_create k' code name stack pv prio q = task_create k code name stack pv prio q"
    and "sem_create k' = sem_create k" "mask_irqs k' = mask_irqs k" "scheduler k' = scheduler k"
  shows "app_main k' handler s = app_main k handler s"
proof -
  let ?n = configMINIMAL_STACK_SIZE and ?c = task_create
  have t: "?c k' ChattyTask ''chatty_A'' ?n (Some (lit ''A'')) 2 = ?c k ChattyTask ''chatty_A'' ?n (Some (lit ''A'')) 2"
    "?c k' ChattyTask ''chatty_B'' ?n (Some (lit ''B'')) 2 = ?c k ChattyTask ''chatty_B'' ?n (Some (lit ''B'')) 2"
    "?c k' UartRxTask ''uart_rx'' ?n None 3 = ?c k UartRxTask ''uart_rx'' ?n None 3"
    using assms(1) by (simp_all add: config_defs lit_def fun_eq_iff)
  have a: "configASSERT k' = configASSERT k"
    by (simp add: configASSERT_def vAssertCalled_def assms(3) fun_eq_iff)
  show ?thesis
    by (simp add: app_main_def install_mtvec_def app_create_task_def t a assms(2,4))
qed

lemma app_main_legal_calls_witness:
  "app_main (sem_rtos\<lparr>task_create := (\<lambda>code name stack pv prio q. (prio < 4 \<and> length name < 12 \<and> 128 \<le> stack, q))\<rparr>) 0x80000100 (fw0 host0) =
   app_main sem_rtos 0x80000100 (fw0 host0)"
  by (rule app_main_legal_calls) (simp_all add: sem_rtos_def config_defs configMINIMAL_STACK_SIZE_def)

text \<open>C18: The kernel's time base.  The addresses of the configuration reach the CLINT's counter and
  comparator over the bus, and a comparator set \<open>configCPU_CLOCK_HZ / configTICK_RATE_HZ\<close> (one
  thousand) above the counter, in two word writes, raises the timer interrupt after exactly so
  many ticks and keeps it raised, as long as the 64-bit counter does not wrap.\<close>

theorem tick_interval:
  assumes "sys_inv s" "unat (mtime (clint (fst s))) + 1000 < 2 ^ 64"
    and "nxt = mtime (clint (fst s)) + ucast (configCPU_CLOCK_HZ div configTICK_RATE_HZ)"
  shows "soc_read s configMTIME_BASE_ADDRESS 4 (Some x) = Inr (AXI_RESP_OKAY, Some (ucast (mtime (clint (fst s)))), s) \<and>
    (\<exists>s1 s2. soc_write s configMTIMECMP_BASE_ADDRESS 4 (ucast nxt) 0xF = Inr (AXI_RESP_OKAY, s1) \<and>
      soc_write s1 (configMTIMECMP_BASE_ADDRESS + 4) 4 (ucast (drop_bit 32 nxt)) 0xF = Inr (AXI_RESP_OKAY, s2) \<and>
      (\<forall>n. unat (mtime (clint (fst s))) + n < 2 ^ 64 \<longrightarrow>
         SnakeSoC_mtip_wire (fst ((ticked ^^ n) s2)) = (1000 \<le> n)))"
proof (intro conjI exI allI impI)
  have m: "memmap (fst s) = soc_map" using sys_inv_irq [OF assms(1)] by simp
  let ?c = "clint (fst s)"
  let ?s1 = "with_clint (set_mtimecmp_lo ?c (ucast nxt)) s"
  let ?s2 = "with_clint (?c\<lparr>mtimecmp := nxt\<rparr>) s"
  have m1: "memmap (fst ?s1) = soc_map" using m by (simp add: with_clint_def)
  show "soc_read s configMTIME_BASE_ADDRESS 4 (Some x) = Inr (AXI_RESP_OKAY, Some (ucast (mtime ?c)), s)"
    using read_mtime(1) [OF m] low_half [of "mtime ?c"] by (simp add: mtime_lo_def)
  show "soc_write s configMTIMECMP_BASE_ADDRESS 4 (ucast nxt) 0xF = Inr (AXI_RESP_OKAY, ?s1)"
    by (rule write_mtimecmp(1) [OF m])
  show "soc_write ?s1 (configMTIMECMP_BASE_ADDRESS + 4) 4 (ucast (drop_bit 32 nxt)) 0xF = Inr (AXI_RESP_OKAY, ?s2)"
    using write_mtimecmp(2) [OF m1] set_both_halves [of ?c nxt] by (simp add: with_clint_def)
  fix n assume n: "unat (mtime ?c) + n < 2 ^ 64"
  have "unat nxt = unat (mtime ?c) + 1000"
    using assms(2,3) by (simp add: configCPU_CLOCK_HZ_def configTICK_RATE_HZ_def unat_word_ariths)
  then show "SnakeSoC_mtip_wire (fst ((ticked ^^ n) ?s2)) = (1000 \<le> n)"
    using clint_mtip_after [of "?c\<lparr>mtimecmp := nxt\<rparr>" n] n
    by (simp add: SnakeSoC_mtip_wire_def ticks_clint with_clint_def)
qed

lemma tick_interval_witness:
  "soc_read (soc0 None, host0) configMTIME_BASE_ADDRESS 4 (Some 7) = Inr (AXI_RESP_OKAY, Some 0, (soc0 None, host0)) \<and>
   (\<exists>s2. \<not> SnakeSoC_mtip_wire (fst ((ticked ^^ 999) s2)) \<and> SnakeSoC_mtip_wire (fst ((ticked ^^ 1000) s2)))"
proof -
  let ?s = "(soc0 None, host0)"
  have t: "mtime (clint (fst ?s)) = 0" by (simp add: soc0_def)
  then have "unat (mtime (clint (fst ?s))) + 1000 < 2 ^ 64" by simp
  from tick_interval [OF sys_inv_soc0 this refl, of 7] obtain s2 where
    r: "soc_read ?s configMTIME_BASE_ADDRESS 4 (Some 7) = Inr (AXI_RESP_OKAY, Some 0, ?s)" and
    w: "\<And>n. unat (mtime (clint (fst ?s))) + n < 2 ^ 64 \<Longrightarrow> SnakeSoC_mtip_wire (fst ((ticked ^^ n) s2)) = (1000 \<le> n)"
    unfolding t by auto
  from w [of 999] w [of 1000] t have "\<not> SnakeSoC_mtip_wire (fst ((ticked ^^ 999) s2))"
    "SnakeSoC_mtip_wire (fst ((ticked ^^ 1000) s2))" by simp_all
  with r show ?thesis by blast
qed

end
