(* ===== verification/Pma.thy ===== *)
theory Pma
  imports Prelude
begin

text \<open>
  The physical memory attributes (\<open>devices/common/include/pma_defs.h\<close>): the entry, the linear
  lookup and the three predicates.  The table is generated from a file outside the sources and
  is an argument.  The lemmas describe the lookup as a partial map that does not depend on the
  order of the entries when they do not overlap.
\<close>

definition PMA_MAIN :: uint8 where "PMA_MAIN = 0"
definition PMA_IO :: uint8 where "PMA_IO = 1"
definition PMA_PERM_R :: uint8 where "PMA_PERM_R = 1"
definition PMA_PERM_W :: uint8 where "PMA_PERM_W = 2"
definition PMA_PERM_X :: uint8 where "PMA_PERM_X = 4"
definition PMA_PERM_RW :: uint8 where "PMA_PERM_RW = PMA_PERM_R OR PMA_PERM_W"
definition PMA_PERM_RX :: uint8 where "PMA_PERM_RX = PMA_PERM_R OR PMA_PERM_X"
definition PMA_PERM_RWX :: uint8 where "PMA_PERM_RWX = PMA_PERM_R OR PMA_PERM_W OR PMA_PERM_X"

definition PMA_CACHE_Y :: uint8 where "PMA_CACHE_Y = 1"
definition PMA_CACHE_N :: uint8 where "PMA_CACHE_N = 0"
definition PMA_IDEMP_Y :: uint8 where "PMA_IDEMP_Y = 1"
definition PMA_IDEMP_N :: uint8 where "PMA_IDEMP_N = 0"

lemmas pma_consts = PMA_MAIN_def PMA_IO_def PMA_PERM_R_def PMA_PERM_W_def PMA_PERM_X_def
  PMA_PERM_RW_def PMA_PERM_RX_def PMA_PERM_RWX_def
  PMA_CACHE_Y_def PMA_CACHE_N_def PMA_IDEMP_Y_def PMA_IDEMP_N_def

record pma_entry_t =
  pma_name :: string
  pma_base :: uint32
  pma_last :: uint32
  pma_kind :: uint8
  pma_perms :: uint8
  pma_cacheable :: uint8
  pma_idemp_r :: uint8
  pma_idemp_w :: uint8

text \<open>One line of the table: the macro that turns it into an initialiser, with its casts.\<close>

definition PMA_REGION ::
  "string \<Rightarrow> uint32 \<Rightarrow> uint32 \<Rightarrow> uint32 \<Rightarrow> uint32 \<Rightarrow> uint32 \<Rightarrow> uint32 \<Rightarrow> uint32 \<Rightarrow> pma_entry_t" where
  "PMA_REGION nm b l k p c ir iw =
     \<lparr>pma_name = nm, pma_base = b, pma_last = l, pma_kind = ucast k, pma_perms = ucast p,
      pma_cacheable = ucast c, pma_idemp_r = ucast ir, pma_idemp_w = ucast iw\<rparr>"

fun pma_lookup :: "pma_entry_t list \<Rightarrow> uint32 \<Rightarrow> pma_entry_t option" where
  "pma_lookup [] addr = None"
| "pma_lookup (e # es) addr =
     (if addr \<ge> pma_base e \<and> addr \<le> pma_last e then Some e else pma_lookup es addr)"

definition pma_is_cacheable :: "pma_entry_t list \<Rightarrow> uint32 \<Rightarrow> bool" where
  "pma_is_cacheable tbl addr =
     (case pma_lookup tbl addr of None \<Rightarrow> False | Some e \<Rightarrow> pma_cacheable e \<noteq> 0)"

definition pma_is_io :: "pma_entry_t list \<Rightarrow> uint32 \<Rightarrow> bool" where
  "pma_is_io tbl addr =
     (case pma_lookup tbl addr of None \<Rightarrow> False | Some e \<Rightarrow> pma_kind e = PMA_IO)"

definition pma_perms_allow :: "pma_entry_t list \<Rightarrow> uint32 \<Rightarrow> uint8 \<Rightarrow> bool" where
  "pma_perms_allow tbl addr want =
     (case pma_lookup tbl addr of None \<Rightarrow> False | Some e \<Rightarrow> pma_perms e AND want = want)"

definition in_region :: "pma_entry_t \<Rightarrow> uint32 \<Rightarrow> bool" where
  "in_region e addr \<longleftrightarrow> pma_base e \<le> addr \<and> addr \<le> pma_last e"

text \<open>No address lies in two different entries.\<close>

definition pma_disjoint :: "pma_entry_t list \<Rightarrow> bool" where
  "pma_disjoint tbl \<longleftrightarrow> (\<forall>e \<in> set tbl. \<forall>e' \<in> set tbl. \<forall>a. in_region e a \<and> in_region e' a \<longrightarrow> e = e')"

lemma pma_lookup_None: "pma_lookup tbl addr = None \<longleftrightarrow> (\<forall>e \<in> set tbl. \<not> in_region e addr)"
  by (induction tbl) (auto simp: in_region_def)

lemma pma_lookup_in: "pma_lookup tbl addr = Some e \<Longrightarrow> e \<in> set tbl \<and> in_region e addr"
  by (induction tbl) (auto simp: in_region_def split: if_splits)

lemma pma_lookup_iff:
  assumes "pma_disjoint tbl"
  shows "pma_lookup tbl addr = Some e \<longleftrightarrow> e \<in> set tbl \<and> in_region e addr"
proof
  assume e: "e \<in> set tbl \<and> in_region e addr"
  then obtain e' where "pma_lookup tbl addr = Some e'" using pma_lookup_None by (metis not_None_eq)
  with pma_lookup_in [OF this] e assms show "pma_lookup tbl addr = Some e" unfolding pma_disjoint_def by metis
qed (rule pma_lookup_in)

lemma pma_lookup_cong:
  "pma_disjoint tbl \<Longrightarrow> set tbl' = set tbl \<Longrightarrow> pma_lookup tbl' addr = pma_lookup tbl addr"
proof -
  assume d: "pma_disjoint tbl" "set tbl' = set tbl"
  then have "pma_disjoint tbl'" by (simp add: pma_disjoint_def)
  with d show ?thesis using pma_lookup_iff [of tbl addr] pma_lookup_iff [of tbl' addr]
    by (metis option.exhaust)
qed

text \<open>A line of the table with the constants of the header gives the attributes it names, and only
  to its own addresses as long as no earlier line has them.\<close>

lemma region_attributes:
  assumes "\<forall>e \<in> set tbl. \<not> in_region e a" "b \<le> a" "a \<le> l"
  shows "pma_is_cacheable (tbl @ PMA_REGION nm b l k p c ir iw # tbl') a \<longleftrightarrow> ucast c \<noteq> PMA_CACHE_N"
    and "pma_is_io (tbl @ PMA_REGION nm b l k p c ir iw # tbl') a \<longleftrightarrow> ucast k = PMA_IO"
    and "pma_perms_allow (tbl @ PMA_REGION nm b l k p c ir iw # tbl') a w \<longleftrightarrow> ucast p AND w = w"
proof -
  have "pma_lookup (tbl @ PMA_REGION nm b l k p c ir iw # tbl') a = Some (PMA_REGION nm b l k p c ir iw)"
    using assms by (induction tbl) (auto simp: PMA_REGION_def in_region_def)
  then show "pma_is_cacheable (tbl @ PMA_REGION nm b l k p c ir iw # tbl') a \<longleftrightarrow> ucast c \<noteq> PMA_CACHE_N"
    "pma_is_io (tbl @ PMA_REGION nm b l k p c ir iw # tbl') a \<longleftrightarrow> ucast k = PMA_IO"
    "pma_perms_allow (tbl @ PMA_REGION nm b l k p c ir iw # tbl') a w \<longleftrightarrow> ucast p AND w = w"
    by (simp_all add: pma_is_cacheable_def pma_is_io_def pma_perms_allow_def PMA_CACHE_N_def PMA_REGION_def)
qed

lemma perms_allow_or:
  "pma_perms_allow tbl addr (w OR w') \<longleftrightarrow> pma_perms_allow tbl addr w \<and> pma_perms_allow tbl addr w'"
proof -
  have "(p AND (w OR w') = w OR w') \<longleftrightarrow> (p AND w = w \<and> p AND w' = w')" for p :: uint8
    unfolding bit_eq_iff by (auto simp: bit_simps)
  then show ?thesis by (auto simp: pma_perms_allow_def split: option.splits)
qed

end
