(* ===== verification/Spec2Isabelle.thy ===== *)
theory Spec2Isabelle
  imports SocSystem SocCtor ElfSoC Dpi DpiBoot SocContract Logging RtSpec FwSpec Pma "HOL-Library.Multiset" "HOL-Library.Sublist"
begin

text \<open>
  Verification of the virtual Snake SoC, its loaders and bridges, the target's runtime and the
  demo firmware.

  \<^bold>\<open>The program.\<close>  A processor model sees one bus.  \<open>snake_soc\<close> composes five memory-mapped devices
  (boot ROM, CLINT timer, UART, interrupt aggregator, DRAM) behind an address decoder
  (\<open>devices/common/src/mem_map.c\<close>) and a clock (\<open>ticker.c\<close>) that ticks the CLINT, the UART and the
  aggregator, in this order.  The UART takes bytes from the host's terminal and raises an edge
  that the aggregator turns into a pending bit and the external interrupt.  \<open>elf_loader\<close> writes an
  executable into DRAM over the same bus; \<open>dpi\<close> exports the whole to the RTL testbench through one
  global pointer.  On the other side of the bus, \<open>runtime\<close> is the freestanding C library of the
  target (strings, \<open>printf\<close>, \<open>malloc\<close>, UART access) and \<open>freertos_demo\<close> a firmware on top of it.

  \<^bold>\<open>The theories.\<close>
  \<^item> \<open>Prelude\<close>: C integers as words, outcomes (\<open>fault + 'a\<close>), errno, words and their bytes.
    \<open>HostEnv\<close>: the part of the host's C library that is used, with its decisions as scripts.
    \<open>CMemory\<close>: C arrays with bounds and the little-endian byte loops.
  \<^item> \<open>MmioDevice\<close>: responses, vtable and dispatch (\<open>axi_resp.h\<close>, \<open>mmio_device.c\<close>), and the
    locales of the device contract: \<open>mmio_device\<close> (what every device promises) and \<open>device_part\<close> (a
    device embedded in a larger state).
  \<^item> \<open>Dev_BootROM\<close>, \<open>Dev_Clint\<close>, \<open>Dev_IrqAgg\<close>, \<open>Dev_Terminal\<close>, \<open>Dev_UART\<close>, \<open>Dev_DRAM\<close>: one device of
    \<open>devices/\<close> each, its record, its read, write and tick, its invariant, and its interpretation as
    an \<open>mmio_device\<close>.
  \<^item> \<open>MemMap\<close>, \<open>TickerReg\<close>: \<open>mem_map.c\<close> and \<open>ticker.c\<close> with the growth of their arrays, and the
    locales \<open>mmio_bus\<close> and \<open>tick_bus\<close> of a bus and a clock over contract-abiding devices.
  \<^item> \<open>SnakeSoC\<close>: \<open>snake_soc.c\<close>; \<open>SocBus\<close> its invariant and address map and the interpretation of the
    bus; \<open>SocSystem\<close> the running SoC as a step relation; \<open>SocCtor\<close> construction and destruction under
    every allocator.
  \<^item> \<open>SocSpec\<close>: the contract of the SoC as an abstract machine (memory as a function, two counters,
    a received byte, bits) and an abstraction function under which every bus access, tick and
    input of the model is the abstract one; \<open>SocContract\<close>: the refinement of whole runs from the
    constructed SoC, and the type of what a read delivers.
  \<^item> \<open>ElfLoader\<close>: \<open>elf_loader.c\<close>; \<open>ElfWrite\<close> and \<open>ElfLoad\<close> prove a segment and a file over any
    memory bus (locales \<open>byte_bus\<close>, \<open>quiet_bus\<close>); \<open>ElfSoC\<close> interprets them on the SoC.
  \<^item> \<open>Logging\<close>: the tracing decorator.  \<open>Dpi\<close>: the bridge and sequences of its calls;
    \<open>DpiBoot\<close>: constructor, loader and bus composed, up to what the testbench sees.  \<open>Pma\<close>: the
    memory attributes over a table argument.
  \<^item> \<open>RtString\<close>, \<open>RtStdio\<close>, \<open>RtMalloc\<close>, \<open>RtHal\<close>: \<open>runtime/src\<close>.  \<open>RtStdio\<close> shows that \<open>printf\<close> emits
    its rendering over any output symbol, and has two contracts of the symbol, \<open>putc_port\<close> (every
    byte is written) and \<open>putc_frame\<close> (a property is kept); \<open>RtHal\<close> interprets both on the UART of
    the SoC.  \<open>RtMock\<close>: the stand-in of the host tests.
  \<^item> \<open>AppRtos\<close>: \<open>freertos_demo\<close> with the kernel's calls as a record of functions.  \<open>AppFine\<close>: handler,
    receive loop and every printed line cut into single bus accesses (composed they are the
    handler, the loop and the lines of \<open>AppRtos\<close>), the step relation of all their interleavings and
    its invariant; \<open>AppLive\<close> progress from every reachable point, \<open>AppOut\<close> what the output stream
    holds, \<open>AppWhole\<close> the runs of \<open>AppRtos\<close> as such runs.  \<open>AppBoot\<close>: the constants of
    \<open>FreeRTOSConfig.h\<close> that meet the code, and what \<open>main\<close> does up to the scheduler.  \<open>AppStart\<close>:
    \<open>main\<close> cut into single accesses and kernel calls too (composed they are the \<open>main\<close> of \<open>AppRtos\<close>),
    with the clock and the terminal between them, up to the state the scheduler starts from.
    \<open>RtSpec\<close>, \<open>FwSpec\<close>: the properties of runtime and firmware.
  \<^item> This theory: the properties of the SoC as a whole.

  \<^bold>\<open>How code is translated.\<close>  A struct is a record, an enum a datatype, an integer a word of its
  width, an embedded trait struct a pair of functions into and out of the enclosing record
  (\<open>container_of\<close>).  A call that can abort (\<open>DEV_ASSERT\<close>), use a null pointer, leave an array or run
  into undefined behaviour returns \<open>Inl\<close> with the reason; result pointers are \<open>None\<close> when they are
  \<open>NULL\<close>.  Loops are recursive functions with a measure; the scans for a string terminator and the
  polling loops, which need not end, are partial functions, and their ending is proved
  (\<open>strings_compare\<close>, \<open>getc_delivers\<close>, \<open>rx_drain_empties\<close>).  No fuel is used.

  \<^bold>\<open>What the lemmas show.\<close>  Device contracts: no fault, no decode error, an error answer changes
  nothing and zeroes the result.  The system: no reachable state faults, bytes are neither lost nor
  duplicated between terminal and software, interrupts are raised and acknowledged, memory reads
  back what was written.  The loader: every exit, which error code in which case, and the resulting
  memory: the file's segments over the old memory, except the edge bytes of a segment (those outside
  its whole words, some of which are lost).
  Construction and bridge: no leak under a failing allocator, and a failed initialisation
  leaves a bridge that answers decode errors.  Runtime: \<open>printf\<close> equals its rendering, strings equal
  lists, blocks are disjoint for requests whose sizes do not wrap.  Firmware: from \<open>main\<close>'s first access on
  no byte is lost and every byte gets its wakeup, except one that is already in the buffer when
  \<open>main\<close> acknowledges the pending bit; and the output is a merge of the tasks' lines.
  The compositions: the SoC refines its abstract machine over whole runs of any accesses, and the
  bridge answers like that machine with the program in memory, when the segments of the file
  have no edge bytes.  A few theorems describe behaviour that the sources probably do not intend: edge bytes of
  unaligned segments are dropped (\<open>load_elf_segment_byte\<close>), address arithmetic wraps at the top
  (\<open>decode_wraps_at_top\<close>, \<open>unit_at_top\<close>, \<open>malloc_wraps\<close>), a failed registration with the
  clock is ignored (\<open>ctor_ignores_ticker_failure\<close>), a byte received before reception is enabled is
  never signalled (\<open>stale_byte_never_signalled\<close>), the smallest \<open>int\<close> cannot be printed
  where \<open>long\<close> has 32 bits (\<open>dec_signed_int_min\<close>).

  \<^bold>\<open>Assumptions of the models.\<close>  Messages on \<open>stderr\<close> are left out.  A heap block is an element of
  a counter, so leaks are seen but addresses of the host's heap are not; device references in the
  memory map are never null.  The trace line is written completely.  The ELF structures are read on
  a little-endian host.  A bus error traps the processor, which ends the run.  In \<open>SocSystem\<close>
  and \<open>AppRtos\<close> one call of an operation is one step; in \<open>AppStart\<close> and \<open>AppFine\<close> one bus access or
  kernel call is one step: the clock and the terminal run between any two accesses, those of \<open>main\<close>
  included (no handler runs there: interrupts are enabled when the scheduler starts), the handler between those of the tasks,
  and the tasks preempt each other between any two bytes.  There the scheduling of the kernel is
  over-approximated (priorities and delays do not restrict it, and there is a printing task for
  every tag), which is sound for what is shown of every run; progress uses only steps of the
  handler and of the receiving task, which \<open>main\<close> gives the highest priority.  The kernel's
  semaphore laws are the hypothesis \<open>sem_laws\<close>, which an instance meets.

  \<^bold>\<open>Not modelled.\<close>  The processor and the rest of the SystemVerilog sources, start-up assembly and
  linker scripts (not C); the FreeRTOS kernel and the generated attribute table (not in the
  repository); the configuration macros that only switch features of the kernel; the unit tests.
\<close>

section \<open>The running SoC\<close>

text \<open>C3: From the constructed SoC every sequence of bus reads, bus writes (any address, width,
  value, strobe), ticks and terminal input runs to its end: no call panics, dereferences a
  null pointer or leaves an array, and the system invariant holds at the end.\<close>

theorem soc_never_faults: "\<exists>bs s'. soc_run (soc0 f, h) ops bs s' \<and> sys_inv s'"
  using run_total [OF sys_inv_soc0] run_sys_inv [OF _ sys_inv_soc0] by meson

text \<open>C4: The bytes software has taken from the UART, followed by the byte in the buffer and the
  input still waiting, are the bytes the terminal delivered: none is lost, duplicated or
  reordered, whatever the interleaving of accesses and ticks.\<close>

theorem uart_rx_conserved:
  assumes "soc_run (soc0 f, h) ops bs s'"
  shows "bs @ rx_stream (uart (fst s')) (snd s') = stdin_bytes h @ concat (map fed ops)"
  using run_rx [OF assms sys_inv_soc0] by (simp add: rx_bytes_def rx_stream_def soc0_def)

text \<open>Witness: two bytes arrive, a tick latches the first, software takes it.\<close>

lemma uart_rx_conserved_witness:
  "\<exists>s'. soc_run (soc0 None, host0) [OpInput [Some 65, Some 66], OpTick, OpWrite 0x10001004 4 2 0xF] [65] s' \<and>
     [65] @ rx_stream (uart (fst s')) (snd s') = [65, 66]"
proof -
  let ?s1 = "(soc0 None, host0\<lparr>h_stdin := [Some 65, Some 66]\<rparr>)"
  let ?s2 = "ticked ?s1"
  have 1: "soc_step (soc0 None, host0) (OpInput [Some 65, Some 66]) ?s1"
    using do_input [of "soc0 None" host0 "[Some 65, Some 66]"] by simp
  have 2: "soc_step ?s1 OpTick ?s2" by (rule do_tick, rule soc_tick_ticked) (simp add: soc0_def)
  have inv: "soc_inv ?s2" by (rule ticked_inv, rule soc_inv_soc0(1))
  then obtain r s' where w: "soc_write ?s2 0x10001004 4 2 0xF = Inr (r, s')"
    using soc_quiet.quiet by blast
  have rx: "rx_valid (uart (fst ?s2))" "rx_byte (uart (fst ?s2)) = 65"
    using ticked_receive [of ?s1 65 "[Some 66]"] by (simp_all add: soc0_def)
  have "soc_run (soc0 None, host0) [OpInput [Some 65, Some 66], OpTick, OpWrite 0x10001004 4 2 0xF]
      (popped (soc0 None, host0) (OpInput [Some 65, Some 66]) @ popped ?s1 OpTick @
       popped ?s2 (OpWrite 0x10001004 4 2 0xF) @ []) s'"
    by (rule soc_run.step [OF 1 soc_run.step [OF 2 soc_run.step [OF do_write [OF w] soc_run.stop]]])
  then have run: "soc_run (soc0 None, host0) [OpInput [Some 65, Some 66], OpTick, OpWrite 0x10001004 4 2 0xF] [65] s'"
    using rx by (simp add: popped_def axi_width_def)
  have "[65] @ rx_stream (uart (fst s')) (snd s') = [65, 66]"
    using uart_rx_conserved [OF run] by (simp add: stdin_bytes_def List.map_filter_simps)
  with run show ?thesis by blast
qed

text \<open>C5: After any run, a tick that finds the receive buffer empty and a byte waiting at the
  terminal latches that byte and raises the pending bit within the same tick (the UART is
  ticked before the aggregator), so the external interrupt wire is up exactly when the enable
  bit is set.\<close>

theorem rx_interrupt_same_tick:
  assumes "soc_run (soc0 f, h) ops bs s" "\<not> UART_rx_valid (uart (fst s))" "h_stdin (snd s) = Some b # rest"
  shows "\<exists>s'. soc_step s OpTick s' \<and> UART_rx_valid (uart (fst s')) \<and> rx_byte (uart (fst s')) = b \<and>
    h_stdin (snd s') = rest \<and> pending (irq_agg (fst s')) = 1 \<and>
    SnakeSoC_meip_wire (fst s') = (enable (irq_agg (fst s)) = 1)"
proof -
  have s: "sys_inv s" using run_sys_inv [OF assms(1) sys_inv_soc0] .
  then have "soc_step s OpTick (ticked s)" by (intro do_tick soc_tick_ticked) (simp add: sys_inv_def)
  moreover have "irq_inv (irq_agg (fst s))" using s by (simp add: sys_inv_def soc_inv_def)
  ultimately show ?thesis
    using ticked_receive [of s b rest] s assms(2,3)
    by (intro exI [of _ "ticked s"])
      (auto simp: sys_inv_def UART_rx_valid_def SnakeSoC_meip_wire_def IrqAgg_meip_def irq_inv_def irq_consts)
qed

lemma rx_interrupt_same_tick_witness:
  "\<exists>s'. soc_step (soc0 None, host0\<lparr>h_stdin := [Some 65]\<rparr>) OpTick s' \<and> rx_byte (uart (fst s')) = 65"
proof -
  have "soc_run (soc0 None, host0\<lparr>h_stdin := [Some 65]\<rparr>) [] [] (soc0 None, host0\<lparr>h_stdin := [Some 65]\<rparr>)"
    by (rule soc_run.stop)
  from rx_interrupt_same_tick [OF this, of 65 "[]"] show ?thesis
    by (auto simp: UART_rx_valid_def soc0_def)
qed

text \<open>C19: The pending bit is sticky: once set it stays set through every run without a write of 1
  to bit 0 of the pending register, whatever else is written, read or received.\<close>

theorem pending_sticky:
  assumes "soc_run s ops bs s'" "sys_inv s" "pending (irq_agg (fst s)) = 1" "list_all (\<lambda>op. \<not> acks op) ops"
  shows "pending (irq_agg (fst s')) = 1"
  using run_pending [OF assms(1,2,4,3)] .

lemma pending_sticky_witness:
  "\<exists>bs s'. soc_run ((soc0 None)\<lparr>irq_agg := \<lparr>pending = 1, enable = 0, uart_rx_edge = False\<rparr>\<rparr>, host0)
      [OpTick, OpWrite 0x10004000 4 0 0xF] bs s' \<and> pending (irq_agg (fst s')) = 1"
proof -
  let ?s = "((soc0 None)\<lparr>irq_agg := \<lparr>pending = 1, enable = 0, uart_rx_edge = False\<rparr>\<rparr>, host0)"
  have i: "sys_inv ?s"
    using sys_inv_soc0 [of None host0] by (auto simp: sys_inv_def soc_inv_def irq_inv_def)
  then obtain bs s' where r: "soc_run ?s [OpTick, OpWrite 0x10004000 4 0 0xF] bs s'" using run_total by blast
  then have "pending (irq_agg (fst s')) = 1" by (rule pending_sticky [OF _ i]) simp_all
  with r show ?thesis by blast
qed

text \<open>A write of 1 to the pending bit clears it, keeps the enable register and drops the
  external interrupt wire.\<close>

theorem pending_acknowledged:
  assumes "soc_inv s" "v AND 1 \<noteq> 0"
  shows "\<exists>s'. soc_write s (ADDR_IRQ_AGG + IRQ_AGG_OFFSET_PENDING) 4 v 0xF = Inr (AXI_RESP_OKAY, s') \<and>
    pending (irq_agg (fst s')) = 0 \<and> enable (irq_agg (fst s')) = enable (irq_agg (fst s)) \<and>
    \<not> SnakeSoC_meip_wire (fst s')"
proof -
  obtain r s' where w: "soc_write s 0x10004000 4 v 0xF = Inr (r, s')"
    using soc_quiet.quiet [OF assms(1)] by blast
  with ack_write [OF assms(1) _ w] assms(2) show ?thesis
    by (auto simp: ADDR_IRQ_AGG_def irq_consts SnakeSoC_meip_wire_def IrqAgg_meip_def)
qed

lemma pending_acknowledged_witness:
  "\<exists>s'. soc_write ((soc0 None)\<lparr>irq_agg := \<lparr>pending = 1, enable = 1, uart_rx_edge = False\<rparr>\<rparr>, host0)
      0x10004000 4 1 0xF = Inr (AXI_RESP_OKAY, s') \<and> pending (irq_agg (fst s')) = 0"
proof -
  let ?s = "((soc0 None)\<lparr>irq_agg := \<lparr>pending = 1, enable = 1, uart_rx_edge = False\<rparr>\<rparr>, host0)"
  have "soc_inv ?s" using soc_inv_soc0(1) [of None host0] by (auto simp: soc_inv_def irq_inv_def)
  from pending_acknowledged [OF this, of 1] show ?thesis
    by (auto simp: ADDR_IRQ_AGG_def irq_consts)
qed

text \<open>The timer interrupt wire after \<open>n\<close> ticks is up exactly when the counter has reached
  the compare register, as long as the 64-bit counter does not wrap.\<close>

theorem timer_interrupt_after:
  assumes "ticker (fst s) = soc_ticker" "unat (mtime (clint (fst s))) + n < 2 ^ 64"
  shows "\<exists>s'. soc_run s (replicate n OpTick) [] s' \<and>
    (SnakeSoC_mtip_wire (fst s') = (unat (mtimecmp (clint (fst s))) \<le> unat (mtime (clint (fst s))) + n))"
proof (intro exI conjI)
  show "soc_run s (replicate n OpTick) [] ((ticked ^^ n) s)" by (rule run_ticks [OF assms(1)])
  show "SnakeSoC_mtip_wire (fst ((ticked ^^ n) s)) =
      (unat (mtimecmp (clint (fst s))) \<le> unat (mtime (clint (fst s))) + n)"
    using clint_mtip_after [OF assms(2)] by (simp add: SnakeSoC_mtip_wire_def ticks_clint)
qed

lemma timer_interrupt_after_witness:
  "\<exists>s'. soc_run ((soc0 None)\<lparr>clint := \<lparr>msip = 0, mtime = 0, mtimecmp = 3\<rparr>\<rparr>, host0) (replicate 3 OpTick) [] s' \<and>
     SnakeSoC_mtip_wire (fst s')"
proof -
  let ?s = "((soc0 None)\<lparr>clint := \<lparr>msip = 0, mtime = 0, mtimecmp = 3\<rparr>\<rparr>, host0)"
  have "ticker (fst ?s) = soc_ticker" by (simp add: soc0_def)
  from timer_interrupt_after [OF this, of 3] show ?thesis by auto
qed

section \<open>The bus\<close>

text \<open>Which response an access may get: never the exclusive one, success only for the widths 1, 2
  and 4, and a decode error as the address map says.\<close>

definition bus_answer :: "addr_t \<Rightarrow> size_t \<Rightarrow> axi_resp_e \<Rightarrow> bool" where
  "bus_answer a w r \<longleftrightarrow> r \<noteq> AXI_RESP_EXOKAY \<and> (r = AXI_RESP_OKAY \<longrightarrow> axi_width w) \<and>
     (if unat a + unat w < 2 ^ 32 then (r = AXI_RESP_DECERR) = (decode_spec (unat a) (unat w) = None)
      else r = spec_past_top a w)"

text \<open>C13: Every bus read and write returns, whatever the address, the width, the value and the
  strobe.  When the access ends below the top of the address space the response is a decode error
  exactly when the address map has no device that covers the whole access.  An access that ends
  at the top or past it always gets an error: the decode error unless a device lies behind its
  end address modulo \<open>2 ^ 32\<close>, otherwise the device error (C36).  Never is the response the
  exclusive one, an error of either kind zeroes the read result and changes nothing software can
  observe, and a read changes nothing at all.\<close>

theorem bus_responses:
  assumes "soc_inv s"
  shows "(\<exists>r q. soc_read s a w (Some v) = Inr (r, Some q, s) \<and> bus_answer a w r \<and> (r = AXI_RESP_OKAY \<or> q = 0)) \<and>
    (\<exists>r s'. soc_write s a w val strb = Inr (r, s') \<and> bus_answer a w r \<and>
      (r = AXI_RESP_OKAY \<or> soc_regs s' = soc_regs s) \<and> soc_inv s')"
proof (cases "unat a + unat w < 2 ^ 32")
  case False
  with past_top [OF assms, of a w v] past_top(2) [OF assms, of a w val strb] assms show ?thesis
    by (simp add: bus_answer_def spec_past_top_def)
next
  case True
  have m: "memmap (fst s) = soc_map" using assms by (simp add: soc_inv_def)
  have d: "find_unit soc_map a w = None \<longleftrightarrow> decode_spec (unat a) (unat w) = None"
    using True find_unit_range [of a w] by (metis option.map_disc_iff decode_spec_def mod_less)
  obtain r q s' where r: "soc_read s a w (Some v) = Inr (r, Some q, s')"
    using soc_bus.bus_read_total [OF assms, of "memmap (fst s)" a w v] by (auto simp: soc_read_def)
  have "s' = s" using soc_read_same [OF assms r] .
  moreover have "r = AXI_RESP_OKAY \<Longrightarrow> axi_width w"
    using soc_bus.bus_read_width [OF assms] r unfolding soc_read_def by blast
  ultimately have rd: "\<exists>r q. soc_read s a w (Some v) = Inr (r, Some q, s) \<and> bus_answer a w r \<and> (r = AXI_RESP_OKAY \<or> q = 0)"
    using soc_bus.bus_read_resp [OF assms r [unfolded soc_read_def]] r True
    unfolding m d bus_answer_def by (intro exI [of _ r] exI [of _ q]) auto
  obtain r s' where w: "soc_write s a w val strb = Inr (r, s')" "soc_inv s'"
    using soc_quiet.quiet [OF assms] by blast
  moreover have "r = AXI_RESP_OKAY \<Longrightarrow> axi_width w"
    using soc_bus.bus_write_width [OF assms] w(1) unfolding soc_write_def by blast
  ultimately have "\<exists>r s'. soc_write s a w val strb = Inr (r, s') \<and> bus_answer a w r \<and>
      (r = AXI_RESP_OKAY \<or> soc_regs s' = soc_regs s) \<and> soc_inv s'"
    using soc_bus.bus_write_resp [OF assms w(1) [unfolded soc_write_def]] True
    unfolding m d bus_answer_def by (intro exI [of _ r] exI [of _ s']) auto
  with rd show ?thesis by blast
qed

lemma bus_responses_witness:
  "\<exists>r q. soc_read (soc0 None, host0) 0x1000 4 (Some 7) = Inr (r, Some q, (soc0 None, host0)) \<and>
     r = AXI_RESP_DECERR"
  using bus_responses [OF soc_inv_soc0(1) [of None host0], of "0x1000" 4 7 0 0]
  by (auto simp: bus_answer_def decode_defs)

text \<open>C14: Memory.  An aligned write to the DRAM window whose strobe selects every byte of its
  width succeeds, and the next read of that address returns the value cut to the width.\<close>

theorem dram_read_after_write:
  assumes "soc_inv s" "dram_addr a w" "strb AND mask (unat w) = mask (unat w)" "w = 4 \<longrightarrow> strb = 0xF"
  shows "\<exists>s'. soc_write s a w v strb = Inr (AXI_RESP_OKAY, s') \<and> soc_inv s' \<and>
    soc_read s' a w (Some x) = Inr (AXI_RESP_OKAY, Some (take_bit (8 * unat w) v), s')"
proof -
  let ?s' = "put_dram (dram_store (dram (fst s)) (a - 0x80000000) w v strb) s"
  have w: "unat w \<in> {1, 2, 4}" using assms(2) axi_width_unat by (auto simp: dram_addr_def)
  have lanes: "i < unat w \<Longrightarrow> bit strb i" for i
  proof -
    assume "i < unat w"
    moreover from this have "i < 8" using w by auto
    ultimately have "bit (strb AND mask (unat w)) i" unfolding assms(3) by (simp add: bit_simps)
    then show "bit strb i" by (simp add: bit_simps)
  qed
  have wr: "soc_write s a w v strb = Inr (AXI_RESP_OKAY, ?s')" by (rule soc_write_dram [OF assms(1,2,4)])
  have inv: "soc_inv ?s'" using assms(1) by simp
  have "soc_read ?s' a w (Some x) = Inr (AXI_RESP_OKAY, Some (take_bit (8 * unat w) v), ?s')"
    unfolding soc_read_dram [OF inv assms(2)] dram_bytes_store [OF assms(2)]
    using le_value_strobed [OF w, of strb "dram_bytes s" "unat a - 0x80000000" v] lanes by simp
  with wr inv show ?thesis by blast
qed

lemma dram_read_after_write_witness:
  "\<exists>s'. soc_write (soc0 None, host0) 0x80000100 2 0xABCD1234 3 = Inr (AXI_RESP_OKAY, s') \<and>
     soc_read s' 0x80000100 2 (Some 0) = Inr (AXI_RESP_OKAY, Some 0x1234, s')"
proof -
  have "dram_addr 0x80000100 2" by (simp add: dram_addr_def axi_width_def)
  then show ?thesis
    using dram_read_after_write [OF soc_inv_soc0(1) [of None host0], of "0x80000100" 2 3 "0xABCD1234" 0]
    by (auto simp: mask_eq_exp_minus_1 take_bit_eq_mask)
qed

text \<open>A DRAM write changes exactly the selected bytes: a read of an address range that the
  write does not touch returns what it returned before.\<close>

theorem dram_write_frame:
  assumes "soc_inv s" "dram_addr a w" "w = 4 \<longrightarrow> strb = 0xF" "dram_addr a' w'"
    and "unat a' + unat w' \<le> unat a \<or> unat a + unat w \<le> unat a'"
  shows "\<exists>s' y. soc_write s a w v strb = Inr (AXI_RESP_OKAY, s') \<and>
    soc_read s a' w' (Some x) = Inr (AXI_RESP_OKAY, Some y, s) \<and>
    soc_read s' a' w' (Some x) = Inr (AXI_RESP_OKAY, Some y, s')"
proof -
  let ?s' = "put_dram (dram_store (dram (fst s)) (a - 0x80000000) w v strb) s"
  have wr: "soc_write s a w v strb = Inr (AXI_RESP_OKAY, ?s')" by (rule soc_write_dram [OF assms(1-3)])
  have inv: "soc_inv ?s'" using assms(1) by simp
  have "0x80000000 \<le> unat a" "0x80000000 \<le> unat a'" using assms(2,4) by (simp_all add: dram_addr_def)
  then have dis: "unat a' - 0x80000000 + unat w' \<le> unat a - 0x80000000 \<or>
      unat a - 0x80000000 + unat w \<le> unat a' - 0x80000000"
    using assms(5) by linarith
  show ?thesis
    using wr soc_read_dram [OF assms(1,4), of x]
      soc_read_dram [OF inv assms(4), of x, unfolded dram_bytes_store [OF assms(2)] le_value_strobed_other [OF dis]]
    by blast
qed

lemma dram_write_frame_witness:
  "\<exists>s' y. soc_write (soc0 None, host0) 0x80000004 4 1 0xF = Inr (AXI_RESP_OKAY, s') \<and>
     soc_read s' 0x80000000 4 (Some 0) = Inr (AXI_RESP_OKAY, Some y, s')"
proof -
  have "dram_addr 0x80000004 4" "dram_addr 0x80000000 4" by (simp_all add: dram_addr_def axi_width_def)
  then show ?thesis
    using dram_write_frame [OF soc_inv_soc0(1) [of None host0], of "0x80000004" 4 "0xF" "0x80000000" 4 1 0]
    by auto
qed

text \<open>The boot stub survives: after any run the first two words of the ROM are the
  instructions \<^verbatim>\<open>lui ra, 0x80000\<close> and \<^verbatim>\<open>jalr zero, 0(ra)\<close> of \<open>boot_rom.c\<close>.\<close>

theorem boot_stub_intact:
  assumes "soc_run (soc0 f, h) ops bs s"
  shows "soc_read s ADDR_BOOT_ROM 4 (Some v) = Inr (AXI_RESP_OKAY, Some BOOT_ROM_STUB_W0, s) \<and>
    soc_read s (ADDR_BOOT_ROM + 4) 4 (Some v) = Inr (AXI_RESP_OKAY, Some BOOT_ROM_STUB_W1, s)"
proof -
  have i: "soc_inv s" using run_sys_inv [OF assms sys_inv_soc0] by (simp add: sys_inv_def)
  have m: "memmap (fst s) = soc_map" and r: "rom (boot_rom (fst s)) = \<lparr>arr_len = 4096, arr_at = boot_image\<rparr>"
    using i by (simp_all add: soc_inv_def)
  have ri: "rom_inv (boot_rom (fst s))" using r by (simp add: rom_inv_def)
  have img: "le_value boot_image 0 4 = BOOT_ROM_STUB_W0" "le_value boot_image 4 4 = BOOT_ROM_STUB_W1"
    using le_value_bytes [of 4 boot_image 0 BOOT_ROM_STUB_W0] le_value_bytes [of 4 boot_image 4 BOOT_ROM_STUB_W1]
    by (simp_all add: boot_image_def take_bit_word_eq_self)
  have rd: "soc_read s a 4 (Some v) = bind_res (BootROM_MmioDevice_read (boot_rom (fst s)) a 4 (Some v))
      (\<lambda>(r, q, t). Inr (r, q, put_rom t s))" if "a = 0 \<or> a = 4" for a
    using that by (auto simp: soc_read_def m MemoryMap_read_def MmioDevice_read_def lift_read_def vtbl_defs
        lens_defs find_unit_def soc_map_def Let_def)
  have put: "put_rom (boot_rom (fst s)) s = s" by (simp add: put_rom_def)
  show ?thesis
    using rd [of 0] rd [of 4] rom_read_okay [OF ri, of 4 0 v] rom_read_okay [OF ri, of 4 4 v]
    by (simp add: ADDR_BOOT_ROM_def axi_width_def r img put)
qed

lemma boot_stub_intact_witness:
  "soc_read (soc0 None, host0) ADDR_BOOT_ROM 4 (Some 0) = Inr (AXI_RESP_OKAY, Some BOOT_ROM_STUB_W0, (soc0 None, host0))"
  using boot_stub_intact [OF soc_run.stop [of "(soc0 None, host0)"], of 0] by blast

section \<open>The ELF loader\<close>

text \<open>A file of one loadable segment of six bytes at the start of DRAM, for the witnesses.\<close>

definition demo_elf :: cfile where
  "demo_elf = \<lparr>f_data =
     [0x7F, 0x45, 0x4C, 0x46, 1, 1, 1, 0, 0, 0, 0, 0, 0, 0, 0, 0,
      2, 0, 243, 0, 1, 0, 0, 0, 0, 0, 0, 0x80, 52, 0, 0, 0, 0, 0, 0, 0, 0, 0, 0, 0, 52, 0, 32, 0, 1, 0, 0, 0, 0, 0, 0, 0,
      1, 0, 0, 0, 84, 0, 0, 0, 0, 0, 0, 0x80, 0, 0, 0, 0x80, 6, 0, 0, 0, 6, 0, 0, 0, 5, 0, 0, 0, 4, 0, 0, 0,
      0xA0, 0xA1, 0xA2, 0xA3, 0xA4, 0xA5], f_seekable = True, f_pos = 0\<rparr>"

definition demo_host :: host where
  "demo_host = host0\<lparr>h_fs := (\<lambda>_. None)(''a.elf'' \<mapsto> demo_elf)\<rparr>"

definition demo_header :: Elf32_Ehdr where
  "demo_header = decode_Ehdr (take sizeof_Ehdr (f_data demo_elf))"

lemma demo_facts:
  "elf_header demo_host ''a.elf'' = Some (demo_elf, demo_header)" "unat (e_phnum demo_header) = 1"
  "file_phdr demo_elf demo_header 0 =
     \<lparr>p_type = 1, p_offset = 84, p_vaddr = 0x80000000, p_paddr = 0x80000000, p_filesz = 6\<rparr>"
  "phdrs_ok 0x80000000 0x84000000 demo_elf demo_header" "heap_grant (of_nat CHUNK) demo_host"
proof -
  have hdr: "demo_header = \<lparr>e_ident = [0x7F, 0x45, 0x4C, 0x46, 1, 1, 1, 0, 0, 0, 0, 0, 0, 0, 0, 0],
      e_type = 2, e_machine = 243, e_entry = 0x80000000, e_phoff = 52, e_phnum = 1\<rparr>"
    by (simp add: demo_header_def demo_elf_def decode_Ehdr_def sizeof_Ehdr_def get16_def get32_def le_word_def)
  show "unat (e_phnum demo_header) = 1" by (simp add: hdr)
  have dec: "decode_Ehdr (take sizeof_Ehdr (f_data demo_elf)) = demo_header" by (simp add: demo_header_def)
  have len: "length (f_data demo_elf) = 90" by (simp add: demo_elf_def)
  show "elf_header demo_host ''a.elf'' = Some (demo_elf, demo_header)"
    using len
    by (simp add: elf_header_def demo_host_def dec hdr check_Ehdr_def ELFMAG_def ELFCLASS32_def EM_RISCV_def
        ET_EXEC_def ELF_LOADER_DRAM_BASE_def) (simp add: sizeof_Ehdr_def)
  show ph: "file_phdr demo_elf demo_header 0 =
     \<lparr>p_type = 1, p_offset = 84, p_vaddr = 0x80000000, p_paddr = 0x80000000, p_filesz = 6\<rparr>"
    by (simp add: file_phdr_def phdr_off_def hdr demo_elf_def decode_Phdr_def sizeof_Phdr_def get32_def le_word_def)
  show "phdrs_ok 0x80000000 0x84000000 demo_elf demo_header"
    using ph len
    by (simp add: phdrs_ok_def phdr_ok_def hdr phdr_off_def sizeof_Phdr_def) (simp add: demo_elf_def)
  show "heap_grant (of_nat CHUNK) demo_host"
    by (simp add: heap_grant_def demo_host_def CHUNK_def)
qed

text \<open>The same file without its last byte.\<close>

definition cut_elf :: cfile where
  "cut_elf = demo_elf\<lparr>f_data := take 89 (f_data demo_elf)\<rparr>"

definition cut_host :: host where
  "cut_host = host0\<lparr>h_fs := (\<lambda>_. None)(''a.elf'' \<mapsto> cut_elf)\<rparr>"

lemma cut_facts: "path_in_dram cut_host ''a.elf''" "load_verdict cut_host ''a.elf'' = Some EIO"
proof -
  have hdr: "decode_Ehdr (take sizeof_Ehdr (f_data cut_elf)) = demo_header"
    by (simp add: cut_elf_def demo_header_def sizeof_Ehdr_def)
  have off: "phdr_off demo_header 0 = 52"
    by (simp add: demo_header_def demo_elf_def decode_Ehdr_def sizeof_Ehdr_def get16_def get32_def le_word_def phdr_off_def)
  then have ph: "file_phdr cut_elf demo_header 0 = file_phdr demo_elf demo_header 0"
    by (simp add: file_phdr_def cut_elf_def sizeof_Phdr_def take_drop)
  have len: "length (f_data cut_elf) = 89" "f_seekable cut_elf" by (simp_all add: cut_elf_def demo_elf_def)
  have chk: "check_Ehdr demo_header = None"
    using demo_facts(1) by (auto simp: elf_header_def split: option.splits if_splits)
  show "path_in_dram cut_host ''a.elf''"
    by (simp add: path_in_dram_def cut_host_def hdr segments_in_def demo_facts(2) ph demo_facts(3) Let_def)
  have "phdr_verdict cut_elf demo_header 0 = Some EIO"
    by (simp add: phdr_verdict_def off ph demo_facts(3) len sizeof_Phdr_def loadable_def PT_LOAD_def Let_def)
  then show "load_verdict cut_host ''a.elf'' = Some EIO"
    by (simp add: load_verdict_def cut_host_def hdr [unfolded sizeof_Ehdr_def] len chk elf_verdict_def demo_facts(2) sizeof_Ehdr_def Let_def
        heap_grant_def CHUNK_def)
qed

text \<open>The same file with a segment of five bytes, which has no edge byte.\<close>

definition whole_elf :: cfile where
  "whole_elf = demo_elf\<lparr>f_data := (f_data demo_elf)[68 := 5]\<rparr>"

definition whole_host :: host where
  "whole_host = host0\<lparr>h_fs := (\<lambda>_. None)(''a.elf'' \<mapsto> whole_elf)\<rparr>"

lemma whole_facts:
  "elf_header whole_host ''a.elf'' = Some (whole_elf, demo_header)"
  "file_phdr whole_elf demo_header 0 =
     \<lparr>p_type = 1, p_offset = 84, p_vaddr = 0x80000000, p_paddr = 0x80000000, p_filesz = 5\<rparr>"
  "phdrs_ok 0x80000000 0x84000000 whole_elf demo_header" "heap_grant (of_nat CHUNK) whole_host"
  "segs_whole whole_elf demo_header"
proof -
  have off: "phdr_off demo_header 0 = 52"
    by (simp add: demo_header_def demo_elf_def decode_Ehdr_def sizeof_Ehdr_def get16_def get32_def le_word_def phdr_off_def)
  have hdr: "take sizeof_Ehdr (f_data whole_elf) = take sizeof_Ehdr (f_data demo_elf)"
    by (simp add: whole_elf_def sizeof_Ehdr_def)
  have chk: "check_Ehdr demo_header = None"
    using demo_facts(1) by (auto simp: elf_header_def split: option.splits if_splits)
  have len: "length (f_data whole_elf) = 90" "f_seekable whole_elf" by (simp_all add: whole_elf_def demo_elf_def)
  show "elf_header whole_host ''a.elf'' = Some (whole_elf, demo_header)"
    using hdr chk len by (simp add: elf_header_def whole_host_def demo_header_def [symmetric]) (simp add: whole_elf_def demo_elf_def sizeof_Ehdr_def)
  show ph: "file_phdr whole_elf demo_header 0 =
     \<lparr>p_type = 1, p_offset = 84, p_vaddr = 0x80000000, p_paddr = 0x80000000, p_filesz = 5\<rparr>"
    by (simp add: file_phdr_def off whole_elf_def demo_elf_def decode_Phdr_def sizeof_Phdr_def get32_def le_word_def)
  show "phdrs_ok 0x80000000 0x84000000 whole_elf demo_header"
    using ph len off by (simp add: phdrs_ok_def phdr_ok_def demo_facts(2) sizeof_Phdr_def)
  show "heap_grant (of_nat CHUNK) whole_host" by (simp add: heap_grant_def whole_host_def CHUNK_def)
  show "segs_whole whole_elf demo_header" by (simp add: segs_whole_def demo_facts(2) ph)
qed

lemma whole_image: "elf_overlay whole_elf demo_header m = seg_put 0x80000000 [0xA0, 0xA1, 0xA2, 0xA3, 0xA4] m"
proof -
  have "seg_bytes whole_elf (file_phdr whole_elf demo_header 0) = [0xA0, 0xA1, 0xA2, 0xA3, 0xA4]"
    by (simp add: seg_bytes_def whole_facts(2)) (simp add: whole_elf_def demo_elf_def)
  then show ?thesis
    by (simp add: elf_overlay_def demo_facts(2) put_phdr_def whole_facts(2) loadable_def PT_LOAD_def)
qed

text \<open>C11: Every call of the loader returns, with 0 or one of the four error codes of its header;
  it keeps the SoC's invariant, frees its buffer and closes the file on every exit; an error
  leaves the entry point unset; success means that the header passed every check and the entry
  point is the DRAM base.\<close>

theorem load_elf_exits:
  assumes "soc_inv (t, h)"
  shows "\<exists>rc q s'. SnakeSoC_load_elf path (t, h) p = Inr (rc, q, s') \<and> soc_inv s' \<and>
    h_live (snd s') = h_live h \<and> h_open (snd s') = h_open h \<and>
    (rc \<in> {Some EIO, Some EINVAL, Some ENOMEM, Some EFAULT} \<and> q = p \<or>
     rc = None \<and> elf_header h path \<noteq> None \<and> q = map_option (\<lambda>_. ELF_LOADER_DRAM_BASE) p)"
  using load_elf_post [OF assms, of path p]
  by (auto simp: load_post_def host_ledger_def split: option.splits)

lemma load_elf_exits_witness:
  "\<exists>rc q s'. SnakeSoC_load_elf ''missing'' (soc0 None, host0) None = Inr (rc, q, s') \<and> h_live (snd s') = 0"
  using load_elf_exits [OF soc_inv_soc0(1) [of None host0], of "''missing''" None] by auto

text \<open>C12: The result code of the loader, as a function of the file and of the allocator.  As long as
  the segments it copies lie in DRAM: EIO for a missing or short file, EINVAL for a header that
  fails a check, ENOMEM when the buffer is refused, and otherwise the verdict on the first program
  header at fault (EIO when it or its bytes are not in the file, EINVAL for two different
  addresses), or success; the entry point is set exactly on success.\<close>

theorem load_elf_verdict:
  assumes "soc_inv (t, h)" "path_in_dram h path"
  shows "\<exists>s'. SnakeSoC_load_elf path (t, h) p =
    Inr (load_verdict h path, if load_verdict h path = None then map_option (\<lambda>_. ELF_LOADER_DRAM_BASE) p else p, s')"
  using load_elf_code [OF assms] .

text \<open>Witness: the file cut short by its last byte, so that its segment is not complete.\<close>

lemma load_elf_verdict_witness:
  "\<exists>s'. SnakeSoC_load_elf ''a.elf'' (soc0 None, cut_host) (Some 7) = Inr (Some EIO, Some 7, s')"
  using load_elf_verdict [OF soc_inv_soc0(1) cut_facts(1), of None "Some 7"] cut_facts(2) by simp

text \<open>C9: The memory image.  A file whose program headers are readable and whose loadable
  segments have equal physical and virtual addresses, start on a word boundary and lie in the
  DRAM window is loaded with success when its buffer is granted.  Memory is then the initial memory
  with all bytes of the segments put over it in the order of their headers, at every address
  that is not an edge byte of a segment, the second or third byte after its last whole word; those
  the loader can lose (C10).  When every segment is a number of words, or one byte longer, there
  is no edge byte and memory is that overlay.\<close>

theorem load_elf_memory:
  assumes "soc_inv (t, h)" "elf_header h path = Some (f, eh)" "phdrs_ok 0x80000000 0x84000000 f eh"
    and "heap_grant (of_nat CHUNK) h"
  shows "\<exists>s'. SnakeSoC_load_elf path (t, h) p = Inr (None, map_option (\<lambda>_. ELF_LOADER_DRAM_BASE) p, s') \<and>
    (\<forall>j. (\<exists>i < unat (e_phnum eh). edge_byte (file_phdr f eh i) j) \<or>
       dram_view s' j = elf_overlay f eh (dram_view (t, h)) j) \<and>
    (segs_whole f eh \<longrightarrow> dram_view s' = elf_overlay f eh (dram_view (t, h)))"
proof -
  obtain s' where s': "SnakeSoC_load_elf path (t, h) p = Inr (None, map_option (\<lambda>_. ELF_LOADER_DRAM_BASE) p, s')"
    "dram_view s' = elf_image f eh (dram_view (t, h))" using load_elf_image [OF assms] by blast
  have "(\<exists>i < unat (e_phnum eh). edge_byte (file_phdr f eh i) j) \<or>
      elf_image f eh (dram_view (t, h)) j = elf_overlay f eh (dram_view (t, h)) j" for j
    using elf_image_overlay [OF assms(3), of j "dram_view (t, h)"] by blast
  moreover have "segs_whole f eh \<longrightarrow> elf_image f eh (dram_view (t, h)) = elf_overlay f eh (dram_view (t, h))"
    using elf_image_whole [OF assms(3)] by blast
  ultimately show ?thesis using s' by metis
qed

text \<open>Witness: the third byte of the file with an edge, and the whole image of the file without one.\<close>

lemma load_elf_memory_witness:
  "(\<exists>s'. SnakeSoC_load_elf ''a.elf'' (soc0 None, demo_host) None = Inr (None, None, s') \<and> dram_view s' 0x80000002 = 0xA2) \<and>
   (\<exists>s'. SnakeSoC_load_elf ''a.elf'' (soc0 None, whole_host) None = Inr (None, None, s') \<and>
     map (\<lambda>j. dram_view s' (0x80000000 + j)) [0..<6] = [0xA0, 0xA1, 0xA2, 0xA3, 0xA4, 0])"
proof
  obtain s' where s': "SnakeSoC_load_elf ''a.elf'' (soc0 None, demo_host) None = Inr (None, None, s')"
    and m: "\<And>j. (\<exists>i < unat (e_phnum demo_header). edge_byte (file_phdr demo_elf demo_header i) j) \<or>
      dram_view s' j = elf_overlay demo_elf demo_header (dram_view (soc0 None, demo_host)) j"
    using load_elf_memory [OF soc_inv_soc0(1) demo_facts(1,4,5), of None None] by (auto simp only: option.map)
  have "\<not> edge_byte (file_phdr demo_elf demo_header 0) 0x80000002" by (simp add: edge_byte_def demo_facts(3))
  then have "dram_view s' 0x80000002 = elf_overlay demo_elf demo_header (dram_view (soc0 None, demo_host)) 0x80000002"
    using m [of "0x80000002"] by (auto simp: demo_facts(2))
  also have "\<dots> = 0xA2"
    by (simp add: elf_overlay_def demo_facts(2,3) put_phdr_def loadable_def PT_LOAD_def seg_put_def seg_bytes_def)
      (simp add: demo_elf_def)
  finally show "\<exists>s'. SnakeSoC_load_elf ''a.elf'' (soc0 None, demo_host) None = Inr (None, None, s') \<and>
      dram_view s' 0x80000002 = 0xA2" using s' by blast
next
  obtain s' where s': "SnakeSoC_load_elf ''a.elf'' (soc0 None, whole_host) None = Inr (None, None, s')"
    "dram_view s' = elf_overlay whole_elf demo_header (dram_view (soc0 None, whole_host))"
    using load_elf_memory [OF soc_inv_soc0(1) whole_facts(1,3,4), of None None] whole_facts(5) by auto
  have z: "dram_view (soc0 None, whole_host) = (\<lambda>_. 0)" by (rule zero_view)
  have six: "[0..<6] = [0, 1, 2, 3, 4, 5]" by (simp add: upt_rec)
  have at: "dram_view s' (0x80000000 + j) = (if j < length [0xA0, 0xA1, 0xA2, 0xA3, 0xA4 :: uint8]
      then [0xA0, 0xA1, 0xA2, 0xA3, 0xA4] ! j else 0)" for j
    unfolding s'(2) whole_image z by (rule seg_put_at)
  have "map (\<lambda>j. dram_view s' (0x80000000 + j)) [0..<6] = [0xA0, 0xA1, 0xA2, 0xA3, 0xA4, 0]"
    unfolding at six by simp
  with s'(1) show "\<exists>s'. SnakeSoC_load_elf ''a.elf'' (soc0 None, whole_host) None = Inr (None, None, s') \<and>
     map (\<lambda>j. dram_view s' (0x80000000 + j)) [0..<6] = [0xA0, 0xA1, 0xA2, 0xA3, 0xA4, 0]"
    by (intro exI [of _ s'] conjI)
qed



section \<open>Construction and destruction\<close>

text \<open>C20: Under any allocator the constructor returns.  A failure is \<^verbatim>\<open>-ENOMEM\<close> and leaves no
  live block behind, whatever the allocation that failed; a success is the SoC of \<open>soc0\<close> up to
  its ticker, whose objects are some of the three, in order; and the destructor gives back
  every block of a constructed SoC.\<close>

theorem ctor_no_leak:
  "\<exists>rc s h'. SnakeSoC_ctor f h = Inr (rc, s, h') \<and>
     (rc = Some ENOMEM \<and> s = None \<and> h_live h' = h_live h \<or>
      rc = None \<and> (\<exists>t. s = Some ((soc0 f)\<lparr>ticker := t\<rparr>) \<and> subseq (tickables t) [Tick_Clint, Tick_UART, Tick_IrqAgg]) \<and>
      h_live (snd (SnakeSoC_dtor s h')) = h_live h)"
proof -
  have sub: "subseq ((if a then [Tick_Clint] else []) @ (if b then [Tick_UART] else []) @ (if c then [Tick_IrqAgg] else []))
      [Tick_Clint, Tick_UART, Tick_IrqAgg]" for a b c
    by simp
  from ctor_spec [of f h] show ?thesis
    unfolding ctor_post_def
  proof (elim disjE exE conjE)
    fix t h' a b c
    assume r: "SnakeSoC_ctor f h = Inr (None, Some ((soc0 f)\<lparr>ticker := t\<rparr>), h')"
      and l: "h_live h' = h_live h + soc_blocks ((soc0 f)\<lparr>ticker := t\<rparr>)"
      and t: "tickables t = (if a then [Tick_Clint] else []) @ (if b then [Tick_UART] else []) @ (if c then [Tick_IrqAgg] else [])"
    have "h_live (snd (SnakeSoC_dtor (Some ((soc0 f)\<lparr>ticker := t\<rparr>)) h')) = h_live h"
      using soc_dtor_live l by simp
    moreover have "subseq (tickables t) [Tick_Clint, Tick_UART, Tick_IrqAgg]" unfolding t by (rule sub)
    ultimately show ?thesis using r by auto
  qed auto
qed

text \<open>When the eight allocations are granted the constructor succeeds and the SoC is
  exactly \<open>soc0\<close>, the initial state of the runs above.\<close>

theorem ctor_success:
  assumes "next_allocs_ok 8 h"
  shows "\<exists>h'. SnakeSoC_ctor f h = Inr (None, Some (soc0 f), h')"
  using ctor_all_ok [OF assms] by blast

lemma ctor_success_witness: "\<exists>h'. SnakeSoC_ctor (Some Stderr) host0 = Inr (None, Some (soc0 (Some Stderr)), h')"
  using ctor_success [of host0 "Some Stderr"] by (simp add: next_allocs_ok_def)

text \<open>C38: The return codes of the three \<open>Ticker_add\<close> calls are not tested.  Whatever the allocator
  answers once the seven requests before them are granted, the constructor reports success; the
  first registrations, as many as are refused before one is granted (up to all three), are
  missing from the SoC.  As soon as one is, the timer's counter stands still under any number of
  ticks and the timer interrupt never comes.\<close>

theorem ctor_ignores_ticker_failure:
  assumes "next_allocs_ok 7 h"
  shows "\<exists>soc h'. SnakeSoC_ctor f h = Inr (None, Some soc, h') \<and>
    tickables (ticker soc) = drop (ticker_refusals (h\<lparr>h_alloc := drop 7 (h_alloc h)\<rparr>)) [Tick_Clint, Tick_UART, Tick_IrqAgg] \<and>
    soc\<lparr>ticker := soc_ticker\<rparr> = soc0 f \<and>
    (ticker_refusals (h\<lparr>h_alloc := drop 7 (h_alloc h)\<rparr>) = 0 \<or>
      (\<forall>n. \<exists>s. soc_run (soc, h') (replicate n OpTick) [] s \<and> mtime (clint (fst s)) = 0 \<and> \<not> SnakeSoC_mtip_wire (fst s)))"
proof -
  let ?k = "ticker_refusals (h\<lparr>h_alloc := drop 7 (h_alloc h)\<rparr>)"
  obtain h7 where h7: "h_alloc h7 = drop 7 (h_alloc h)"
    "SnakeSoC_ctor f h = bind_res (add_tickables \<lparr>tk_cap = 0, tickables = []\<rparr> h7) (\<lambda>(t, h').
      Inr (None, Some ((soc0 f)\<lparr>ticker := t\<rparr>), h'))"
    using ctor_until_ticker [OF assms, of f] by blast
  have k: "ticker_refusals h7 = ?k" by (simp add: ticker_refusals_def h7(1))
  obtain c h' where "add_tickables \<lparr>tk_cap = 0, tickables = []\<rparr> h7 =
      Inr (\<lparr>tk_cap = c, tickables = drop ?k [Tick_Clint, Tick_UART, Tick_IrqAgg]\<rparr>, h')"
    using add_tickables_refused [of h7] unfolding k by blast
  moreover define soc where "soc = (soc0 f)\<lparr>ticker := \<lparr>tk_cap = c, tickables = drop ?k [Tick_Clint, Tick_UART, Tick_IrqAgg]\<rparr>\<rparr>"
  ultimately have c: "SnakeSoC_ctor f h = Inr (None, Some soc, h')" using h7(2) by simp
  have "\<exists>s. soc_run (soc, h') (replicate n OpTick) [] s \<and> mtime (clint (fst s)) = 0 \<and> \<not> SnakeSoC_mtip_wire (fst s)"
    if "?k \<noteq> 0" for n
  proof -
    have "Tick_Clint \<notin> set (tickables (ticker (fst (soc, h'))))" using that by (cases ?k) (auto simp: soc_def dest: in_set_dropD)
    from untimed_ticks [OF this, of n] obtain s where s: "soc_run (soc, h') (replicate n OpTick) [] s"
        "clint (fst s) = clint soc" by (auto simp: soc_def soc_inv_soc0)
    moreover have "clint soc = \<lparr>msip = 0, mtime = 0, mtimecmp = 0xFFFFFFFFFFFFFFFF\<rparr>" by (simp add: soc_def soc0_def)
    ultimately show ?thesis
      by (intro exI [of _ s]) (simp add: SnakeSoC_mtip_wire_def Clint_mtip_def word_le_nat_alt)
  qed
  moreover have "soc\<lparr>ticker := soc_ticker\<rparr> = soc0 f" by (simp add: soc_def soc0_def)
  ultimately show ?thesis using c by (intro exI [of _ soc] exI [of _ h']) (auto simp: soc_def)
qed

text \<open>Witness: the first registration is refused, the other two are granted.\<close>

lemma ctor_ignores_ticker_failure_witness:
  "\<exists>soc h'. SnakeSoC_ctor None (host0\<lparr>h_alloc := [True, True, True, True, True, True, True, False]\<rparr>) =
     Inr (None, Some soc, h') \<and> tickables (ticker soc) = [Tick_UART, Tick_IrqAgg] \<and>
     (\<exists>s. soc_run (soc, h') (replicate 1000 OpTick) [] s \<and> mtime (clint (fst s)) = 0)"
proof -
  let ?h = "host0\<lparr>h_alloc := [True, True, True, True, True, True, True, False]\<rparr>"
  have "next_allocs_ok 7 ?h" by (simp add: next_allocs_ok_def)
  moreover have k: "ticker_refusals (?h\<lparr>h_alloc := drop 7 (h_alloc ?h)\<rparr>) = 1" by (simp add: ticker_refusals_def)
  moreover have "drop 1 [Tick_Clint, Tick_UART, Tick_IrqAgg] = [Tick_UART, Tick_IrqAgg]" by simp
  ultimately show ?thesis using ctor_ignores_ticker_failure [of ?h None] unfolding k by (metis zero_neq_one)
qed

section \<open>The memory map\<close>

text \<open>C32: Registering a unit that is not empty and ends strictly below \<open>2 ^ 32\<close> (\<open>unit_ok\<close>; for one
  that ends at the top see C37) in a map of such units that do not overlap (\<open>map_ok\<close>) returns.  It is refused with \<^verbatim>\<open>-EEXIST\<close> exactly when its
  address range meets a registered one, otherwise it is appended or the allocator refused; the
  map stays well-formed and an error leaves it as it was.\<close>

theorem add_device_contract:
  assumes "map_ok m" "unit_ok u"
  shows "\<exists>rc m' h'. MemoryMap_add_device m u h = Inr (rc, m', h') \<and> map_ok m' \<and>
    (rc = Some EEXIST) = (\<exists>v. v \<in> set (mm_units m) \<and> unit_range v \<inter> unit_range u \<noteq> {}) \<and>
    (rc = None \<and> mm_units m' = mm_units m @ [u] \<or> rc \<in> {Some EEXIST, Some ENOMEM} \<and> m' = m)"
  by (rule add_device_spec [OF assms, of h]) (use assms in auto)

lemma add_device_contract_witness:
  "\<exists>rc m' h'. MemoryMap_add_device soc_map \<lparr>u_base = 0x100, u_size = 4, u_device = Ref_UART\<rparr> host0 =
     Inr (rc, m', h') \<and> m' = soc_map"
proof -
  have "unit_ok \<lparr>u_base = 0x100, u_size = 4, u_device = Ref_UART\<rparr>" by (simp add: unit_ok_def)
  from add_device_contract [OF soc_map_ok this, of host0] show ?thesis
    by (auto simp: MemoryMap_add_device_def soc_map_def ranges_overlap_def)
qed



text \<open>C36: An access of a width the bus transfers (1, 2 or 4) that ends at or past the top of the
  address space is not refused by the decoder, although no unit of the map covers it: its end
  address wraps to at most 3, which the unit at address 0 contains, so the access is dispatched
  to the boot ROM at an offset far outside of it.  Reads and writes then get the ROM's device error
  (with the value zero, and nothing changes) instead of the decode error of an unmapped address.\<close>

theorem decode_wraps_at_top:
  assumes "soc_inv s" "axi_width w" "2 ^ 32 \<le> unat a + unat w"
  shows "(\<forall>u. u \<in> set (mm_units (memmap (fst s))) \<longrightarrow> \<not> access_range a w \<subseteq> unit_range u) \<and>
    map_option u_device (find_unit (memmap (fst s)) a w) = Some Ref_BootROM \<and>
    soc_read s a w (Some v) = Inr (AXI_RESP_SLVERR, Some 0, s) \<and>
    soc_write s a w val strb = Inr (AXI_RESP_SLVERR, s)"
proof -
  have m: "memmap (fst s) = soc_map" using assms(1) by (rule inv_bits)
  have f: "decode_range (unat a) ((unat a + unat w) mod 2 ^ 32) = Some Ref_BootROM" using past_top_rom(1) [OF assms(2,3)] .
  then have e: "spec_past_top a w = AXI_RESP_SLVERR" unfolding spec_past_top_def by simp
  have "\<not> access_range a w \<subseteq> unit_range u" if u: "u \<in> set (mm_units soc_map)" for u
  proof
    assume "access_range a w \<subseteq> unit_range u"
    moreover have "0 < unat w" using assms(2) by (auto simp: axi_width_def)
    then have "unat a + unat w - 1 \<in> access_range a w" by (auto simp: access_range_def)
    moreover have "unat (u_base u) + unat (u_size u) < 2 ^ 32" using soc_map_ok u by (auto simp: map_ok_def list_all_iff unit_ok_def)
    ultimately have "unat a + unat w - 1 < 2 ^ 32 - 1" unfolding unit_range_def by (auto dest!: subsetD)
    with assms(3) show False by simp
  qed
  moreover have "map_option u_device (find_unit soc_map a w) = Some Ref_BootROM" unfolding find_unit_range by (rule f)
  ultimately show ?thesis using past_top [OF assms(1,3)] unfolding m e by blast
qed

text \<open>Witness: the last two bytes of the address space and the two after them.\<close>

lemma decode_wraps_at_top_witness:
  "soc_read (soc0 None, host0) 0xFFFFFFFE 4 (Some 5) = Inr (AXI_RESP_SLVERR, Some 0, (soc0 None, host0))"
  using decode_wraps_at_top [OF soc_inv_soc0(1) [of None host0], of 4 "0xFFFFFFFE" 5] by (simp add: axi_width_def)

text \<open>C37: A unit that ends exactly at the top of the address space has the 32-bit end address 0.
  The overlap test therefore never reports it with any other unit or with itself, so that its
  registration is never refused as overlapping, even when it is registered already.  In no map
  does the decoder return it for an access that ends below the top; the only accesses that
  reach it are those that end exactly at the top, and they do when no unit before it takes them.\<close>

theorem unit_at_top:
  assumes top: "unat (u_base u) + unat (u_size u) = 2 ^ 32" and w: "w \<noteq> 0"
  shows "(\<not> ranges_overlap (u_base u) (u_size u) (u_base v) (u_size v) \<and>
      \<not> ranges_overlap (u_base v) (u_size v) (u_base u) (u_size u)) \<and>
    MemoryMap_add_device m u h \<noteq> Inr (Some EEXIST, m', h') \<and>
    (unat a + unat w < 2 ^ 32 \<longrightarrow> find_unit m a w \<noteq> Some u) \<and>
    (unat a + unat w = 2 ^ 32 \<and> u_base u \<le> a \<and> find_unit_from us a w = None \<longrightarrow>
      find_unit_from (us @ u # vs) a w = Some u)"
proof -
  have e: "u_base u + ucast (u_size u) = 0" using wrapped_end [of "u_base u" "u_size u"] top by (simp add: unat_eq_0)
  then have no: "\<not> ranges_overlap (u_base u) (u_size u) (u_base v) (u_size v)"
      "\<not> ranges_overlap (u_base v) (u_size v) (u_base u) (u_size u)" for v
    by (simp_all add: ranges_overlap_def)
  have "MemoryMap_add_device m u h \<noteq> Inr (Some EEXIST, m', h')"
    using no by (auto simp: MemoryMap_add_device_def list_ex_iff split: prod.splits option.splits)
  moreover have "find_unit m a w \<noteq> Some u" if "unat a + unat w < 2 ^ 32"
  proof -
    have "0 < unat w" using w by (simp add: unat_gt_0)
    then have "a + ucast w \<noteq> 0" using add_no_wrap [OF that] by (metis add_is_0 less_irrefl unat_0)
    then show ?thesis using e find_unit_from_end [of "mm_units m" a w u] unfolding find_unit_def by auto
  qed
  moreover have "find_unit_from (us @ u # vs) a w = Some u"
    if "unat a + unat w = 2 ^ 32" "u_base u \<le> a" "find_unit_from us a w = None"
  proof -
    have "a + ucast w = 0" using wrapped_end [of a w] that(1) by (simp add: unat_eq_0)
    with that(2,3) e show ?thesis by (induction us) (auto simp: Let_def split: if_splits)
  qed
  ultimately show ?thesis using no by blast
qed

text \<open>Witness: a page at the top, registered twice; its last word is found, the one before is not.\<close>

lemma unit_at_top_witness:
  "let u = \<lparr>u_base = 0xFFFFF000, u_size = 0x1000, u_device = Ref_UART\<rparr>; m = \<lparr>mm_cap = 4, mm_units = [u, u]\<rparr>
   in MemoryMap_add_device \<lparr>mm_cap = 4, mm_units = [u]\<rparr> u host0 = Inr (None, m, host0) \<and>
     find_unit m 0xFFFFFFF8 4 \<noteq> Some u \<and> find_unit m 0xFFFFFFFC 4 = Some u"
proof -
  let ?u = "\<lparr>u_base = 0xFFFFF000, u_size = 0x1000, u_device = Ref_UART\<rparr>"
  let ?m = "\<lparr>mm_cap = 4, mm_units = [?u, ?u]\<rparr>"
  have top: "unat (u_base ?u) + unat (u_size ?u) = 2 ^ 32" and w: "(4 :: size_t) \<noteq> 0" by simp_all
  note at = unit_at_top [OF top w]
  have "\<not> ranges_overlap (u_base ?u) (u_size ?u) (u_base ?u) (u_size ?u)" using at [of ?u] by blast
  then have "MemoryMap_add_device \<lparr>mm_cap = 4, mm_units = [?u]\<rparr> ?u host0 = Inr (None, ?m, host0)"
    by (simp add: MemoryMap_add_device_def grow_if_full_def)
  moreover have "find_unit ?m 0xFFFFFFF8 4 \<noteq> Some ?u" using at [of ?u ?m host0 ?m host0 "0xFFFFFFF8"] by simp
  moreover have "find_unit ?m 0xFFFFFFFC 4 = Some ?u"
    using at [of ?u ?m host0 ?m host0 "0xFFFFFFFC" "[]" "[?u]"] by (simp add: find_unit_def)
  ultimately show ?thesis by (simp add: Let_def)
qed

section \<open>Single devices\<close>

text \<open>The CLINT's registers are independent: an accepted write sets the register it
  addresses (only bit 0 of the software-interrupt register) and a read of any of the five
  offsets returns that value or the register's old one, so the 64-bit counter and compare
  register can be written half by half.\<close>

theorem clint_read_after_write:
  assumes "Clint_MmioDevice_write c off 4 v strb = Inr (AXI_RESP_OKAY, c')"
  shows "Clint_MmioDevice_read c' off 4 (Some x) =
      Inr (AXI_RESP_OKAY, Some (if off = CLINT_OFFSET_MSIP then v AND CLINT_MSIP_MASK else v), c') \<and>
    (off' = off \<or> (\<exists>r q. Clint_MmioDevice_read c off' 4 (Some x) = Inr (r, q, c) \<and>
      Clint_MmioDevice_read c' off' 4 (Some x) = Inr (r, q, c')))"
  by (rule clint_write_cases [of c off 4 v strb]) (use assms in \<open>auto simp: clint_read_reg split: option.splits\<close>)

lemma clint_read_after_write_witness:
  "\<exists>c'. Clint_MmioDevice_write Clint_ctor CLINT_OFFSET_MTIMECMP_HI 4 7 0xF = Inr (AXI_RESP_OKAY, c') \<and>
     Clint_MmioDevice_read c' CLINT_OFFSET_MTIMECMP_HI 4 (Some 0) = Inr (AXI_RESP_OKAY, Some 7, c')"
proof -
  obtain c' where w: "Clint_MmioDevice_write Clint_ctor CLINT_OFFSET_MTIMECMP_HI 4 7 0xF = Inr (AXI_RESP_OKAY, c')"
    by (simp add: Clint_MmioDevice_write_def clint_offsets)
  from clint_read_after_write [OF w, of 0] w show ?thesis by (auto simp: clint_offsets)
qed

text \<open>Transmission.  A full-word write to the transmit register through the bus hands the
  low byte of the value to the stream: it is appended to what was written there, or, when
  \<^verbatim>\<open>fputc\<close> fails, the write is a device error and nothing is written.\<close>

theorem uart_transmit:
  assumes "soc_inv s" "uart_out (uart (fst s)) = Some f"
  shows "\<exists>r s'. soc_write s (ADDR_UART + UART_TX_DATA) 4 v 0xF = Inr (r, s') \<and>
    (if h_putfail (snd s) \<noteq> [] \<and> hd (h_putfail (snd s))
     then r = AXI_RESP_SLVERR \<and> h_out (snd s') = h_out (snd s)
     else r = AXI_RESP_OKAY \<and> h_out (snd s') = (h_out (snd s))(f := h_out (snd s) f @ [ucast v])) \<and>
    fst s' = fst s"
proof -
  have m: "memmap (fst s) = soc_map" using assms(1) by (simp add: soc_inv_def)
  have u: "find_unit soc_map 0x10001000 4 = Some \<lparr>u_base = 0x10001000, u_size = 12, u_device = Ref_UART\<rparr>"
    by (simp add: find_unit_def soc_map_def)
  have low: "ucast (v AND 0xFF) = (ucast v :: uint8)"
    using le_byte_mask [of 0 v] by (simp add: le_byte_def)
  have wr: "soc_write s (ADDR_UART + UART_TX_DATA) 4 v 0xF =
      (let (eof, h) = host_fputc (ucast v) f (snd s)
       in Inr (if eof then AXI_RESP_SLVERR else AXI_RESP_OKAY, fst s, h))"
    by (simp add: soc_write_def m u MemoryMap_write_def MmioDevice_write_def lift_write_def vtbl_defs lens_defs
        UART_MmioDevice_write_def uart_consts ADDR_UART_def assms(2) low split: prod.splits)
  show ?thesis
  proof (cases "h_putfail (snd s)")
    case Nil
    then show ?thesis by (simp add: wr host_fputc_def)
  next
    case (Cons b bs)
    then show ?thesis by (cases b) (simp_all add: wr host_fputc_def)
  qed
qed

lemma uart_transmit_witness:
  "\<exists>r s'. soc_write (soc0 (Some Stderr), host0) 0x10001000 4 0x41 0xF = Inr (r, s') \<and> h_out (snd s') Stderr = [0x41]"
  using uart_transmit [OF soc_inv_soc0(1) [of "Some Stderr" host0], of Stderr "0x41"]
  by (simp add: ADDR_UART_def uart_consts) (auto simp: soc0_def)

text \<open>The strobe of a sub-word write is not looked at: a one-byte write to the transmit
  register with no byte lane selected transmits like a full-word write.\<close>

theorem uart_ignores_subword_strobe:
  "UART_MmioDevice_write (u, h) UART_TX_DATA 1 v 0 = UART_MmioDevice_write (u, h) UART_TX_DATA 4 v 0xF"
  by (simp add: UART_MmioDevice_write_def)

text \<open>C21: The terminal is left as it was found.  However many SoCs use the backend, its settings are
  saved and switched to raw mode at most once, one handler is registered, and when the process
  exits through it the settings are the original ones, unless the call that restores them fails.
  The non-blocking flag, which is set also when descriptor 0 is no terminal, is not taken back.\<close>

theorem terminal_restored:
  assumes "tty_atexit t = 0" "tty_atexit_ok t" "gt = terminal_users make_raw (Suc n) a t"
  shows "tty_attr (snd gt) = (if goes_raw t then make_raw (tty_attr t) else tty_attr t) \<and>
    tty_flags (snd gt) = (if tty_setfl_ok t then map_option (\<lambda>f. f OR O_NONBLOCK) (tty_flags t) else tty_flags t) \<and>
    tty_atexit (snd gt) = 1 \<and>
    tty_attr (snd (terminal_exit gt)) = (if goes_raw t \<and> \<not> setattr_ok 1 t then make_raw (tty_attr t) else tty_attr t) \<and>
    tty_flags (snd (terminal_exit gt)) = tty_flags (snd gt)"
  using terminal_left [OF assms] unfolding assms(3) by (simp add: terminal_in_use(1))

text \<open>Witness: two users of a terminal whose settings are a number, raw mode is zero.\<close>

lemma terminal_restored_witness:
  "\<exists>gt. tty_attr (snd gt) = (0 :: nat) \<and> tty_flags (snd gt) = Some 0x802 \<and>
     tty_attr (snd (terminal_exit gt)) = 7 \<and> tty_flags (snd (terminal_exit gt)) = Some 0x802"
proof -
  let ?t = "\<lparr>tty_isatty = True, tty_getattr_ok = True, tty_setattr_ok = [], tty_attr = 7 :: nat, tty_setfl_ok = True,
    tty_flags = Some 2, tty_atexit_ok = True, tty_atexit = 0\<rparr>"
  have "tty_atexit ?t = 0" "tty_atexit_ok ?t" by simp_all
  from terminal_restored [OF this refl, of "\<lambda>_. 0" 1 3] show ?thesis
    by (intro exI [of _ "terminal_users (\<lambda>_. 0) (Suc 1) 3 ?t"]) (simp add: goes_raw_def setattr_ok_def O_NONBLOCK_def)
qed

section \<open>Decorator and bridge\<close>

text \<open>C34: Tracing is transparent: in every state of the SoC a decorated device answers each
  read and write as the device itself, with the same effect on the SoC, and adds exactly one
  line with the arguments and the answer to the trace stream.\<close>

theorem logging_transparent:
  assumes "soc_inv s"
  shows "(\<exists>rc v s1. MmioDevice_read soc_vtbl d s off w (Some 0) = Inr (rc, Some v, s1) \<and>
      LoggingMmioDevice_read soc_vtbl (LoggingMmioDevice_ctor d t f) s off w (Some x) =
        Inr (rc, Some v, fst s1, host_fprint (resolve_sink f) (read_line t w off v rc) (snd s1))) \<and>
    (\<exists>rc s1. MmioDevice_write soc_vtbl d s off w val strb = Inr (rc, s1) \<and>
      LoggingMmioDevice_write soc_vtbl (LoggingMmioDevice_ctor d t f) s off w val strb =
        Inr (rc, fst s1, host_fprint (resolve_sink f) (write_line t w off val strb rc) (snd s1)))"
proof
  show "\<exists>rc v s1. MmioDevice_read soc_vtbl d s off w (Some 0) = Inr (rc, Some v, s1) \<and>
      LoggingMmioDevice_read soc_vtbl (LoggingMmioDevice_ctor d t f) s off w (Some x) =
        Inr (rc, Some v, fst s1, host_fprint (resolve_sink f) (read_line t w off v rc) (snd s1))"
    by (rule soc_traced.read_eq [OF assms, of d off w t f "Some x"]) simp
  show "\<exists>rc s1. MmioDevice_write soc_vtbl d s off w val strb = Inr (rc, s1) \<and>
      LoggingMmioDevice_write soc_vtbl (LoggingMmioDevice_ctor d t f) s off w val strb =
        Inr (rc, fst s1, host_fprint (resolve_sink f) (write_line t w off val strb rc) (snd s1))"
    by (rule soc_traced.write_eq [OF assms, of d off w val strb t f]) blast
qed

text \<open>Witness: the traced UART of the constructed SoC.\<close>

lemma logging_transparent_witness:
  "\<exists>rc v s1. LoggingMmioDevice_read soc_vtbl (LoggingMmioDevice_ctor Ref_UART ''uart'' None)
     (soc0 None, host0) 4 4 (Some 0) = Inr (rc, Some v, s1) \<and>
   h_out (snd s1) Stderr \<noteq> []"
proof -
  obtain rc v s1 where l: "LoggingMmioDevice_read soc_vtbl (LoggingMmioDevice_ctor Ref_UART ''uart'' None)
      (soc0 None, host0) 4 4 (Some 0) =
      Inr (rc, Some v, fst s1, host_fprint (resolve_sink None) (read_line ''uart'' 4 4 v rc) (snd s1))"
    using logging_transparent [OF soc_inv_soc0(1) [of None host0], where d = Ref_UART and off = 4 and w = 4
      and t = "''uart''" and f = None and x = 0] by blast
  then show ?thesis by (simp add: host_fprint_def resolve_sink_def read_line_def)
qed

text \<open>C22: The bridge's life cycle: from an empty bridge every sequence of calls (repeated
  initialisations with any files, accesses before the first one, ...) runs without a fault, and
  the final call gives back every block the bridge allocated.\<close>

theorem dpi_no_leak:
  "\<exists>s. dpi_run ops (None, h) = Inr s \<and> (\<exists>h'. dpi_snake_soc_fini s = (None, h') \<and> h_live h' = h_live h)"
proof -
  have "dpi_inv (h_live h) (None, h)" by (simp add: dpi_inv_def dpi_blocks_def)
  then obtain s where "dpi_run ops (None, h) = Inr s" "dpi_inv (h_live h) s" using dpi_run_inv by blast
  with fini_dpi_inv show ?thesis by blast
qed

text \<open>C23: A failed initialisation.  After any sequence of calls an initialisation with any file
  returns; it succeeds exactly when the bridge then owns a SoC.  When it fails (any allocation
  refused, any fault of the file) the bridge is empty, everything it had allocated is given back,
  and until the next initialisation the testbench reads and writes decode errors, the value zero
  and no interrupt, and ticks change nothing.\<close>

theorem dpi_failed_init:
  assumes "dpi_run before (None, h) = Inr s" "list_all (\<lambda>op. dpi_access op \<noteq> None) ops"
  shows "\<exists>rc s'. dpi_snake_soc_init path s = Inr (rc, s') \<and> (rc = None \<longleftrightarrow> fst s' \<noteq> None) \<and>
    (rc \<noteq> None \<longrightarrow> h_live (snd s') = h_live h \<and> dpi_trace ops s' = Inr (map dpi_idle ops, s'))"
proof -
  have "dpi_inv (h_live h) (None, h)" by (simp add: dpi_inv_def dpi_blocks_def)
  from dpi_run_inv [OF this, of before] assms(1) have "dpi_inv (h_live h) s" by simp
  then obtain rc s' where i: "dpi_snake_soc_init path s = Inr (rc, s')" "dpi_inv (h_live h) s'" "rc = None \<longleftrightarrow> fst s' \<noteq> None"
    using init_dpi_inv by blast
  moreover have "h_live (snd s') = h_live h \<and> dpi_trace ops s' = Inr (map dpi_idle ops, s')" if "rc \<noteq> None"
    using i(2,3) that idle_trace [OF assms(2), of "snd s'"] by (cases s') (simp add: dpi_inv_def dpi_blocks_def)
  ultimately show ?thesis by blast
qed

text \<open>Witness: no memory for the SoC itself; a read and a write of DRAM.\<close>

lemma dpi_failed_init_witness:
  "\<exists>rc s'. dpi_snake_soc_init None (None, host0\<lparr>h_alloc := [False]\<rparr>) = Inr (rc, s') \<and> rc \<noteq> None \<and>
    dpi_trace [DpiRead 0x80000000 4, DpiWrite 0x80000000 4 1 0xF] s' = Inr ([(3, 0, 0, 0, 0), (3, 0, 0, 0, 0)], s')"
proof -
  let ?ops = "[DpiRead 0x80000000 4, DpiWrite 0x80000000 4 1 0xF]" and ?s = "(None, host0\<lparr>h_alloc := [False]\<rparr>)"
  have r: "dpi_run [] ?s = Inr ?s" by simp
  have "h_alloc (host0\<lparr>h_alloc := [False]\<rparr>) = [False]" by simp
  from calloc_refused [OF this] obtain h1 where c: "heap_calloc 1 (host0\<lparr>h_alloc := [False]\<rparr>) = (False, h1)" by blast
  then have i: "dpi_snake_soc_init None ?s = Inr (Some ENOMEM, None, h1)"
    by (simp add: dpi_snake_soc_init_def SnakeSoC_ctor_def)
  have ops: "list_all (\<lambda>op. dpi_access op \<noteq> None) ?ops" by simp
  from dpi_failed_init [OF r ops, of None] i have "dpi_trace ?ops (None, h1) = Inr (map dpi_idle ?ops, (None, h1))" by auto
  with i show ?thesis by simp
qed

text \<open>C8: The bridge runs the program.  Initialised with a well-formed file whose loadable segments
  are a number of words or one byte longer (so that no edge byte is lost, C10), when the nine
  requests for memory are granted, the bridge succeeds, and from then on every sequence of read,
  write and tick calls of the testbench, with any address, width, value and strobe, gets exactly
  the response codes, values and interrupt wires of the abstract machine whose memory holds all
  bytes of the file's segments and zeros elsewhere, in a SoC otherwise as constructed.\<close>

theorem dpi_runs_program:
  assumes "next_allocs_ok 9 h" "path \<noteq> []" "elf_header h path = Some (f, eh)" "phdrs_ok 0x80000000 0x84000000 f eh"
    and "segs_whole f eh" "those (map dpi_access ops) = Some sops"
  shows "\<exists>s s'. dpi_snake_soc_init (Some path) (None, h) = Inr (None, s) \<and>
    dpi_trace ops s = Inr (map as_dpi (fst (spec_trace sops (dpi_spec h f eh))), s')"
proof -
  obtain t h1 where i: "dpi_snake_soc_init (Some path) (None, h) = Inr (None, Some t, h1)" "sys_inv (t, h1)"
      "soc_abs (t, h1) = dpi_spec h f eh"
    using init_loads [OF assms(1-5)] by blast
  obtain t' h' where "soc_trace sops (t, h1) = Inr (fst (spec_trace sops (dpi_spec h f eh)), (t', h'))"
    using trace_spec [OF i(2), of sops] i(3) by auto
  from dpi_trace_soc [OF assms(6) this] i(1) show ?thesis by blast
qed

text \<open>Witness: the first word of the segment, its last byte, a tick, the timer, and a width of -1.\<close>

lemma dpi_runs_program_witness:
  "\<exists>s s'. dpi_snake_soc_init (Some ''a.elf'') (None, whole_host) = Inr (None, s) \<and>
    dpi_trace [DpiRead 0x80000000 4, DpiRead 0x80000004 1, DpiTick, DpiRead 0x0200BFF8 4, DpiRead 0 (- 1)] s =
      Inr ([(0, 0xA3A2A1A0, 0, 0, 0), (0, 0xA4, 0, 0, 0), (0, 0, 0, 0, 0), (0, 1, 0, 0, 0), (3, 0, 0, 0, 0)], s')"
proof -
  let ?ops = "[DpiRead 0x80000000 4, DpiRead 0x80000004 1, DpiTick, DpiRead 0x0200BFF8 4, DpiRead 0 (- 1)]"
  let ?sops = "[OpRead 0x80000000 4, OpRead 0x80000004 1, OpTick, OpRead 0x0200BFF8 4, OpRead 0 (- 1)]"
  let ?m = "view_mem (elf_overlay whole_elf demo_header (\<lambda>_. 0))"
  have m: "?m = (\<lambda>j. if j < 5 then [0xA0, 0xA1, 0xA2, 0xA3, 0xA4] ! j else 0)"
    unfolding whole_image by (auto simp: view_mem_def seg_put_def fun_eq_iff)
  have "le_value ?m 0 4 = 0xA3A2A1A0" unfolding m by (simp add: le_value_widths le_word_def)
  moreover have "le_value ?m 4 1 = 0xA4" unfolding m le_value_widths by simp
  then have "le_value ?m 4 (Suc 0) = 0xA4" by (simp only: One_nat_def)
  moreover have u: "unat (- 1 :: size_t) = 18446744073709551615" by (simp add: unsigned_minus_1_eq_mask mask_eq_exp_minus_1)
  ultimately have t: "map as_dpi (fst (spec_trace ?sops (dpi_spec whole_host whole_elf demo_header))) =
      [(0, 0xA3A2A1A0, 0, 0, 0), (0, 0xA4, 0, 0, 0), (0, 0, 0, 0, 0), (0, 1, 0, 0, 0), (3, 0, 0, 0, 0)]"
    by (simp add: dpi_spec_def spec0_def spec_read_def spec_serve_read_def spec_past_top_def decode_defs spec_tick_def
        spec_answer_def spec_wires_def axi_width_def as_dpi_def whole_host_def u Let_def) (simp add: word_le_nat_alt)
  have a: "those (map dpi_access ?ops) = Some ?sops" and n: "next_allocs_ok 9 whole_host" "''a.elf'' \<noteq> []"
    by (simp_all add: whole_host_def next_allocs_ok_def)
  from dpi_runs_program [OF n whole_facts(1,3,5) a] show ?thesis unfolding t .
qed

end
